(* ===== verification/Prelude.thy ===== *)
theory Prelude
  imports Main "HOL-Library.Multiset"
begin

section \<open>Shared vocabulary of the development\<close>

text \<open>
  What the components share: the parts of the Rust standard library that the sources use
  (\<open>Ordering\<close>, \<open>Bound\<close> and \<open>RangeBounds\<close>, \<open>BTreeSet\<close>, the \<open>?\<close> operator on
  \<open>Result\<close>), the fact collections, and generic lemmas on lists and multisets.
  A result type is a sum \<open>'e + 'a\<close>: \<open>Inl e\<close> is the error (or the panic) \<open>e\<close>,
  \<open>Inr x\<close> is the value. A \<open>BTreeSet\<close> is its iteration order, a strictly ascending list.
\<close>

named_theorems result_simps "equations of the result operations"
named_theorems btree_simps "equations of the ordered-list model of BTreeSet"

subsection \<open>Results and the question-mark operator\<close>

fun try_bind :: "'e + 'a \<Rightarrow> ('a \<Rightarrow> 'e + 'b) \<Rightarrow> 'e + 'b" where
  "try_bind (Inl e) f = Inl e"
| "try_bind (Inr x) f = f x"

text \<open>Collecting an iterator of results stops at the first error.\<close>

fun try_map :: "('a \<Rightarrow> 'e + 'b) \<Rightarrow> 'a list \<Rightarrow> 'e + 'b list" where
  "try_map f [] = Inr []"
| "try_map f (x # xs) = try_bind (f x) (\<lambda>y. try_bind (try_map f xs) (\<lambda>ys. Inr (y # ys)))"

subsection \<open>Ordering\<close>

datatype ordering = Less | Equal | Greater

fun ord_then :: "ordering \<Rightarrow> ordering \<Rightarrow> ordering" where
  "ord_then Equal r = r"
| "ord_then l r = l"

fun ord_reverse :: "ordering \<Rightarrow> ordering" where
  "ord_reverse Less = Greater"
| "ord_reverse Equal = Equal"
| "ord_reverse Greater = Less"

definition rs_cmp :: "'a::linorder \<Rightarrow> 'a \<Rightarrow> ordering" where
  "rs_cmp a b = (if a < b then Less else if a = b then Equal else Greater)"

subsection \<open>Bounds of ranges\<close>

datatype 'a bound = Included 'a | Excluded 'a | Unbounded

fun above_start :: "'a::linorder bound \<Rightarrow> 'a \<Rightarrow> bool" where
  "above_start (Included s) x = (s \<le> x)"
| "above_start (Excluded s) x = (s < x)"
| "above_start Unbounded x = True"

fun below_end :: "'a::linorder bound \<Rightarrow> 'a \<Rightarrow> bool" where
  "below_end (Included e) x = (x \<le> e)"
| "below_end (Excluded e) x = (x < e)"
| "below_end Unbounded x = True"

definition range_contains :: "'a::linorder bound \<Rightarrow> 'a bound \<Rightarrow> 'a \<Rightarrow> bool" where
  "range_contains s e x = (above_start s x \<and> below_end e x)"

subsection \<open>Ordered sets as strictly ascending lists\<close>

fun bts_insert :: "'a::linorder \<Rightarrow> 'a list \<Rightarrow> 'a list" where
  "bts_insert x [] = [x]"
| "bts_insert x (y # ys) =
     (if x < y then x # y # ys else if x = y then y # ys else y # bts_insert x ys)"

definition bts_remove :: "'a::linorder \<Rightarrow> 'a list \<Rightarrow> 'a list" where
  "bts_remove x ys = filter (\<lambda>y. y \<noteq> x) ys"

definition bts_range :: "'a::linorder bound \<Rightarrow> 'a bound \<Rightarrow> 'a list \<Rightarrow> 'a list" where
  "bts_range s e ys = filter (range_contains s e) ys"

subsection \<open>Facts\<close>

lemma try_bind_Inr_iff [result_simps]:
  "try_bind r f = Inr y \<longleftrightarrow> (\<exists>x. r = Inr x \<and> f x = Inr y)"
  by (cases r) auto

lemma try_bind_Inl_iff [result_simps]:
  "try_bind r f = Inl e \<longleftrightarrow> r = Inl e \<or> (\<exists>x. r = Inr x \<and> f x = Inl e)"
  by (cases r) auto

lemma rs_cmp_iff [simp]:
  "rs_cmp a b = Less \<longleftrightarrow> a < b"
  "rs_cmp a b = Equal \<longleftrightarrow> a = b"
  "rs_cmp a b = Greater \<longleftrightarrow> b < a"
  by (auto simp: rs_cmp_def)

lemma bts_insert_between [btree_simps]:
  "\<lbrakk>\<forall>y\<in>set A. y < x; \<forall>y\<in>set B. x < y\<rbrakk> \<Longrightarrow> bts_insert x (A @ B) = A @ x # B"
proof (induction A)
  case Nil
  then show ?case by (cases B) auto
next
  case (Cons a A)
  then show ?case by auto
qed

lemma set_bts_insert [simp]: "set (bts_insert x ys) = insert x (set ys)"
  by (induction ys) auto

lemma fold_bts_remove [btree_simps]: "fold bts_remove xs ys = filter (\<lambda>y. y \<notin> set xs) ys"
proof (induction xs arbitrary: ys)
  case Nil
  then show ?case by simp
next
  case (Cons x xs)
  then show ?case by (simp add: bts_remove_def conj_commute)
qed

lemma filter_all: "\<forall>x\<in>set xs. P x \<Longrightarrow> filter P xs = xs"
  by (induction xs) auto

lemma filter_none: "\<forall>x\<in>set xs. \<not> P x \<Longrightarrow> filter P xs = []"
  by (induction xs) auto

text \<open>A strictly ascending list is cut by two values into three consecutive parts.\<close>

lemma sorted_split3:
  fixes x y :: "'a::linorder"
  assumes "sorted_wrt (<) xs" and "x < y"
  shows "xs = filter (\<lambda>z. z < x) xs @ filter (\<lambda>z. x \<le> z \<and> z \<le> y) xs @ filter (\<lambda>z. y < z) xs"
  using assms(1)
proof (induction xs)
  case Nil
  then show ?case by simp
next
  case (Cons a xs)
  then have IH: "xs = filter (\<lambda>z. z < x) xs @ filter (\<lambda>z. x \<le> z \<and> z \<le> y) xs @ filter (\<lambda>z. y < z) xs"
    by simp
  consider "a < x" | "x \<le> a" "a \<le> y" | "y < a" by fastforce
  then show ?case
  proof cases
    case 1
    with IH \<open>x < y\<close> show ?thesis by auto
  next
    case 2
    with Cons.prems have "filter (\<lambda>z. z < x) xs = []" by (intro filter_none) auto
    with 2 IH show ?thesis by auto
  next
    case 3
    with Cons.prems \<open>x < y\<close> have "filter (\<lambda>z. z < x) xs = []" "filter (\<lambda>z. x \<le> z \<and> z \<le> y) xs = []"
      by (auto intro!: filter_none)
    with 3 IH \<open>x < y\<close> show ?thesis by auto
  qed
qed

end
