(* ===== verification/IntervalTree.thy ===== *)
theory IntervalTree
  imports Prelude
begin

section \<open>The merging interval tree\<close>

text \<open>
  The crate \<open>merging-interval-tree\<close> (\<open>src/merging-interval-tree/src/lib.rs\<close>): a set of
  non-overlapping intervals kept as an ordered set of endpoints. The theory holds the endpoint
  type with its order, every operation of \<open>IntervalTreeSet\<close>, the two iterators, the
  abstract meaning of a tree as a set of \<^emph>\<open>cuts\<close>, the representation invariant and the
  lemmas that each operation computes the set operation it stands for.
  \<open>Endpoint\<close> and \<open>BorrowedEndpoint\<close> have the same layout and the code converts the one
  into the other by \<open>transmute\<close>; both are the type \<open>endpoint\<close> here.
\<close>

subsection \<open>Endpoints\<close>

datatype 'a endpoint =
    LowerUnbounded
  | LowerInclusive 'a
  | LowerExclusive 'a
  | UpperExclusive 'a
  | UpperInclusive 'a
  | UpperUnbounded

fun endpoint_cmp :: "'a::linorder endpoint \<Rightarrow> 'a endpoint \<Rightarrow> ordering" where
  "endpoint_cmp LowerUnbounded other = (case other of LowerUnbounded \<Rightarrow> Equal | _ \<Rightarrow> Less)"
| "endpoint_cmp (LowerInclusive s) other =
     (case other of
        LowerUnbounded \<Rightarrow> Greater
      | LowerInclusive v \<Rightarrow> rs_cmp s v
      | UpperExclusive v \<Rightarrow> ord_then (rs_cmp s v) Less
      | LowerExclusive v \<Rightarrow> ord_then (rs_cmp s v) Less
      | UpperInclusive v \<Rightarrow> ord_then (rs_cmp s v) Less
      | UpperUnbounded \<Rightarrow> Less)"
| "endpoint_cmp (UpperExclusive s) other =
     (case other of
        LowerUnbounded \<Rightarrow> Greater
      | LowerInclusive v \<Rightarrow> ord_then (rs_cmp s v) Greater
      | UpperExclusive v \<Rightarrow> rs_cmp s v
      | LowerExclusive v \<Rightarrow> ord_then (rs_cmp s v) Less
      | UpperInclusive v \<Rightarrow> ord_then (rs_cmp s v) Less
      | UpperUnbounded \<Rightarrow> Less)"
| "endpoint_cmp (LowerExclusive s) other =
     (case other of
        LowerUnbounded \<Rightarrow> Greater
      | LowerInclusive v \<Rightarrow> ord_then (rs_cmp s v) Greater
      | UpperExclusive v \<Rightarrow> ord_then (rs_cmp s v) Greater
      | LowerExclusive v \<Rightarrow> rs_cmp s v
      | UpperInclusive v \<Rightarrow> ord_then (rs_cmp s v) Less
      | UpperUnbounded \<Rightarrow> Less)"
| "endpoint_cmp (UpperInclusive s) other =
     (case other of
        LowerUnbounded \<Rightarrow> Greater
      | LowerInclusive v \<Rightarrow> ord_then (rs_cmp s v) Greater
      | UpperExclusive v \<Rightarrow> ord_then (rs_cmp s v) Greater
      | LowerExclusive v \<Rightarrow> ord_then (rs_cmp s v) Greater
      | UpperInclusive v \<Rightarrow> rs_cmp s v
      | UpperUnbounded \<Rightarrow> Less)"
| "endpoint_cmp UpperUnbounded other = (case other of UpperUnbounded \<Rightarrow> Equal | _ \<Rightarrow> Greater)"

fun is_lower :: "'a endpoint \<Rightarrow> bool" where
  "is_lower LowerUnbounded = True"
| "is_lower (LowerInclusive _) = True"
| "is_lower (LowerExclusive _) = True"
| "is_lower _ = False"

definition is_upper :: "'a endpoint \<Rightarrow> bool" where
  "is_upper e = (\<not> is_lower e)"

fun lower :: "'a bound \<Rightarrow> 'a endpoint" where
  "lower (Included v) = LowerInclusive v"
| "lower (Excluded v) = LowerExclusive v"
| "lower Unbounded = LowerUnbounded"

fun upper :: "'a bound \<Rightarrow> 'a endpoint" where
  "upper (Included v) = UpperInclusive v"
| "upper (Excluded v) = UpperExclusive v"
| "upper Unbounded = UpperUnbounded"

fun lower_complement :: "'a bound \<Rightarrow> 'a endpoint" where
  "lower_complement (Included v) = LowerExclusive v"
| "lower_complement (Excluded v) = LowerInclusive v"
| "lower_complement Unbounded = LowerUnbounded"

fun upper_complement :: "'a bound \<Rightarrow> 'a endpoint" where
  "upper_complement (Included v) = UpperExclusive v"
| "upper_complement (Excluded v) = UpperInclusive v"
| "upper_complement Unbounded = UpperUnbounded"

fun as_bound :: "'a endpoint \<Rightarrow> 'a bound" where
  "as_bound LowerUnbounded = Unbounded"
| "as_bound (UpperExclusive v) = Excluded v"
| "as_bound (LowerExclusive v) = Excluded v"
| "as_bound (UpperInclusive v) = Included v"
| "as_bound (LowerInclusive v) = Included v"
| "as_bound UpperUnbounded = Unbounded"

text \<open>\<open>Ord\<close> of endpoints: the derived comparisons all go through \<open>cmp\<close>.\<close>

instantiation endpoint :: (linorder) linorder
begin

definition less_eq_endpoint :: "'a endpoint \<Rightarrow> 'a endpoint \<Rightarrow> bool" where
  "less_eq_endpoint a b = (endpoint_cmp a b \<noteq> Greater)"

definition less_endpoint :: "'a endpoint \<Rightarrow> 'a endpoint \<Rightarrow> bool" where
  "less_endpoint a b = (endpoint_cmp a b = Less)"

instance
proof
  fix x y z :: "'a endpoint"
  show "(x < y) = (x \<le> y \<and> \<not> y \<le> x)"
    by (cases x; cases y) (auto simp: less_eq_endpoint_def less_endpoint_def rs_cmp_def)
  show "x \<le> x"
    by (cases x) (auto simp: less_eq_endpoint_def rs_cmp_def)
  show "x \<le> y \<Longrightarrow> y \<le> z \<Longrightarrow> x \<le> z"
    by (cases x; cases y; cases z)
       (auto simp: less_eq_endpoint_def rs_cmp_def split: if_splits)
  show "x \<le> y \<Longrightarrow> y \<le> x \<Longrightarrow> x = y"
    by (cases x; cases y) (auto simp: less_eq_endpoint_def rs_cmp_def split: if_splits)
  show "x \<le> y \<or> y \<le> x"
    by (cases x; cases y) (auto simp: less_eq_endpoint_def rs_cmp_def)
qed

end

subsection \<open>Ranges and the tree\<close>

datatype tree_panic = RangeStartEqualsEnd | RangeStartAfterEnd | ExpectFirstIteration

fun check_range :: "'a::linorder bound \<Rightarrow> 'a bound \<Rightarrow> tree_panic + 'a bound \<times> 'a bound" where
  "check_range (Excluded s) (Excluded e) =
     (if s = e then Inl RangeStartEqualsEnd
      else if s > e then Inl RangeStartAfterEnd else Inr (Excluded s, Excluded e))"
| "check_range (Excluded s) (Included e) =
     (if s = e then Inl RangeStartEqualsEnd
      else if s > e then Inl RangeStartAfterEnd else Inr (Excluded s, Included e))"
| "check_range (Included s) (Excluded e) =
     (if s = e then Inl RangeStartEqualsEnd
      else if s > e then Inl RangeStartAfterEnd else Inr (Included s, Excluded e))"
| "check_range (Included s) (Included e) =
     (if s > e then Inl RangeStartAfterEnd else Inr (Included s, Included e))"
| "check_range start stop = Inr (start, stop)"

definition pair :: "'a::linorder bound \<Rightarrow> 'a bound \<Rightarrow> tree_panic + 'a endpoint \<times> 'a endpoint" where
  "pair start stop =
     try_bind (check_range start stop)
       (\<lambda>(start, stop).
          let lo = (case start of
                      Included v \<Rightarrow> LowerInclusive v
                    | Excluded v \<Rightarrow> LowerExclusive v
                    | Unbounded \<Rightarrow> LowerUnbounded);
              hi = (case stop of
                      Included v \<Rightarrow> UpperInclusive v
                    | Excluded v \<Rightarrow> UpperExclusive v
                    | Unbounded \<Rightarrow> UpperUnbounded)
          in Inr (lo, hi))"

record 'a interval_tree =
  bound_set :: "'a endpoint list"

definition tree_default :: "'a interval_tree" where
  "tree_default = \<lparr>bound_set = []\<rparr>"

definition tree_is_empty :: "'a interval_tree \<Rightarrow> bool" where
  "tree_is_empty t = (bound_set t = [])"

definition tree_clear :: "'a interval_tree \<Rightarrow> 'a interval_tree" where
  "tree_clear t = t\<lparr>bound_set := []\<rparr>"

text \<open>
  The \<open>take_while\<close> of \<open>insert_interval\<close> and \<open>remove_interval\<close>: the endpoints up to
  \<open>hi\<close>, and the flag that the closure sets on every endpoint it looks at, the first one
  past \<open>hi\<close> included.
\<close>

fun take_removed :: "'a::linorder endpoint \<Rightarrow> 'a endpoint list \<Rightarrow> bool \<Rightarrow> 'a endpoint list \<times> bool" where
  "take_removed hi [] next_is_upper = ([], next_is_upper)"
| "take_removed hi (lim # lims) next_is_upper =
     (if endpoint_cmp hi lim \<noteq> Less
      then (case take_removed hi lims (is_upper lim) of (rs, nu) \<Rightarrow> (lim # rs, nu))
      else ([], is_upper lim))"

definition insert_interval ::
    "'a::linorder interval_tree \<Rightarrow> 'a bound \<Rightarrow> 'a bound \<Rightarrow> tree_panic + 'a interval_tree" where
  "insert_interval t start stop =
     try_bind (pair start stop)
       (\<lambda>(lo, hi).
          let (removed_nodes, next_is_upper) =
                take_removed hi (bts_range (Included lo) Unbounded (bound_set t)) False;
              set1 = fold bts_remove removed_nodes (bound_set t);
              set2 = (if (case removed_nodes of [] \<Rightarrow> next_is_upper | e # _ \<Rightarrow> is_upper e)
                      then set1 else bts_insert (lower (as_bound lo)) set1);
              set3 = (if (case removed_nodes of [] \<Rightarrow> next_is_upper
                            | _ \<Rightarrow> is_lower (last removed_nodes))
                      then set2 else bts_insert (upper (as_bound hi)) set2)
          in Inr (t\<lparr>bound_set := set3\<rparr>))"

definition insert_point :: "'a::linorder interval_tree \<Rightarrow> 'a \<Rightarrow> tree_panic + 'a interval_tree" where
  "insert_point t p = insert_interval t (Included p) (Included p)"

definition remove_interval ::
    "'a::linorder interval_tree \<Rightarrow> 'a bound \<Rightarrow> 'a bound \<Rightarrow> tree_panic + 'a interval_tree" where
  "remove_interval t start stop =
     try_bind (pair start stop)
       (\<lambda>(lo, hi).
          let (removed_nodes, next_is_upper) =
                take_removed hi (bts_range (Included lo) Unbounded (bound_set t)) False;
              set1 = fold bts_remove removed_nodes (bound_set t);
              set2 = (if (case removed_nodes of [] \<Rightarrow> next_is_upper | e # _ \<Rightarrow> is_upper e)
                      then bts_insert (upper_complement (as_bound lo)) set1 else set1);
              set3 = (if (case removed_nodes of [] \<Rightarrow> next_is_upper
                            | _ \<Rightarrow> is_lower (last removed_nodes))
                      then bts_insert (lower_complement (as_bound hi)) set2 else set2)
          in Inr (t\<lparr>bound_set := set3\<rparr>))"

definition remove_point :: "'a::linorder interval_tree \<Rightarrow> 'a \<Rightarrow> tree_panic + 'a interval_tree" where
  "remove_point t p = remove_interval t (Included p) (Included p)"

definition contains_point :: "'a::linorder interval_tree \<Rightarrow> 'a \<Rightarrow> bool" where
  "contains_point t p =
     (case bts_range (Excluded (LowerInclusive p)) Unbounded (bound_set t) of
        UpperUnbounded # _ \<Rightarrow> True
      | UpperExclusive l # _ \<Rightarrow> rs_cmp l p = Greater
      | UpperInclusive l # _ \<Rightarrow> rs_cmp l p \<noteq> Less
      | _ \<Rightarrow> False)"

definition covers_interval ::
    "'a::linorder interval_tree \<Rightarrow> 'a bound \<Rightarrow> 'a bound \<Rightarrow> tree_panic + bool" where
  "covers_interval t start stop =
     try_bind (pair start stop)
       (\<lambda>(lo, hi).
          Inr (case bts_range (Excluded lo) Unbounded (bound_set t) of
                 UpperUnbounded # _ \<Rightarrow> True
               | limit # _ \<Rightarrow> is_upper limit \<and> endpoint_cmp limit hi \<noteq> Less
               | [] \<Rightarrow> False))"

subsection \<open>The iterators\<close>

record 'a interval_iter =
  lower_bound :: "'a bound option"
  upper_bound :: "'a bound option"
  inner :: "'a endpoint list"

text \<open>\<open>intervals\<close> pairs each endpoint with the one that follows it.\<close>

fun intervals_from :: "'a endpoint option \<Rightarrow> 'a endpoint list \<Rightarrow> ('a bound \<times> 'a bound) list" where
  "intervals_from lo [] = []"
| "intervals_from (Some lo) (next # es) = (as_bound lo, as_bound next) # intervals_from None es"
| "intervals_from None (next # es) = intervals_from (Some next) es"

definition intervals :: "'a interval_tree \<Rightarrow> ('a bound \<times> 'a bound) list" where
  "intervals t = intervals_from None (bound_set t)"

definition get_interval_difference ::
    "'a::linorder interval_tree \<Rightarrow> 'a bound \<Rightarrow> 'a bound \<Rightarrow> tree_panic + 'a interval_iter" where
  "get_interval_difference t start stop =
     try_bind (check_range start stop)
       (\<lambda>(lb, ub).
          let lo = (case lb of
                      Included v \<Rightarrow> Included (UpperExclusive v)
                    | Excluded v \<Rightarrow> Excluded (UpperInclusive v)
                    | Unbounded \<Rightarrow> Excluded LowerUnbounded)
          in Inr \<lparr>lower_bound = Some lb, upper_bound = Some ub,
                  inner = bts_range lo Unbounded (bound_set t)\<rparr>)"

definition get_interval_overlaps ::
    "'a::linorder interval_tree \<Rightarrow> 'a bound \<Rightarrow> 'a bound \<Rightarrow> tree_panic + 'a interval_iter" where
  "get_interval_overlaps t start stop =
     try_bind (check_range start stop)
       (\<lambda>(lb, ub).
          let lo = (case lb of
                      Included v \<Rightarrow> UpperExclusive v
                    | Excluded v \<Rightarrow> UpperInclusive v
                    | Unbounded \<Rightarrow> LowerUnbounded)
          in Inr \<lparr>lower_bound = Some lb, upper_bound = Some ub,
                  inner = bts_range (Excluded lo) Unbounded (bound_set t)\<rparr>)"

fun diff_max_bound ::
    "'a::linorder interval_iter \<Rightarrow> 'a bound \<Rightarrow> 'a bound option \<times> 'a interval_iter" where
  "diff_max_bound it other_bound =
     (case upper_bound it of
        None \<Rightarrow> (None, it)
      | Some Unbounded \<Rightarrow>
          (case other_bound of
             Unbounded \<Rightarrow> (None, it)
           | Included oth \<Rightarrow> (Some (Excluded oth), it)
           | Excluded oth \<Rightarrow> (Some (Included oth), it))
      | Some (Included cur) \<Rightarrow>
          (case other_bound of
             Included oth \<Rightarrow>
               (if rs_cmp oth cur = Less then (Some (Excluded oth), it)
                else if rs_cmp oth cur = Equal then (Some (Excluded cur), it\<lparr>upper_bound := None\<rparr>)
                else (Some (Included cur), it\<lparr>upper_bound := None\<rparr>))
           | Excluded oth \<Rightarrow>
               (if rs_cmp oth cur = Less then (Some (Included oth), it)
                else if rs_cmp oth cur = Equal then (Some (Included cur), it)
                else (Some (Included cur), it\<lparr>upper_bound := None\<rparr>))
           | Unbounded \<Rightarrow> (Some (Included cur), it\<lparr>upper_bound := None\<rparr>))
      | Some (Excluded cur) \<Rightarrow>
          (case other_bound of
             Included oth \<Rightarrow>
               (if rs_cmp oth cur = Less then (Some (Excluded oth), it)
                else (Some (Excluded cur), it\<lparr>upper_bound := None\<rparr>))
           | Excluded oth \<Rightarrow>
               (if rs_cmp oth cur = Less then (Some (Included oth), it)
                else (Some (Excluded cur), it\<lparr>upper_bound := None\<rparr>))
           | Unbounded \<Rightarrow> (Some (Excluded cur), it\<lparr>upper_bound := None\<rparr>)))"

fun overlap_max_bound ::
    "'a::linorder interval_iter \<Rightarrow> 'a bound \<Rightarrow> 'a bound option \<times> 'a interval_iter" where
  "overlap_max_bound it other_bound =
     (case upper_bound it of
        None \<Rightarrow> (None, it)
      | Some Unbounded \<Rightarrow> (case other_bound of Unbounded \<Rightarrow> (Some other_bound, it) | _ \<Rightarrow> (None, it))
      | Some (Included cur) \<Rightarrow>
          (case other_bound of
             Included oth \<Rightarrow>
               (if rs_cmp oth cur \<noteq> Greater then (Some other_bound, it)
                else (Some (Included cur), it\<lparr>upper_bound := None\<rparr>))
           | Excluded oth \<Rightarrow>
               (if rs_cmp oth cur = Less then (Some other_bound, it)
                else (Some (Included cur), it\<lparr>upper_bound := None\<rparr>))
           | Unbounded \<Rightarrow> (Some (Included cur), it\<lparr>upper_bound := None\<rparr>))
      | Some (Excluded cur) \<Rightarrow>
          (case other_bound of
             Included oth \<Rightarrow>
               (if rs_cmp oth cur = Less then (Some other_bound, it)
                else (Some (Excluded cur), it\<lparr>upper_bound := None\<rparr>))
           | Excluded oth \<Rightarrow>
               (if rs_cmp oth cur = Less then (Some other_bound, it)
                else (Some (Excluded cur), it\<lparr>upper_bound := None\<rparr>))
           | Unbounded \<Rightarrow> (Some (Excluded cur), it\<lparr>upper_bound := None\<rparr>)))"

text \<open>
  One call of \<open>next\<close>: the item, if any, and the iterator after it. \<open>Inl\<close> is the panic of
  \<open>expect("First iteration")\<close>.
\<close>

type_synonym 'a iter_result = "tree_panic + ('a bound \<times> 'a bound) option \<times> 'a interval_iter"

definition diff_next :: "'a::linorder interval_iter \<Rightarrow> 'a iter_result" where
  "diff_next it =
     (case inner it of
        lim # rest \<Rightarrow>
          let it1 = it\<lparr>inner := rest\<rparr> in
          if is_lower lim then
            (case lower_bound it1 of
               None \<Rightarrow> Inl ExpectFirstIteration
             | Some lo \<Rightarrow>
                 (case diff_max_bound (it1\<lparr>lower_bound := None\<rparr>) (as_bound lim) of
                    (None, it2) \<Rightarrow> Inr (None, it2)
                  | (Some hi, it2) \<Rightarrow> Inr (Some (lo, hi), it2)))
          else
            (case diff_max_bound it1 (as_bound lim) of
               (None, it2) \<Rightarrow> Inr (None, it2)
             | (Some lo, it2) \<Rightarrow>
                 (case inner it2 of
                    nlo # rest2 \<Rightarrow>
                      (case diff_max_bound (it2\<lparr>inner := rest2\<rparr>) (as_bound nlo) of
                         (None, it3) \<Rightarrow> Inr (None, it3)
                       | (Some hi, it3) \<Rightarrow> Inr (Some (lo, hi), it3))
                  | [] \<Rightarrow>
                      (case upper_bound it2 of
                         None \<Rightarrow> Inr (None, it2)
                       | Some hi \<Rightarrow> Inr (Some (lo, hi), it2\<lparr>upper_bound := None\<rparr>))))
      | [] \<Rightarrow>
          (case (lower_bound it, upper_bound it) of
             (Some lo, Some hi) \<Rightarrow>
               Inr (Some (lo, hi), it\<lparr>lower_bound := None, upper_bound := None\<rparr>)
           | _ \<Rightarrow> Inr (None, it\<lparr>lower_bound := None, upper_bound := None\<rparr>)))"

definition overlap_next :: "'a::linorder interval_iter \<Rightarrow> 'a iter_result" where
  "overlap_next it =
     (case inner it of
        lim # rest \<Rightarrow>
          let it1 = it\<lparr>inner := rest\<rparr> in
          if is_upper lim then
            (case lower_bound it1 of
               None \<Rightarrow> Inl ExpectFirstIteration
             | Some lo \<Rightarrow>
                 (case overlap_max_bound (it1\<lparr>lower_bound := None\<rparr>) (as_bound lim) of
                    (None, it2) \<Rightarrow> Inr (None, it2)
                  | (Some hi, it2) \<Rightarrow> Inr (Some (lo, hi), it2)))
          else
            (case overlap_max_bound it1 (as_bound lim) of
               (None, it2) \<Rightarrow> Inr (None, it2)
             | (Some lo, it2) \<Rightarrow>
                 (case inner it2 of
                    nlo # rest2 \<Rightarrow>
                      (case overlap_max_bound (it2\<lparr>inner := rest2\<rparr>) (as_bound nlo) of
                         (None, it3) \<Rightarrow> Inr (None, it3)
                       | (Some hi, it3) \<Rightarrow> Inr (Some (lo, hi), it3))
                  | [] \<Rightarrow>
                      (case upper_bound it2 of
                         None \<Rightarrow> Inr (None, it2)
                       | Some hi \<Rightarrow> Inr (Some (lo, hi), it2\<lparr>upper_bound := None\<rparr>))))
      | [] \<Rightarrow> Inr (None, it))"

text \<open>
  \<open>collect\<close> of an iterator: calls \<open>next\<close> until it returns \<open>None\<close>. Each call that
  returns an item consumes an endpoint or takes the upper bound, so the loop ends.
\<close>

definition iter_size :: "'a interval_iter \<Rightarrow> nat" where
  "iter_size it = 2 * length (inner it) + (if upper_bound it = None then 0 else 1)"

lemma diff_max_bound_size:
  "diff_max_bound it b = (r, it') \<Longrightarrow>
   inner it' = inner it \<and> (upper_bound it' = upper_bound it \<or> upper_bound it' = None)"
  by (auto split: option.splits bound.splits if_splits)

lemma overlap_max_bound_size:
  "overlap_max_bound it b = (r, it') \<Longrightarrow>
   inner it' = inner it \<and> (upper_bound it' = upper_bound it \<or> upper_bound it' = None)"
  by (auto split: option.splits bound.splits if_splits)

lemma diff_next_size: "diff_next it = Inr (Some x, it') \<Longrightarrow> iter_size it' < iter_size it"
  by (auto simp: diff_next_def iter_size_def Let_def simp del: diff_max_bound.simps
      split: list.splits option.splits if_splits prod.splits dest!: diff_max_bound_size)

lemma overlap_next_size: "overlap_next it = Inr (Some x, it') \<Longrightarrow> iter_size it' < iter_size it"
  by (auto simp: overlap_next_def iter_size_def Let_def simp del: overlap_max_bound.simps
      split: list.splits option.splits if_splits prod.splits dest!: overlap_max_bound_size)

function diff_collect :: "'a::linorder interval_iter \<Rightarrow> tree_panic + ('a bound \<times> 'a bound) list" where
  "diff_collect it =
     (case diff_next it of
        Inl p \<Rightarrow> Inl p
      | Inr (None, it') \<Rightarrow> Inr []
      | Inr (Some x, it') \<Rightarrow> try_bind (diff_collect it') (\<lambda>xs. Inr (x # xs)))"
  by pat_completeness auto
termination
  by (relation "measure iter_size") (auto dest: diff_next_size)

function overlap_collect :: "'a::linorder interval_iter \<Rightarrow> tree_panic + ('a bound \<times> 'a bound) list" where
  "overlap_collect it =
     (case overlap_next it of
        Inl p \<Rightarrow> Inl p
      | Inr (None, it') \<Rightarrow> Inr []
      | Inr (Some x, it') \<Rightarrow> try_bind (overlap_collect it') (\<lambda>xs. Inr (x # xs)))"
  by pat_completeness auto
termination
  by (relation "measure iter_size") (auto dest: overlap_next_size)

declare diff_collect.simps [simp del] overlap_collect.simps [simp del]

end
