(* ===== verification/IntervalTreeProps.thy ===== *)
theory IntervalTreeProps
  imports IntervalTree
begin

section \<open>What an interval tree means\<close>

text \<open>
  A position between or around points is a \<^emph>\<open>cut\<close>. An endpoint sits at a cut
  (\<open>LowerInclusive x\<close> and \<open>UpperExclusive x\<close> just before \<open>x\<close>, \<open>LowerExclusive x\<close> and
  \<open>UpperInclusive x\<close> just after it), and an interval is the set of cuts from its lower end up to,
  but not including, its upper end. The point \<open>x\<close> belongs to the interval when \<open>Before x\<close> does.
  Working with cuts instead of points makes every statement exact for discrete and for dense
  value types: \<open>(1, 2)\<close> holds no integer but is not the empty interval.
\<close>

subsection \<open>Cuts\<close>

datatype 'a cut = NegInf | Before 'a | After 'a | PosInf

fun cut_le :: "'a::linorder cut \<Rightarrow> 'a cut \<Rightarrow> bool" where
  "cut_le NegInf d = True"
| "cut_le (Before x) d =
     (case d of NegInf \<Rightarrow> False | Before y \<Rightarrow> x \<le> y | After y \<Rightarrow> x \<le> y | PosInf \<Rightarrow> True)"
| "cut_le (After x) d =
     (case d of NegInf \<Rightarrow> False | Before y \<Rightarrow> x < y | After y \<Rightarrow> x \<le> y | PosInf \<Rightarrow> True)"
| "cut_le PosInf d = (d = PosInf)"

instantiation cut :: (linorder) linorder
begin

definition less_eq_cut :: "'a cut \<Rightarrow> 'a cut \<Rightarrow> bool" where
  "less_eq_cut c d = cut_le c d"

definition less_cut :: "'a cut \<Rightarrow> 'a cut \<Rightarrow> bool" where
  "less_cut c d = (\<not> cut_le d c)"

instance
proof
  fix x y z :: "'a cut"
  show "(x < y) = (x \<le> y \<and> \<not> y \<le> x)"
    by (cases x; cases y) (auto simp: less_eq_cut_def less_cut_def)
  show "x \<le> x"
    by (cases x) (auto simp: less_eq_cut_def)
  show "x \<le> y \<Longrightarrow> y \<le> z \<Longrightarrow> x \<le> z"
    by (cases x; cases y; cases z) (auto simp: less_eq_cut_def)
  show "x \<le> y \<Longrightarrow> y \<le> x \<Longrightarrow> x = y"
    by (cases x; cases y) (auto simp: less_eq_cut_def)
  show "x \<le> y \<or> y \<le> x"
    by (cases x; cases y) (auto simp: less_eq_cut_def)
qed

end

lemma cut_extremes [simp]:
  "NegInf \<le> c" "\<not> c < NegInf" "c \<le> PosInf" "\<not> PosInf < c"
  by (cases c; simp add: less_eq_cut_def less_cut_def)+

fun cut_of :: "'a endpoint \<Rightarrow> 'a cut" where
  "cut_of LowerUnbounded = NegInf"
| "cut_of (LowerInclusive x) = Before x"
| "cut_of (UpperExclusive x) = Before x"
| "cut_of (LowerExclusive x) = After x"
| "cut_of (UpperInclusive x) = After x"
| "cut_of UpperUnbounded = PosInf"

fun lo_cut :: "'a bound \<Rightarrow> 'a cut" where
  "lo_cut (Included x) = Before x"
| "lo_cut (Excluded x) = After x"
| "lo_cut Unbounded = NegInf"

fun hi_cut :: "'a bound \<Rightarrow> 'a cut" where
  "hi_cut (Included x) = After x"
| "hi_cut (Excluded x) = Before x"
| "hi_cut Unbounded = PosInf"

definition span :: "'a::linorder bound \<Rightarrow> 'a bound \<Rightarrow> 'a cut set" where
  "span start stop = {c. lo_cut start \<le> c \<and> c < hi_cut stop}"

text \<open>Walking over the endpoints from the left, inside an interval or not.\<close>

fun inside :: "bool \<Rightarrow> 'a::linorder endpoint list \<Rightarrow> 'a cut \<Rightarrow> bool" where
  "inside b [] c = b"
| "inside b (e # es) c = (if c < cut_of e then b else inside (is_lower e) es c)"

definition cover :: "'a::linorder interval_tree \<Rightarrow> 'a cut set" where
  "cover t = {c. inside False (bound_set t) c}"

text \<open>
  The representation invariant: lower and upper endpoints alternate, the first is a lower one,
  the last an upper one, and their cuts strictly ascend (so no stored interval is empty and no
  two touch).
\<close>

fun alternates :: "bool \<Rightarrow> 'a endpoint list \<Rightarrow> bool \<Rightarrow> bool" where
  "alternates b [] b' = (b = b')"
| "alternates b (e # es) b' = (is_upper e = b \<and> alternates (\<not> b) es b')"

definition cut_less :: "'a::linorder endpoint \<Rightarrow> 'a endpoint \<Rightarrow> bool" where
  "cut_less a b = (cut_of a < cut_of b)"

definition tree_inv :: "'a::linorder interval_tree \<Rightarrow> bool" where
  "tree_inv t = (alternates False (bound_set t) False \<and> sorted_wrt cut_less (bound_set t))"

definition state_after :: "bool \<Rightarrow> 'a endpoint list \<Rightarrow> bool" where
  "state_after b es = (if es = [] then b else is_lower (last es))"

subsection \<open>Endpoints and cuts\<close>

lemma less_endpoint_iff:
  "(a::'a::linorder endpoint) < b \<longleftrightarrow>
     cut_of a < cut_of b \<or> cut_of a = cut_of b \<and> is_lower a \<and> is_upper b"
  by (cases a; cases b)
     (auto simp: less_endpoint_def less_cut_def is_upper_def rs_cmp_def)

lemma endpoint_eq_iff: "(a::'a endpoint) = b \<longleftrightarrow> cut_of a = cut_of b \<and> is_lower a = is_lower b"
  by (cases a; cases b) auto

lemma le_endpoint_iff:
  "(a::'a::linorder endpoint) \<le> b \<longleftrightarrow>
     cut_of a < cut_of b \<or> cut_of a = cut_of b \<and> (is_lower a \<or> is_upper b)"
  by (auto simp: le_less less_endpoint_iff endpoint_eq_iff is_upper_def)

lemma endpoint_cmp_iff:
  "endpoint_cmp a b = Less \<longleftrightarrow> a < b"
  "endpoint_cmp a b = Greater \<longleftrightarrow> b < a"
  "endpoint_cmp a b = Equal \<longleftrightarrow> a = b"
proof -
  show 1: "endpoint_cmp a b = Less \<longleftrightarrow> a < b" by (simp add: less_endpoint_def)
  show 2: "endpoint_cmp a b = Greater \<longleftrightarrow> b < a"
    using less_eq_endpoint_def [of a b] by (auto simp: not_le [symmetric])
  show "endpoint_cmp a b = Equal \<longleftrightarrow> a = b"
    using 1 2 by (metis less_irrefl linorder_less_linear ordering.exhaust ordering.distinct(1,5))
qed

declare endpoint_cmp.simps [simp del]

lemma cut_of_bounds [simp]:
  "cut_of (lower b) = lo_cut b" "cut_of (upper b) = hi_cut b"
  "is_lower (lower b)" "\<not> is_lower (upper b)"
  by (cases b; simp)+

lemma as_bound_inverse [simp]: "as_bound (lower b) = b" "as_bound (upper b) = b"
  by (cases b; simp)+

lemma complement_cuts [simp]:
  "is_lower (lower_complement b)" "\<not> is_lower (upper_complement b)"
  "b \<noteq> Unbounded \<Longrightarrow> cut_of (lower_complement b) = hi_cut b"
  "b \<noteq> Unbounded \<Longrightarrow> cut_of (upper_complement b) = lo_cut b"
  by (cases b; simp)+

text \<open>A range passes \<open>check_range\<close> exactly when its lower cut is before its upper cut.\<close>

lemma check_range_cuts:
  "check_range s e = Inr r \<longleftrightarrow> lo_cut s < hi_cut e \<and> r = (s, e)"
  by (cases s; cases e) (auto simp: less_cut_def)

lemma pair_cuts:
  "pair s e = Inr r \<longleftrightarrow> lo_cut s < hi_cut e \<and> r = (lower s, upper e)"
proof (cases "check_range s e")
  case (Inl p)
  then show ?thesis using check_range_cuts [of s e] by (auto simp: pair_def)
next
  case (Inr q)
  then show ?thesis using check_range_cuts [of s e q]
    by (cases s; cases e) (auto simp: pair_def)
qed

lemma pair_panics: "\<not> lo_cut s < hi_cut e \<Longrightarrow> \<exists>p. pair s e = Inl p"
  by (metis pair_cuts sum.exhaust)

subsection \<open>Walking over the endpoints\<close>

lemma inside_before: "\<forall>e\<in>set es. c < cut_of e \<Longrightarrow> inside b es c = b"
  by (cases es) auto

lemma state_after_simps [simp]:
  "state_after b [] = b"
  "state_after b (e # es) = state_after (is_lower e) es"
  by (auto simp: state_after_def)

lemma inside_append:
  "sorted_wrt cut_less (A @ B) \<Longrightarrow>
   inside b (A @ B) c =
     (if \<forall>a\<in>set A. cut_of a \<le> c then inside (state_after b A) B c else inside b A c)"
proof (induction A arbitrary: b)
  case Nil
  then show ?case by simp
next
  case (Cons a A)
  then show ?case by (auto simp: not_less)
qed

lemma inside_after: "\<forall>e\<in>set A. cut_of e \<le> c \<Longrightarrow> inside b A c = state_after b A"
  by (induction A arbitrary: b) (auto simp: not_less)

lemma alternates_append:
  "alternates b (A @ B) b' \<longleftrightarrow> alternates b A (state_after b A) \<and> alternates (state_after b A) B b'"
proof (induction A arbitrary: b)
  case Nil
  then show ?case by simp
next
  case (Cons a A)
  show ?case
    using Cons.IH [of "\<not> b"] Cons.IH [of "is_lower a"]
    by (auto simp: is_upper_def)
qed

lemma alternates_state: "alternates b A m \<Longrightarrow> state_after b A = m"
  by (induction A arbitrary: b) (auto simp: is_upper_def)

lemma cut_sorted_endpoints:
  "sorted_wrt cut_less es \<Longrightarrow> sorted_wrt (<) (es :: 'a::linorder endpoint list)"
  by (erule sorted_wrt_mono_rel [rotated]) (auto simp: cut_less_def less_endpoint_iff)

subsection \<open>The removed endpoints\<close>

lemma take_removed_append:
  "\<lbrakk>\<forall>e\<in>set R. e \<le> hi; \<forall>e\<in>set B. hi < e\<rbrakk> \<Longrightarrow>
   take_removed hi (R @ B) b =
     (R, if B \<noteq> [] then is_upper (hd B) else if R \<noteq> [] then is_upper (last R) else b)"
proof (induction R arbitrary: b)
  case Nil
  then show ?case by (cases B) (auto simp: endpoint_cmp_iff)
next
  case (Cons e R)
  then have "endpoint_cmp hi e \<noteq> Less" by (auto simp: endpoint_cmp_iff)
  with Cons show ?case by auto
qed

text \<open>
  The endpoints of a tree around a range: those before it (\<open>A\<close>), those that the operations
  remove (\<open>R\<close>) and those after it (\<open>B\<close>), with the state between them as the flags of the
  code see it.
\<close>

lemma split_around_range:
  fixes s e :: "'a::linorder bound"
  assumes inv: "tree_inv t" and rng: "lo_cut s < hi_cut e"
  obtains A R B where
    "bound_set t = A @ R @ B"
    "\<forall>x\<in>set A. cut_of x < lo_cut s" "\<forall>x\<in>set R. lo_cut s \<le> cut_of x \<and> cut_of x \<le> hi_cut e"
    "\<forall>x\<in>set B. hi_cut e < cut_of x"
    "alternates False A (state_after False A)"
    "alternates (state_after False A) R (state_after False (A @ R))"
    "alternates (state_after False (A @ R)) B False"
    "sorted_wrt cut_less (A @ R @ B)"
    "bts_range (Included (lower s)) Unbounded (bound_set t) = R @ B"
    "filter (\<lambda>y. y \<notin> set R) (bound_set t) = A @ B"
    "\<And>b. take_removed (upper e) (R @ B) b =
       (R, if B \<noteq> [] then is_upper (hd B) else if R \<noteq> [] then is_upper (last R) else b)"
proof -
  let ?es = "bound_set t" and ?lo = "lower s" and ?hi = "upper e"
  define A where "A = filter (\<lambda>z. z < ?lo) ?es"
  define R where "R = filter (\<lambda>z. ?lo \<le> z \<and> z \<le> ?hi) ?es"
  define B where "B = filter (\<lambda>z. ?hi < z) ?es"
  have srt: "sorted_wrt cut_less ?es" and alt: "alternates False ?es False"
    using inv by (auto simp: tree_inv_def)
  have lohi: "?lo < ?hi" using rng by (simp add: less_endpoint_iff)
  have es: "?es = A @ R @ B"
    unfolding A_def R_def B_def
    by (rule sorted_split3 [OF cut_sorted_endpoints [OF srt] lohi])
  have A: "\<forall>x\<in>set A. cut_of x < lo_cut s"
    by (auto simp: A_def less_endpoint_iff is_upper_def)
  have R: "\<forall>x\<in>set R. lo_cut s \<le> cut_of x \<and> cut_of x \<le> hi_cut e"
    by (auto simp: R_def le_endpoint_iff is_upper_def)
  have B: "\<forall>x\<in>set B. hi_cut e < cut_of x"
    by (auto simp: B_def less_endpoint_iff)
  have a1: "alternates False A (state_after False A)"
    and "alternates (state_after False A) (R @ B) False"
    using alt [unfolded es] by (simp_all add: alternates_append)
  then have "alternates (state_after False A) R (state_after (state_after False A) R)"
    "alternates (state_after (state_after False A) R) B False"
    by (simp_all add: alternates_append)
  moreover have "state_after (state_after False A) R = state_after False (A @ R)"
    by (auto simp: state_after_def)
  ultimately have a2: "alternates (state_after False A) R (state_after False (A @ R))"
    and a3: "alternates (state_after False (A @ R)) B False"
    by simp_all
  have mA: "\<forall>x\<in>set A. x < ?lo" and mR: "\<forall>x\<in>set R. ?lo \<le> x \<and> x \<le> ?hi"
    and mB: "\<forall>x\<in>set B. ?hi < x"
    by (auto simp: A_def R_def B_def)
  have "filter (range_contains (Included ?lo) Unbounded) A = []"
    using mA by (intro filter_none) (auto simp: range_contains_def)
  moreover have "filter (range_contains (Included ?lo) Unbounded) (R @ B) = R @ B"
    using mR mB lohi by (intro filter_all) (auto simp: range_contains_def)
  ultimately have rg: "bts_range (Included ?lo) Unbounded ?es = R @ B"
    unfolding bts_range_def es by simp
  have "filter (\<lambda>y. y \<notin> set R) R = []" by (intro filter_none) simp
  moreover have "filter (\<lambda>y. y \<notin> set R) A = A" "filter (\<lambda>y. y \<notin> set R) B = B"
    using mA mR mB by (intro filter_all, fastforce)+
  ultimately have rem: "filter (\<lambda>y. y \<notin> set R) ?es = A @ B"
    unfolding es by simp
  have tk: "take_removed ?hi (R @ B) b =
       (R, if B \<noteq> [] then is_upper (hd B) else if R \<noteq> [] then is_upper (last R) else b)" for b
    by (rule take_removed_append) (use mR mB in auto)
  show ?thesis
    using that [OF es A R B a1 a2 a3 _ rg rem tk] srt es by simp
qed

text \<open>The flags that decide whether the ends of the range get endpoints are the two states.\<close>

lemma first_flag:
  assumes "alternates m R m'" "alternates m' B False"
    and "nu = (if B \<noteq> [] then is_upper (hd B) else if R \<noteq> [] then is_upper (last R) else False)"
  shows "(case R of [] \<Rightarrow> nu | e # _ \<Rightarrow> is_upper e) = m"
  using assms by (cases R; cases B) auto

lemma last_flag:
  assumes "alternates m R m'" "alternates m' B False"
    and "nu = (if B \<noteq> [] then is_upper (hd B) else if R \<noteq> [] then is_upper (last R) else False)"
  shows "(case R of [] \<Rightarrow> nu | _ \<Rightarrow> is_lower (last R)) = m'"
proof (cases "R = []")
  case True
  then show ?thesis using assms by (cases B) auto
next
  case False
  then have "is_lower (last R) = m'"
    using alternates_state [OF assms(1)] by (simp add: state_after_def)
  with False show ?thesis by (cases R) auto
qed

subsection \<open>Insertion and removal\<close>

lemma insert_interval_shape:
  fixes s e :: "'a::linorder bound"
  assumes inv: "tree_inv t" and rng: "lo_cut s < hi_cut e"
  obtains A R B where
    "bound_set t = A @ R @ B"
    "\<forall>x\<in>set A. cut_of x < lo_cut s" "\<forall>x\<in>set R. lo_cut s \<le> cut_of x \<and> cut_of x \<le> hi_cut e"
    "\<forall>x\<in>set B. hi_cut e < cut_of x"
    "alternates False A (state_after False A)"
    "alternates (state_after False (A @ R)) B False"
    "sorted_wrt cut_less (A @ R @ B)"
    "insert_interval t s e = Inr (t\<lparr>bound_set :=
       A @ (if state_after False A then [] else [lower s])
         @ (if state_after False (A @ R) then [] else [upper e]) @ B\<rparr>)"
proof -
  obtain A R B where *:
    "bound_set t = A @ R @ B"
    "\<forall>x\<in>set A. cut_of x < lo_cut s" "\<forall>x\<in>set R. lo_cut s \<le> cut_of x \<and> cut_of x \<le> hi_cut e"
    "\<forall>x\<in>set B. hi_cut e < cut_of x"
    "alternates False A (state_after False A)"
    "alternates (state_after False A) R (state_after False (A @ R))"
    "alternates (state_after False (A @ R)) B False"
    "sorted_wrt cut_less (A @ R @ B)"
    "bts_range (Included (lower s)) Unbounded (bound_set t) = R @ B"
    "filter (\<lambda>y. y \<notin> set R) (bound_set t) = A @ B"
    and tk: "\<And>b. take_removed (upper e) (R @ B) b =
       (R, if B \<noteq> [] then is_upper (hd B) else if R \<noteq> [] then is_upper (last R) else b)"
    using split_around_range [OF inv rng] by blast
  have lt: "\<forall>x\<in>set A. x < lower s" "\<forall>x\<in>set A. x < upper e" "lower s < upper e"
    "\<forall>x\<in>set B. upper e < x" "\<forall>x\<in>set B. lower s < x"
    using *(2,4) rng by (auto simp: less_endpoint_iff intro: less_trans dest: order.strict_trans)
  have p: "pair s e = Inr (lower s, upper e)"
    using rng by (simp add: pair_cuts)
  note fl = first_flag [OF *(6,7) refl] last_flag [OF *(6,7) refl]
  have i1: "bts_insert (lower s) (A @ B) = A @ lower s # B"
    using lt by (intro bts_insert_between) auto
  have i2: "bts_insert (upper e) (A @ B) = A @ upper e # B"
    using lt by (intro bts_insert_between) auto
  have i3: "bts_insert (upper e) (A @ lower s # B) = A @ lower s # upper e # B"
    using bts_insert_between [of "A @ [lower s]" "upper e" B] lt by auto
  have "insert_interval t s e = Inr (t\<lparr>bound_set :=
       A @ (if state_after False A then [] else [lower s])
         @ (if state_after False (A @ R) then [] else [upper e]) @ B\<rparr>)"
    by (simp add: insert_interval_def p *(9) tk fl fold_bts_remove *(10) i1 i2 i3 Let_def
        del: state_after_simps)
  with * that show thesis by blast
qed

text \<open>
  What the two operations have in common: the endpoints \<open>R\<close> between the ends of the range
  are replaced by endpoints \<open>X\<close> at most one at each end. Outside the range nothing changes; the
  state inside the range is the state after the first half of \<open>X\<close>.
\<close>

lemma sorted_chain:
  "\<lbrakk>sorted_wrt cut_less A; sorted_wrt cut_less B; \<forall>x\<in>set A. cut_of x < l; \<forall>y\<in>set B. l \<le> cut_of y\<rbrakk>
   \<Longrightarrow> sorted_wrt cut_less (A @ B)"
  by (auto simp: sorted_wrt_append cut_less_def intro: order.strict_trans2)

lemma sorted_replaced:
  assumes "sorted_wrt cut_less A" "\<forall>x\<in>set A. cut_of x < lo"
    and "sorted_wrt cut_less X1" "\<forall>x\<in>set X1. cut_of x = lo"
    and "sorted_wrt cut_less X2" "\<forall>x\<in>set X2. cut_of x = hi"
    and "sorted_wrt cut_less B" "\<forall>x\<in>set B. hi < cut_of x" and "lo < hi"
  shows "sorted_wrt cut_less (A @ X1 @ X2 @ B)"
proof -
  have "sorted_wrt cut_less (X2 @ B)"
    using assms(5-8) by (auto simp: sorted_wrt_append cut_less_def)
  then have "sorted_wrt cut_less (X1 @ X2 @ B)"
    using assms by (auto intro!: sorted_chain [of _ _ hi, OF assms(3)] intro: less_imp_le)
  moreover have "\<forall>y\<in>set (X1 @ X2 @ B). lo \<le> cut_of y"
    using assms by (auto intro: less_imp_le less_trans)
  ultimately show ?thesis
    by (rule sorted_chain [OF assms(1) _ assms(2)])
qed

lemma inside_replaced:
  fixes lo hi :: "'a::linorder cut"
  assumes old: "sorted_wrt cut_less (A @ R @ B)" and new: "sorted_wrt cut_less (A @ X1 @ X2 @ B)"
    and A: "\<forall>x\<in>set A. cut_of x < lo" and R: "\<forall>x\<in>set R. lo \<le> cut_of x \<and> cut_of x \<le> hi"
    and B: "\<forall>x\<in>set B. hi < cut_of x" and lohi: "lo < hi"
    and X1: "\<forall>x\<in>set X1. cut_of x = lo" and X2: "\<forall>x\<in>set X2. cut_of x = hi"
    and st: "state_after False (A @ X1 @ X2) = state_after False (A @ R)"
  shows "inside False (A @ X1 @ X2 @ B) c =
    (if lo \<le> c \<and> c < hi then state_after False (A @ X1) else inside False (A @ R @ B) c)"
proof -
  consider "c < lo" | "lo \<le> c" "c < hi" | "hi \<le> c" by fastforce
  then show ?thesis
  proof cases
    case 1
    then have "\<forall>x\<in>set (R @ B). c < cut_of x" "\<forall>x\<in>set (X1 @ X2 @ B). c < cut_of x"
      using R B X1 X2 lohi by fastforce+
    moreover have "\<not> lo \<le> c" using 1 by simp
    ultimately show ?thesis
      using inside_append [OF old] inside_append [OF new] by (simp add: inside_before)
  next
    case 2
    have "\<forall>x\<in>set (A @ X1). cut_of x \<le> c" "\<forall>x\<in>set (X2 @ B). c < cut_of x"
      using 2 A X1 X2 B by fastforce+
    then show ?thesis
      using 2 inside_append [of "A @ X1" "X2 @ B"] new by (simp add: inside_before)
  next
    case 3
    have "\<forall>x\<in>set (A @ R). cut_of x \<le> c" "\<forall>x\<in>set (A @ X1 @ X2). cut_of x \<le> c"
      using 3 A R X1 X2 lohi by fastforce+
    moreover have "\<not> c < hi" using 3 by simp
    ultimately show ?thesis
      using inside_append [of "A @ R" B] inside_append [of "A @ X1 @ X2" B] old new st by simp
  qed
qed

lemma state_after_append: "state_after b (A @ B) = state_after (state_after b A) B"
  by (auto simp: state_after_def)

lemma insert_interval_correct:
  assumes inv: "tree_inv t" and rng: "lo_cut s < hi_cut e"
  shows "\<exists>t'. insert_interval t s e = Inr t' \<and> tree_inv t' \<and> cover t' = cover t \<union> span s e"
proof -
  obtain A R B where es: "bound_set t = A @ R @ B"
    and A: "\<forall>x\<in>set A. cut_of x < lo_cut s"
    and R: "\<forall>x\<in>set R. lo_cut s \<le> cut_of x \<and> cut_of x \<le> hi_cut e"
    and B: "\<forall>x\<in>set B. hi_cut e < cut_of x"
    and altA: "alternates False A (state_after False A)"
    and altB: "alternates (state_after False (A @ R)) B False"
    and srt: "sorted_wrt cut_less (A @ R @ B)"
    and res: "insert_interval t s e = Inr (t\<lparr>bound_set :=
       A @ (if state_after False A then [] else [lower s])
         @ (if state_after False (A @ R) then [] else [upper e]) @ B\<rparr>)"
    using insert_interval_shape [OF inv rng] by blast
  let ?X1 = "if state_after False A then [] else [lower s]"
  let ?X2 = "if state_after False (A @ R) then [] else [upper e]"
  have X: "\<forall>x\<in>set ?X1. cut_of x = lo_cut s" "\<forall>x\<in>set ?X2. cut_of x = hi_cut e" by auto
  have new: "sorted_wrt cut_less (A @ ?X1 @ ?X2 @ B)"
    by (rule sorted_replaced [OF _ A _ X(1) _ X(2) _ B rng])
       (use srt in \<open>auto simp: sorted_wrt_append\<close>)
  have stX1: "state_after False (A @ ?X1)" by (simp add: state_after_append)
  have st: "state_after False (A @ ?X1 @ ?X2) = state_after False (A @ R)"
    by (simp add: state_after_append)
  have alt: "alternates False (A @ ?X1 @ ?X2 @ B) False"
    using altA altB
    by (cases "state_after False A"; cases "state_after False (A @ R)")
       (simp_all add: alternates_append is_upper_def)
  have ins: "inside False (A @ ?X1 @ ?X2 @ B) c \<longleftrightarrow> inside False (A @ R @ B) c \<or> c \<in> span s e" for c
    unfolding inside_replaced [OF srt new A R B rng X st] using stX1 by (simp add: span_def) blast
  show ?thesis
    unfolding res using alt new ins by (simp add: tree_inv_def cover_def es set_eq_iff)
qed

lemma remove_interval_shape:
  fixes s e :: "'a::linorder bound"
  assumes inv: "tree_inv t" and rng: "lo_cut s < hi_cut e"
  obtains A R B where
    "bound_set t = A @ R @ B"
    "\<forall>x\<in>set A. cut_of x < lo_cut s" "\<forall>x\<in>set R. lo_cut s \<le> cut_of x \<and> cut_of x \<le> hi_cut e"
    "\<forall>x\<in>set B. hi_cut e < cut_of x"
    "alternates False A (state_after False A)"
    "alternates (state_after False (A @ R)) B False"
    "sorted_wrt cut_less (A @ R @ B)"
    "state_after False A \<Longrightarrow> s \<noteq> Unbounded" "state_after False (A @ R) \<Longrightarrow> e \<noteq> Unbounded"
    "remove_interval t s e = Inr (t\<lparr>bound_set :=
       A @ (if state_after False A then [upper_complement s] else [])
         @ (if state_after False (A @ R) then [lower_complement e] else []) @ B\<rparr>)"
proof -
  obtain A R B where *:
    "bound_set t = A @ R @ B"
    "\<forall>x\<in>set A. cut_of x < lo_cut s" "\<forall>x\<in>set R. lo_cut s \<le> cut_of x \<and> cut_of x \<le> hi_cut e"
    "\<forall>x\<in>set B. hi_cut e < cut_of x"
    "alternates False A (state_after False A)"
    "alternates (state_after False A) R (state_after False (A @ R))"
    "alternates (state_after False (A @ R)) B False"
    "sorted_wrt cut_less (A @ R @ B)"
    "bts_range (Included (lower s)) Unbounded (bound_set t) = R @ B"
    "filter (\<lambda>y. y \<notin> set R) (bound_set t) = A @ B"
    and tk: "\<And>b. take_removed (upper e) (R @ B) b =
       (R, if B \<noteq> [] then is_upper (hd B) else if R \<noteq> [] then is_upper (last R) else b)"
    using split_around_range [OF inv rng] by blast
  have s: "s \<noteq> Unbounded" if "state_after False A"
  proof
    assume "s = Unbounded"
    with *(2) have "A = []" by (cases A) auto
    with that show False by simp
  qed
  have e: "e \<noteq> Unbounded" if "state_after False (A @ R)"
  proof
    assume "e = Unbounded"
    with *(4) have "B = []" by (cases B) auto
    with *(7) that show False by simp
  qed
  have lt: "\<forall>x\<in>set A. x < upper_complement s" "\<forall>x\<in>set B. upper_complement s < x"
    if "s \<noteq> Unbounded"
    using *(2,4) rng that by (auto simp: less_endpoint_iff intro: less_trans)
  have le: "\<forall>x\<in>set A. x < lower_complement e" "\<forall>x\<in>set B. lower_complement e < x"
    if "e \<noteq> Unbounded"
    using *(2,4) rng that by (auto simp: less_endpoint_iff intro: less_trans)
  have p: "pair s e = Inr (lower s, upper e)"
    using rng by (simp add: pair_cuts)
  note fl = first_flag [OF *(6,7) refl] last_flag [OF *(6,7) refl]
  have i1: "bts_insert (upper_complement s) (A @ B) = A @ upper_complement s # B"
    if "s \<noteq> Unbounded"
    using lt [OF that] by (intro bts_insert_between) auto
  have i2: "bts_insert (lower_complement e) (A @ B) = A @ lower_complement e # B"
    if "e \<noteq> Unbounded"
    using le [OF that] by (intro bts_insert_between) auto
  have i3: "bts_insert (lower_complement e) (A @ upper_complement s # B) =
      A @ upper_complement s # lower_complement e # B"
    if "e \<noteq> Unbounded" "s \<noteq> Unbounded"
    using bts_insert_between [of "A @ [upper_complement s]" "lower_complement e" B]
      le [OF that(1)] that rng by (auto simp: less_endpoint_iff)
  have "remove_interval t s e = Inr (t\<lparr>bound_set :=
       A @ (if state_after False A then [upper_complement s] else [])
         @ (if state_after False (A @ R) then [lower_complement e] else []) @ B\<rparr>)"
    by (simp add: remove_interval_def p *(9) tk fl fold_bts_remove *(10) i1 i2 i3 s e Let_def
        del: state_after_simps)
  with * s e that show thesis by blast
qed

lemma remove_interval_correct:
  assumes inv: "tree_inv t" and rng: "lo_cut s < hi_cut e"
  shows "\<exists>t'. remove_interval t s e = Inr t' \<and> tree_inv t' \<and> cover t' = cover t - span s e"
proof -
  obtain A R B where es: "bound_set t = A @ R @ B"
    and A: "\<forall>x\<in>set A. cut_of x < lo_cut s"
    and R: "\<forall>x\<in>set R. lo_cut s \<le> cut_of x \<and> cut_of x \<le> hi_cut e"
    and B: "\<forall>x\<in>set B. hi_cut e < cut_of x"
    and altA: "alternates False A (state_after False A)"
    and altB: "alternates (state_after False (A @ R)) B False"
    and srt: "sorted_wrt cut_less (A @ R @ B)"
    and s: "state_after False A \<Longrightarrow> s \<noteq> Unbounded"
    and e: "state_after False (A @ R) \<Longrightarrow> e \<noteq> Unbounded"
    and res: "remove_interval t s e = Inr (t\<lparr>bound_set :=
       A @ (if state_after False A then [upper_complement s] else [])
         @ (if state_after False (A @ R) then [lower_complement e] else []) @ B\<rparr>)"
    using remove_interval_shape [OF inv rng] by blast
  let ?X1 = "if state_after False A then [upper_complement s] else []"
  let ?X2 = "if state_after False (A @ R) then [lower_complement e] else []"
  have X: "\<forall>x\<in>set ?X1. cut_of x = lo_cut s" "\<forall>x\<in>set ?X2. cut_of x = hi_cut e" using s e by auto
  have new: "sorted_wrt cut_less (A @ ?X1 @ ?X2 @ B)"
    by (rule sorted_replaced [OF _ A _ X(1) _ X(2) _ B rng])
       (use srt in \<open>auto simp: sorted_wrt_append\<close>)
  have stX1: "\<not> state_after False (A @ ?X1)" by (simp add: state_after_append)
  have st: "state_after False (A @ ?X1 @ ?X2) = state_after False (A @ R)"
    by (simp add: state_after_append)
  have alt: "alternates False (A @ ?X1 @ ?X2 @ B) False"
    using altA altB
    by (cases "state_after False A"; cases "state_after False (A @ R)")
       (simp_all add: alternates_append is_upper_def)
  have ins: "inside False (A @ ?X1 @ ?X2 @ B) c \<longleftrightarrow> inside False (A @ R @ B) c \<and> c \<notin> span s e" for c
    unfolding inside_replaced [OF srt new A R B rng X st] using stX1 by (simp add: span_def)
  show ?thesis
    unfolding res using alt new ins by (simp add: tree_inv_def cover_def es set_eq_iff)
qed

subsection \<open>Point and range queries\<close>

lemma inside_next:
  "\<lbrakk>sorted_wrt cut_less es; alternates b es False\<rbrakk> \<Longrightarrow>
   inside b es c = (case filter (\<lambda>e. c < cut_of e) es of [] \<Rightarrow> False | e # _ \<Rightarrow> is_upper e)"
proof (induction es arbitrary: b)
  case Nil
  then show ?case by simp
next
  case (Cons e es)
  then show ?case by (auto simp: is_upper_def)
qed

lemma upper_at_cut:
  assumes "sorted_wrt cut_less es" "u \<in> set es" "is_upper u" "cut_of u = c"
  shows "\<not> inside b es c"
proof -
  from assms(2) obtain A B where es: "es = (A @ [u]) @ B" by (auto dest: split_list)
  have "\<forall>x\<in>set (A @ [u]). cut_of x \<le> c" "\<forall>x\<in>set B. c < cut_of x"
    using assms(1,4) unfolding es by (auto simp: sorted_wrt_append cut_less_def intro: less_imp_le)
  then show ?thesis
    using inside_append [OF assms(1) [unfolded es]] assms(3) unfolding es
    by (simp add: inside_before state_after_append is_upper_def)
qed

lemma next_until:
  assumes "sorted_wrt cut_less es" "filter (\<lambda>e. c < cut_of e) es = x # xs" "c \<le> d" "d < cut_of x"
  shows "filter (\<lambda>e. d < cut_of e) es = x # xs"
proof -
  have "sorted_wrt cut_less (x # xs)"
    using assms(1) unfolding assms(2) [symmetric] by (rule sorted_wrt_filter)
  then have "\<forall>e\<in>set (filter (\<lambda>e. c < cut_of e) es). d < cut_of e"
    unfolding assms(2) using assms(4) by (auto simp: cut_less_def)
  then have "filter (\<lambda>e. d < cut_of e) es = filter (\<lambda>e. c < cut_of e) es"
    using assms(3) by (auto intro: filter_cong)
  with assms(2) show ?thesis by simp
qed

text \<open>
  The endpoints after a lower endpoint are those at later cuts, after the upper endpoint at the
  same cut, if the tree has it.
\<close>

lemma range_after_lower:
  "sorted_wrt cut_less es \<Longrightarrow>
   bts_range (Excluded (lower s)) Unbounded es =
     filter (\<lambda>e. is_upper e \<and> cut_of e = lo_cut s) es @ filter (\<lambda>e. lo_cut s < cut_of e) es"
proof (induction es)
  case Nil
  then show ?case by (simp add: bts_range_def)
next
  case (Cons e es)
  then have IH: "filter (range_contains (Excluded (lower s)) Unbounded) es =
      filter (\<lambda>e. is_upper e \<and> cut_of e = lo_cut s) es @ filter (\<lambda>e. lo_cut s < cut_of e) es"
    by (simp add: bts_range_def)
  have "lo_cut s < cut_of e \<Longrightarrow> filter (\<lambda>e. is_upper e \<and> cut_of e = lo_cut s) es = []"
    using Cons.prems by (auto simp: filter_empty_conv cut_less_def)
  then show ?case
    using IH by (auto simp: bts_range_def range_contains_def less_endpoint_iff)
qed

lemma upper_eq_unique:
  assumes "sorted_wrt cut_less es" "filter (\<lambda>e. is_upper e \<and> cut_of e = c) es = u # us"
  shows "u \<in> set es \<and> is_upper u \<and> cut_of u = c"
  using assms(2) by (metis (mono_tags, lifting) filter_eq_Cons_iff in_set_conv_decomp)

lemma contains_point_next:
  "contains_point t p =
     (case bts_range (Excluded (LowerInclusive p)) Unbounded (bound_set t) of
        [] \<Rightarrow> False | x # _ \<Rightarrow> is_upper x \<and> Before p < cut_of x)"
  by (auto simp: contains_point_def is_upper_def less_cut_def split: list.split endpoint.split)

lemma covers_interval_next:
  assumes "lo_cut s < hi_cut e"
  shows "covers_interval t s e =
     Inr (case bts_range (Excluded (lower s)) Unbounded (bound_set t) of
            [] \<Rightarrow> False | x # _ \<Rightarrow> is_upper x \<and> \<not> x < upper e)"
proof -
  have p: "pair s e = Inr (lower s, upper e)" using assms by (simp add: pair_cuts)
  have "\<not> UpperUnbounded < upper e" by (simp add: less_endpoint_iff)
  then have "(case x # xs of UpperUnbounded # _ \<Rightarrow> True
       | limit # _ \<Rightarrow> is_upper limit \<and> endpoint_cmp limit (upper e) \<noteq> Less | [] \<Rightarrow> False) =
     (is_upper x \<and> \<not> x < upper e)" for x xs
    by (cases x) (simp_all add: endpoint_cmp_iff is_upper_def)
  then show ?thesis
    by (cases "bts_range (Excluded (lower s)) Unbounded (bound_set t)")
       (simp_all add: covers_interval_def p)
qed

lemma contains_point_correct:
  assumes inv: "tree_inv t"
  shows "contains_point t p \<longleftrightarrow> Before p \<in> cover t"
proof -
  let ?es = "bound_set t" and ?c = "Before p"
  let ?N = "filter (\<lambda>e. ?c < cut_of e) ?es"
  have srt: "sorted_wrt cut_less ?es" and alt: "alternates False ?es False"
    using inv by (auto simp: tree_inv_def)
  note nxt = inside_next [OF srt alt, of ?c]
  have rng: "bts_range (Excluded (LowerInclusive p)) Unbounded ?es =
      filter (\<lambda>e. is_upper e \<and> cut_of e = ?c) ?es @ ?N"
    using range_after_lower [OF srt, of "Included p"] by simp
  show ?thesis
  proof (cases "filter (\<lambda>e. is_upper e \<and> cut_of e = ?c) ?es")
    case Nil
    have "?N = x # xs \<Longrightarrow> ?c < cut_of x" for x xs by (auto simp: filter_eq_Cons_iff)
    then show ?thesis
      unfolding contains_point_next rng Nil cover_def mem_Collect_eq nxt by (cases ?N) simp_all
  next
    case (Cons u us)
    then have u: "u \<in> set ?es" "is_upper u" "cut_of u = ?c"
      using upper_eq_unique [OF srt] by blast+
    moreover have "\<not> inside False ?es ?c" using upper_at_cut [OF srt u] .
    ultimately show ?thesis
      unfolding contains_point_next rng Cons cover_def by simp
  qed
qed

lemma covers_interval_correct:
  assumes inv: "tree_inv t" and rng: "lo_cut s < hi_cut e"
  shows "covers_interval t s e = Inr (span s e \<subseteq> cover t)"
proof -
  let ?es = "bound_set t" and ?c = "lo_cut s"
  let ?N = "filter (\<lambda>e. ?c < cut_of e) ?es"
  have srt: "sorted_wrt cut_less ?es" and alt: "alternates False ?es False"
    using inv by (auto simp: tree_inv_def)
  note nxt = inside_next [OF srt alt] and after = range_after_lower [OF srt, of s]
  have c_in: "?c \<in> span s e" using rng by (simp add: span_def)
  note cov = covers_interval_next [OF rng, of t] after
  show ?thesis
  proof (cases "filter (\<lambda>e. is_upper e \<and> cut_of e = ?c) ?es")
    case (Cons u us)
    then have u: "u \<in> set ?es" "is_upper u" "cut_of u = ?c"
      using upper_eq_unique [OF srt] by blast+
    then have "?c \<notin> cover t" using upper_at_cut [OF srt u] by (simp add: cover_def)
    moreover have "u < upper e" using u rng by (simp add: less_endpoint_iff)
    ultimately show ?thesis unfolding cov Cons using c_in by auto
  next
    case noupper: Nil
    show ?thesis
    proof (cases ?N)
      case Nil
      then have "?c \<notin> cover t" using nxt [of ?c] by (simp add: cover_def)
      then show ?thesis unfolding cov noupper Nil using c_in by auto
    next
      case (Cons x xs)
      have x: "x \<in> set ?es" "?c < cut_of x" using Cons by (auto simp: filter_eq_Cons_iff)
      have "(is_upper x \<and> \<not> x < upper e) = (span s e \<subseteq> cover t)"
      proof (cases "is_upper x")
        case False
        then have "?c \<notin> cover t" using nxt [of ?c] Cons by (simp add: cover_def)
        with c_in False show ?thesis by auto
      next
        case True
        then have lt: "x < upper e \<longleftrightarrow> cut_of x < hi_cut e"
          by (simp add: less_endpoint_iff is_upper_def)
        have "d \<in> cover t" if "d \<in> span s e" "hi_cut e \<le> cut_of x" for d
          using nxt [of d] next_until [OF srt Cons, of d] that True by (auto simp: cover_def span_def)
        moreover have "cut_of x \<in> span s e \<and> cut_of x \<notin> cover t" if "cut_of x < hi_cut e"
          using that x upper_at_cut [OF srt x(1) True refl] by (simp add: span_def cover_def)
        ultimately show ?thesis using lt True by (meson not_le subset_iff)
      qed
      then show ?thesis unfolding cov noupper Cons by simp
    qed
  qed
qed

subsection \<open>Properties of the tree operations\<close>

text \<open>A tree for the witnesses: the intervals from 5 to 9 without 9, and from 12 on.\<close>

definition sample_tree :: "int interval_tree" where
  "sample_tree = \<lparr>bound_set = [LowerInclusive 5, UpperExclusive 9, LowerInclusive 12, UpperUnbounded]\<rparr>"

lemma sample_tree_inv: "tree_inv sample_tree"
  by (simp add: sample_tree_def tree_inv_def cut_less_def less_cut_def is_upper_def)

text \<open>
  C8. \<open>insert_interval\<close> panics exactly on empty or decreasing ranges; otherwise the new tree
  satisfies the invariant and covers exactly what the old one covered and the range.
\<close>

theorem insert_interval_adds:
  assumes "tree_inv t"
  shows "case insert_interval t s e of
      Inl p \<Rightarrow> hi_cut e \<le> lo_cut s
    | Inr t' \<Rightarrow> lo_cut s < hi_cut e \<and> tree_inv t' \<and> cover t' = cover t \<union> span s e"
proof (cases "lo_cut s < hi_cut e")
  case True
  then show ?thesis using insert_interval_correct [OF assms] by fastforce
next
  case False
  then show ?thesis using pair_panics [OF False] by (auto simp: insert_interval_def)
qed

theorem insert_interval_adds_witness:
  "tree_inv sample_tree \<and>
   insert_interval sample_tree (Included 8) (Included 12) =
     Inr \<lparr>bound_set = [LowerInclusive 5, UpperUnbounded]\<rparr> \<and>
   cover \<lparr>bound_set = [LowerInclusive 5, UpperUnbounded]\<rparr> =
     cover sample_tree \<union> span (Included 8) (Included 12)"
proof -
  have "insert_interval sample_tree (Included 8) (Included 12) =
     Inr \<lparr>bound_set = [LowerInclusive 5, UpperUnbounded]\<rparr>"
    by code_simp
  then show ?thesis
    using insert_interval_adds [OF sample_tree_inv, of "Included 12" "Included 8"] sample_tree_inv
    by simp
qed

text \<open>
  C9. \<open>remove_interval\<close> panics exactly on empty or decreasing ranges; otherwise the new tree
  satisfies the invariant and covers exactly what the old one covered outside the range.
\<close>

theorem remove_interval_subtracts:
  assumes "tree_inv t"
  shows "case remove_interval t s e of
      Inl p \<Rightarrow> hi_cut e \<le> lo_cut s
    | Inr t' \<Rightarrow> lo_cut s < hi_cut e \<and> tree_inv t' \<and> cover t' = cover t - span s e"
proof (cases "lo_cut s < hi_cut e")
  case True
  then show ?thesis using remove_interval_correct [OF assms] by fastforce
next
  case False
  then show ?thesis using pair_panics [OF False] by (auto simp: remove_interval_def)
qed

theorem remove_interval_subtracts_witness:
  "tree_inv sample_tree \<and>
   remove_interval sample_tree (Included 6) (Included 12) =
     Inr \<lparr>bound_set = [LowerInclusive 5, UpperExclusive 6, LowerExclusive 12, UpperUnbounded]\<rparr> \<and>
   cover \<lparr>bound_set = [LowerInclusive 5, UpperExclusive 6, LowerExclusive 12, UpperUnbounded]\<rparr> =
     cover sample_tree - span (Included 6) (Included 12)"
proof -
  have "remove_interval sample_tree (Included 6) (Included 12) =
     Inr \<lparr>bound_set = [LowerInclusive 5, UpperExclusive 6, LowerExclusive 12, UpperUnbounded]\<rparr>"
    by code_simp
  then show ?thesis
    using remove_interval_subtracts [OF sample_tree_inv, of "Included 12" "Included 6"] sample_tree_inv
    by simp
qed

text \<open>
  C14. On a well-formed tree \<open>contains_point\<close> says whether the point is covered and
  \<open>covers_interval\<close> whether every cut of the (non-empty) range is.
\<close>

theorem tree_queries_exact:
  assumes "tree_inv t" and "lo_cut s < hi_cut e"
  shows "contains_point t p = (Before p \<in> cover t) \<and>
    covers_interval t s e = Inr (span s e \<subseteq> cover t)"
  using contains_point_correct [OF assms(1)] covers_interval_correct [OF assms] by auto

theorem tree_queries_exact_witness:
  "tree_inv sample_tree \<and> contains_point sample_tree 8 \<and> Before 8 \<in> cover sample_tree \<and>
   covers_interval sample_tree (Included 6) (Included 9) = Inr False \<and>
   \<not> span (Included 6) (Included 9) \<subseteq> cover sample_tree"
proof -
  have 1: "contains_point sample_tree 8" by code_simp
  have 2: "covers_interval sample_tree (Included 6) (Included 9) = Inr False" by code_simp
  have r: "lo_cut (Included 6) < hi_cut (Included (9::int))" by (simp add: less_cut_def)
  from 1 2 tree_queries_exact [OF sample_tree_inv r, of 8] sample_tree_inv show ?thesis by simp
qed

end
