(* ===== verification/IntervalIterators.thy ===== *)
theory IntervalIterators
  imports IntervalTreeProps
begin

section \<open>The iterators of the interval tree\<close>

text \<open>
  What \<open>get_interval_difference\<close>, \<open>get_interval_overlaps\<close> and \<open>intervals\<close> yield, as sets of
  cuts. The difference iterator is exact for every range. The overlap iterator is exact up to two
  defects that the theorems below pin down: an included end that meets an interval ending just
  before it, and a range without an upper end.
\<close>

subsection \<open>The difference iterator\<close>

lemma diff_max_bound_upper:
  assumes "is_upper x" "upper_bound it = Some u"
  shows "cut_of x < hi_cut u \<Longrightarrow> \<exists>b. diff_max_bound it (as_bound x) = (Some b, it) \<and> lo_cut b = cut_of x"
    and "hi_cut u \<le> cut_of x \<Longrightarrow> fst (diff_max_bound it (as_bound x)) = None \<or>
          upper_bound (snd (diff_max_bound it (as_bound x))) = None"
  using assms by (cases x; cases u; auto simp: is_upper_def less_eq_cut_def less_cut_def rs_cmp_def)+

lemma After_next: "Before v < c \<Longrightarrow> After v \<le> c"
  by (cases c) (auto simp: less_eq_cut_def less_cut_def)

lemma diff_max_bound_lower:
  assumes "is_lower x" "x \<noteq> LowerUnbounded" "upper_bound it = Some u"
  shows "\<exists>b it'. diff_max_bound it (as_bound x) = (Some b, it') \<and> hi_cut b = min (cut_of x) (hi_cut u) \<and>
      (it' = it \<or> it' = it\<lparr>upper_bound := None\<rparr> \<and> (\<forall>c. cut_of x < c \<longrightarrow> hi_cut u \<le> c))"
  using assms
  by (cases x; cases u)
     (auto simp: min_def less_eq_cut_def [symmetric] rs_cmp_def After_next
       | auto simp: min_def less_eq_cut_def less_cut_def rs_cmp_def split: cut.splits)+

lemma diff_max_bound_taken: "upper_bound it = None \<Longrightarrow> diff_max_bound it b = (None, it)"
  by simp

declare diff_max_bound.simps [simp del] diff_max_bound_taken [simp]

text \<open>
  The items of an iterator as a set of cuts, and that they lie between two cuts, none is empty
  and each starts strictly after the one before it ends.
\<close>

definition spans :: "('a::linorder bound \<times> 'a bound) list \<Rightarrow> 'a cut set" where
  "spans ds = (\<Union>(a, b)\<in>set ds. span a b)"

definition tiles :: "'a::linorder cut \<Rightarrow> 'a cut \<Rightarrow> ('a bound \<times> 'a bound) list \<Rightarrow> bool" where
  "tiles lo hi ds =
     ((\<forall>(a, b)\<in>set ds. lo \<le> lo_cut a \<and> lo_cut a < hi_cut b \<and> hi_cut b \<le> hi) \<and>
      sorted_wrt (\<lambda>d d'. hi_cut (snd d) < lo_cut (fst d')) ds)"

lemma spans_simps [simp]: "spans [] = {}" "spans ((a, b) # ds) = span a b \<union> spans ds"
  by (auto simp: spans_def)

lemma tiles_Nil [simp]: "tiles lo hi []"
  by (simp add: tiles_def)

lemma tiles_Cons:
  "\<lbrakk>tiles lo' hi ds; lo \<le> lo_cut a; lo_cut a < hi_cut b; hi_cut b < lo'; hi_cut b \<le> hi\<rbrakk>
   \<Longrightarrow> tiles lo hi ((a, b) # ds)"
  by (fastforce simp: tiles_def)

lemma tiles_single: "\<lbrakk>lo \<le> lo_cut a; lo_cut a < hi_cut b; hi_cut b \<le> hi\<rbrakk> \<Longrightarrow> tiles lo hi [(a, b)]"
  by (simp add: tiles_def)

lemma diff_collect_done:
  assumes "upper_bound it = None" "inner it = [] \<or> is_upper (hd (inner it))"
  shows "diff_collect it = Inr []"
  using assms
  by (cases "inner it")
     (auto simp: diff_collect.simps [of it] diff_next_def Let_def is_upper_def split: option.splits)

lemma diff_collect_step:
  "diff_next it = Inr (Some x, it') \<Longrightarrow> diff_collect it' = Inr xs \<Longrightarrow> diff_collect it = Inr (x # xs)"
  by (simp add: diff_collect.simps [of it])

lemma diff_collect_loop:
  fixes es :: "'a::linorder endpoint list"
  assumes "inner it = es" "alternates True es False" "sorted_wrt cut_less es" "upper_bound it = Some u"
  shows "\<exists>ds. diff_collect it = Inr ds \<and> spans ds = {c. c < hi_cut u \<and> \<not> inside True es c} \<and>
    tiles (cut_of (hd es)) (hi_cut u) ds"
  using assms
proof (induction "length es" arbitrary: es it rule: less_induct)
  case less
  obtain U rest where es: "es = U # rest" and U: "is_upper U" and rest: "alternates False rest False"
    using less.prems(2) by (cases es) auto
  note mx = diff_max_bound_upper [OF U, of "it\<lparr>inner := rest\<rparr>" u]
  have Ul: "\<not> is_lower U" using U by (simp add: is_upper_def)
  show ?case
  proof (cases "cut_of U < hi_cut u")
    case False
    then have "hi_cut u \<le> cut_of U" by simp
    with mx(2) less.prems(4) obtain r it2 where dm: "diff_max_bound (it\<lparr>inner := rest\<rparr>) (as_bound U) = (r, it2)"
      and r: "r = None \<or> upper_bound it2 = None"
      by (cases "diff_max_bound (it\<lparr>inner := rest\<rparr>) (as_bound U)") auto
    have "diff_collect it = Inr []"
      using dm r by (auto simp: diff_collect.simps [of it] diff_next_def less.prems(1) es Ul Let_def
          split: option.splits list.splits)
    moreover have "inside True es c" if "c < hi_cut u" for c
      using that False by (auto simp: es)
    ultimately show ?thesis by auto
  next
    case True
    with mx(1) less.prems(4) obtain b where
      dm: "diff_max_bound (it\<lparr>inner := rest\<rparr>) (as_bound U) = (Some b, it\<lparr>inner := rest\<rparr>)"
      and b: "lo_cut b = cut_of U"
      by auto
    show ?thesis
    proof (cases rest)
      case Nil
      let ?it' = "it\<lparr>inner := [], upper_bound := None\<rparr>"
      have "diff_next it = Inr (Some (b, u), ?it')"
        using dm less.prems(4) by (simp add: diff_next_def less.prems(1) es Ul Nil)
      moreover have "diff_collect ?it' = Inr []" by (rule diff_collect_done) auto
      ultimately have dc: "diff_collect it = Inr [(b, u)]" by (rule diff_collect_step)
      have sp: "spans [(b, u)] = {c. c < hi_cut u \<and> \<not> inside True es c}"
        using b by (auto simp: es Nil span_def Ul)
      have "tiles (cut_of (hd es)) (hi_cut u) [(b, u)]"
        using True b by (intro tiles_single) (simp_all add: es)
      with dc sp show ?thesis by blast
    next
      case (Cons L rest2)
      have L: "is_lower L" and rest2: "alternates True rest2 False"
        using rest Cons by (auto simp: is_upper_def)
      have UL: "cut_of U < cut_of L" using less.prems(3) by (auto simp: es Cons cut_less_def)
      then have Lu: "L \<noteq> LowerUnbounded" by auto
      obtain h it2 where dl: "diff_max_bound (it\<lparr>inner := rest2\<rparr>) (as_bound L) = (Some h, it2)"
        and h: "hi_cut h = min (cut_of L) (hi_cut u)"
        and it2: "it2 = it\<lparr>inner := rest2\<rparr> \<or>
          it2 = it\<lparr>inner := rest2, upper_bound := None\<rparr> \<and> (\<forall>c. cut_of L < c \<longrightarrow> hi_cut u \<le> c)"
        using diff_max_bound_lower [OF L Lu, of "it\<lparr>inner := rest2\<rparr>" u] less.prems(4) by auto
      have nx: "diff_next it = Inr (Some (b, h), it2)"
        using dm dl by (simp add: diff_next_def less.prems(1) es Ul Cons)
      have hd2: "rest2 \<noteq> []" "is_upper (hd rest2)" using rest2 by (cases rest2; simp)+
      then have Lh: "cut_of L < cut_of (hd rest2)"
        using less.prems(3) by (auto simp: es Cons cut_less_def)
      have sp: "span b h = {c. cut_of U \<le> c \<and> c < cut_of L \<and> c < hi_cut u}"
        using b h by (auto simp: span_def)
      have ins: "inside True es c \<longleftrightarrow> c < cut_of U \<or> cut_of L \<le> c \<and> inside True rest2 c" for c
        using UL L by (auto simp: es Cons Ul)
      have b_h: "lo_cut b < hi_cut h" "hi_cut h \<le> hi_cut u" "hi_cut h < cut_of (hd rest2)"
        using b h True UL Lh by (auto simp: min_less_iff_disj)
      from it2 show ?thesis
      proof
        assume it2: "it2 = it\<lparr>inner := rest2\<rparr>"
        obtain ds where ds: "diff_collect it2 = Inr ds"
          "spans ds = {c. c < hi_cut u \<and> \<not> inside True rest2 c}" "tiles (cut_of (hd rest2)) (hi_cut u) ds"
          using less.hyps [of rest2 it2] rest2 less.prems(3,4) by (auto simp: es Cons it2)
        have ge: "cut_of U \<le> c \<and> cut_of L \<le> c" if "\<not> inside True rest2 c" for c
          using that Lh UL hd2(1) by (cases rest2) (auto split: if_splits)
        have sps: "spans ((b, h) # ds) = {c. c < hi_cut u \<and> \<not> inside True es c}"
          unfolding spans_simps ds(2) sp ins by (auto simp: not_le not_less dest: ge)
        have "tiles (cut_of (hd es)) (hi_cut u) ((b, h) # ds)"
          using b b_h by (intro tiles_Cons [OF ds(3)]) (simp_all add: es)
        with sps diff_collect_step [OF nx ds(1)] show ?thesis by blast
      next
        assume it2: "it2 = it\<lparr>inner := rest2, upper_bound := None\<rparr> \<and> (\<forall>c. cut_of L < c \<longrightarrow> hi_cut u \<le> c)"
        then have "diff_collect it2 = Inr []" using hd2 by (intro diff_collect_done) auto
        then have dc: "diff_collect it = Inr [(b, h)]" by (rule diff_collect_step [OF nx])
        have "hi_cut u \<le> cut_of (hd rest2)" using it2 Lh by auto
        then have "inside True rest2 c" if "c < hi_cut u" for c
          using that hd2(1) by (cases rest2) auto
        then have sps: "spans [(b, h)] = {c. c < hi_cut u \<and> \<not> inside True es c}"
          unfolding spans_simps sp ins by (auto simp: not_le not_less)
        have "tiles (cut_of (hd es)) (hi_cut u) [(b, h)]"
          using b b_h by (intro tiles_single) (simp_all add: es)
        with dc sps show ?thesis by blast
      qed
    qed
  qed
qed

text \<open>The whole difference of a tree and a range, as \<open>collect\<close> builds it.\<close>

definition difference ::
    "'a::linorder interval_tree \<Rightarrow> 'a bound \<Rightarrow> 'a bound \<Rightarrow> tree_panic + ('a bound \<times> 'a bound) list" where
  "difference t s e = try_bind (get_interval_difference t s e) diff_collect"

text \<open>The part of the tree that the iterators walk over, and the state in which they start.\<close>

lemma split_at_cut:
  fixes s :: "'a::linorder bound"
  assumes inv: "tree_inv t" and P: "\<And>x. lo_cut s < cut_of x \<Longrightarrow> P x"
    "\<And>x. P x \<Longrightarrow> lo_cut s < cut_of x \<or> cut_of x = lo_cut s \<and> is_upper x"
  obtains m where "alternates m (filter P (bound_set t)) False"
    "sorted_wrt cut_less (filter P (bound_set t))"
    "\<forall>c. lo_cut s \<le> c \<longrightarrow> inside False (bound_set t) c = inside m (filter P (bound_set t)) c"
    "\<forall>x\<in>set (filter P (bound_set t)). P x"
proof -
  let ?es = "bound_set t"
  have srt: "sorted_wrt cut_less ?es" and alt: "alternates False ?es False"
    using inv by (auto simp: tree_inv_def)
  have mono: "P b" if "cut_less a b" "P a" for a b
    using that P(2) [of a] P(1) [of b] by (auto simp: cut_less_def)
  have "?es = filter (\<lambda>x. \<not> P x) ?es @ filter P ?es"
    using srt
  proof (induction "bound_set t" arbitrary: t)
    case Nil
    then show ?case by simp
  next
    case (Cons a es)
    from Cons(1) [of "\<lparr>bound_set = es\<rparr>"] Cons(2,3) have IH: "es = filter (\<lambda>x. \<not> P x) es @ filter P es"
      by (simp flip: Cons(2))
    have "\<forall>b\<in>set es. P a \<longrightarrow> P b" using Cons(2,3) mono by (auto simp flip: Cons(2))
    then show ?case using IH by (auto simp: filter_none filter_all simp flip: Cons(2))
  qed
  then obtain A where es: "?es = A @ filter P ?es" and A: "\<forall>x\<in>set A. \<not> P x" by force
  have A': "\<forall>x\<in>set A. cut_of x \<le> lo_cut s" using A P(1) by (meson not_less)
  show ?thesis
  proof
    show "alternates (state_after False A) (filter P ?es) False"
      using alt es alternates_append by metis
    show "sorted_wrt cut_less (filter P ?es)" using srt by (rule sorted_wrt_filter)
    show "\<forall>c. lo_cut s \<le> c \<longrightarrow> inside False ?es c = inside (state_after False A) (filter P ?es) c"
      using inside_append [of A "filter P ?es" False] srt es A' by (metis order.trans)
    show "\<forall>x\<in>set (filter P ?es). P x" by simp
  qed
qed

lemma bts_range_from: "bts_range b Unbounded es = filter (above_start b) es"
  by (auto simp: bts_range_def range_contains_def intro: filter_cong)

lemma difference_correct:
  assumes inv: "tree_inv t" and rng: "lo_cut s < hi_cut e"
  shows "\<exists>ds. difference t s e = Inr ds \<and> spans ds = span s e - cover t \<and>
    tiles (lo_cut s) (hi_cut e) ds"
proof -
  define P where "P = above_start (case s of
      Included v \<Rightarrow> Included (UpperExclusive v)
    | Excluded v \<Rightarrow> Excluded (UpperInclusive v)
    | Unbounded \<Rightarrow> Excluded LowerUnbounded)"
  have P: "lo_cut s < cut_of x \<Longrightarrow> P x"
    "P x \<Longrightarrow> lo_cut s < cut_of x \<or> cut_of x = lo_cut s \<and> is_upper x" for x
    by (cases s; auto simp: P_def less_endpoint_iff le_endpoint_iff is_upper_def)+
  obtain m where m: "alternates m (filter P (bound_set t)) False"
    "sorted_wrt cut_less (filter P (bound_set t))"
    "\<forall>c. lo_cut s \<le> c \<longrightarrow> inside False (bound_set t) c = inside m (filter P (bound_set t)) c"
    "\<forall>x\<in>set (filter P (bound_set t)). P x"
    using split_at_cut [of t s P, OF inv P] .
  define es where "es = filter P (bound_set t)"
  let ?it = "\<lparr>lower_bound = Some s, upper_bound = Some e, inner = es\<rparr>"
  have get: "difference t s e = diff_collect ?it"
    using check_range_cuts [of s e "(s, e)"] rng
    by (simp add: difference_def get_interval_difference_def es_def P_def bts_range_from)
  have cov: "span s e - cover t = {c. lo_cut s \<le> c \<and> c < hi_cut e \<and> \<not> inside m es c}"
    using m(3) by (auto simp: span_def cover_def es_def)
  note m = m [folded es_def]
  show ?thesis
  proof (cases es)
    case Nil
    then have nx: "diff_next ?it = Inr (Some (s, e), \<lparr>lower_bound = None, upper_bound = None, inner = []\<rparr>)"
      by (simp add: diff_next_def)
    have "diff_collect ?it = Inr [(s, e)]"
      by (rule diff_collect_step [OF nx]) (rule diff_collect_done; simp)
    moreover have "spans [(s, e)] = span s e - cover t"
      unfolding cov using m(1) Nil by (auto simp: span_def)
    moreover have "tiles (lo_cut s) (hi_cut e) [(s, e)]" using rng by (intro tiles_single) auto
    ultimately show ?thesis unfolding get by blast
  next
    case (Cons x rest)
    show ?thesis
    proof (cases m)
      case True
      obtain ds where ds: "diff_collect ?it = Inr ds"
        "spans ds = {c. c < hi_cut e \<and> \<not> inside True es c}" "tiles (cut_of (hd es)) (hi_cut e) ds"
        using diff_collect_loop [of ?it es e] m(1,2) True by auto
      have x: "lo_cut s \<le> cut_of x" using m(4) P(2) [of x] Cons by auto
      then have "inside True es c" if "c < lo_cut s" for c using that Cons by auto
      then have "spans ds = span s e - cover t"
        unfolding ds(2) cov using True by (auto simp: not_le [symmetric])
      moreover have "tiles (lo_cut s) (hi_cut e) ds"
        using ds(3) x Cons by (auto simp: tiles_def intro: order.trans)
      ultimately show ?thesis unfolding get using ds(1) by blast
    next
      case False
      have x: "is_lower x" and rest: "alternates True rest False"
        using m(1) Cons False by (auto simp: is_upper_def)
      have sx: "lo_cut s < cut_of x" using m(4) P(2) [of x] Cons x by (auto simp: is_upper_def)
      then have xl: "x \<noteq> LowerUnbounded" by auto
      let ?it1 = "\<lparr>lower_bound = None, upper_bound = Some e, inner = rest\<rparr>"
      obtain h it2 where dl: "diff_max_bound ?it1 (as_bound x) = (Some h, it2)"
        and h: "hi_cut h = min (cut_of x) (hi_cut e)"
        and it2: "it2 = ?it1 \<or> it2 = ?it1\<lparr>upper_bound := None\<rparr> \<and> (\<forall>c. cut_of x < c \<longrightarrow> hi_cut e \<le> c)"
        using diff_max_bound_lower [OF x xl, of ?it1 e] by auto
      have nx: "diff_next ?it = Inr (Some (s, h), it2)"
        using dl by (simp add: diff_next_def Cons x)
      have hd2: "rest \<noteq> []" "is_upper (hd rest)" using rest by (cases rest; simp)+
      then have xh: "cut_of x < cut_of (hd rest)" using m(2) by (auto simp: Cons cut_less_def)
      have s_h: "lo_cut s < hi_cut h" "hi_cut h \<le> hi_cut e" "hi_cut h < cut_of (hd rest)"
        using h rng sx xh by (auto simp: min_less_iff_disj)
      have sp: "span s h = {c. lo_cut s \<le> c \<and> c < cut_of x \<and> c < hi_cut e}"
        using h by (auto simp: span_def)
      have ins: "inside m es c \<longleftrightarrow> cut_of x \<le> c \<and> inside True rest c" for c
        using False x by (auto simp: Cons)
      from it2 show ?thesis
      proof
        assume it2: "it2 = ?it1"
        obtain ds where ds: "diff_collect it2 = Inr ds"
          "spans ds = {c. c < hi_cut e \<and> \<not> inside True rest c}" "tiles (cut_of (hd rest)) (hi_cut e) ds"
          using diff_collect_loop [of it2 rest e] rest m(2) by (auto simp: Cons it2)
        have ge: "lo_cut s \<le> c \<and> cut_of x \<le> c" if "\<not> inside True rest c" for c
          using that xh sx hd2(1) by (cases rest) (auto split: if_splits)
        have "spans ((s, h) # ds) = span s e - cover t"
          unfolding spans_simps ds(2) sp cov ins by (auto simp: not_le not_less dest: ge)
        moreover have "tiles (lo_cut s) (hi_cut e) ((s, h) # ds)"
          using s_h by (intro tiles_Cons [OF ds(3)]) simp_all
        ultimately show ?thesis unfolding get using diff_collect_step [OF nx ds(1)] by blast
      next
        assume it2: "it2 = ?it1\<lparr>upper_bound := None\<rparr> \<and> (\<forall>c. cut_of x < c \<longrightarrow> hi_cut e \<le> c)"
        then have "diff_collect it2 = Inr []" using hd2 by (intro diff_collect_done) auto
        then have dc: "diff_collect ?it = Inr [(s, h)]" by (rule diff_collect_step [OF nx])
        have "hi_cut e \<le> cut_of (hd rest)" using it2 xh by auto
        then have "inside True rest c" if "c < hi_cut e" for c
          using that hd2(1) by (cases rest) auto
        then have "spans [(s, h)] = span s e - cover t"
          unfolding spans_simps sp cov ins by (auto simp: not_le not_less)
        moreover have "tiles (lo_cut s) (hi_cut e) [(s, h)]"
          using s_h by (intro tiles_single) simp_all
        ultimately show ?thesis unfolding get using dc by blast
      qed
    qed
  qed
qed

subsection \<open>The overlap iterator\<close>

lemma overlap_max_bound_lower:
  assumes "is_lower x" "x \<noteq> LowerUnbounded" "upper_bound it = Some u" "u \<noteq> Unbounded"
  shows "cut_of x < hi_cut u \<Longrightarrow> \<exists>b. overlap_max_bound it (as_bound x) = (Some b, it) \<and> lo_cut b = cut_of x"
    and "hi_cut u \<le> cut_of x \<Longrightarrow> upper_bound (snd (overlap_max_bound it (as_bound x))) = None"
  using assms by (cases x; cases u; auto simp: less_eq_cut_def less_cut_def rs_cmp_def)+

text \<open>Where the iterator stops inside an interval that ends just before an included end.\<close>

fun overshoots :: "'a bound \<Rightarrow> 'a endpoint \<Rightarrow> bool" where
  "overshoots (Included v) (UpperExclusive w) = (v = w)"
| "overshoots _ _ = False"

lemma overlap_max_bound_upper:
  assumes "is_upper x" "upper_bound it = Some u" "u \<noteq> Unbounded"
  shows "\<exists>b it'. overlap_max_bound it (as_bound x) = (Some b, it') \<and>
      hi_cut b = (if overshoots u x then hi_cut u else min (cut_of x) (hi_cut u)) \<and>
      (it' = it \<and> \<not> overshoots u x \<or>
       it' = it\<lparr>upper_bound := None\<rparr> \<and> (\<forall>c. cut_of x < c \<longrightarrow> hi_cut u \<le> c))"
  using assms
  by (cases x; cases u)
     (auto simp: is_upper_def min_def less_eq_cut_def [symmetric] rs_cmp_def After_next
       | auto simp: is_upper_def min_def less_eq_cut_def less_cut_def rs_cmp_def split: cut.splits)+

lemma overshoots_cut: "overshoots u x \<Longrightarrow> is_upper x \<and> cut_of x < hi_cut u"
  by (cases u; cases x) (auto simp: is_upper_def less_cut_def)

lemma overshoots_span:
  "overshoots u x \<Longrightarrow> {c. lo \<le> c \<and> c < hi_cut u} = {c. lo \<le> c \<and> c < cut_of x} \<union> {c. lo \<le> c \<and> c = cut_of x}"
  by (cases u; cases x) (auto simp: less_cut_def less_eq_cut_def split: cut.splits)

lemma overlap_max_bound_taken: "upper_bound it = None \<Longrightarrow> overlap_max_bound it b = (None, it)"
  by simp

declare overlap_max_bound.simps [simp del] overlap_max_bound_taken [simp]

lemma overlap_collect_done:
  assumes "upper_bound it = None" "inner it = [] \<or> is_lower (hd (inner it))"
  shows "overlap_collect it = Inr []"
  using assms
  by (cases "inner it")
     (auto simp: overlap_collect.simps [of it] overlap_next_def Let_def is_upper_def split: option.splits)

lemma overlap_collect_step:
  "overlap_next it = Inr (Some x, it') \<Longrightarrow> overlap_collect it' = Inr xs \<Longrightarrow>
   overlap_collect it = Inr (x # xs)"
  by (simp add: overlap_collect.simps [of it])

definition overlap_spec :: "'a::linorder bound \<Rightarrow> bool \<Rightarrow> 'a endpoint list \<Rightarrow> 'a cut set" where
  "overlap_spec u b es = {c. c < hi_cut u \<and> (inside b es c \<or> (\<exists>x\<in>set es. overshoots u x \<and> c = cut_of x))}"

lemma overlap_spec_Nil [simp]: "overlap_spec u False [] = {}"
  by (simp add: overlap_spec_def)

lemma overlap_collect_loop:
  fixes es :: "'a::linorder endpoint list"
  assumes "inner it = es" "alternates False es False" "sorted_wrt cut_less es"
    "\<forall>x\<in>set es. x \<noteq> LowerUnbounded" "upper_bound it = Some u" "u \<noteq> Unbounded"
  shows "\<exists>ds. overlap_collect it = Inr ds \<and> spans ds = overlap_spec u False es \<and>
    (es \<noteq> [] \<longrightarrow> tiles (cut_of (hd es)) (hi_cut u) ds) \<and> (es = [] \<longrightarrow> ds = [])"
  using assms
proof (induction "length es" arbitrary: es it rule: less_induct)
  case less
  show ?case
  proof (cases es)
    case Nil
    then show ?thesis
      using less.prems(1) by (auto simp: overlap_collect.simps [of it] overlap_next_def)
  next
    case (Cons L rest)
    then obtain U rest2 where es: "es = L # U # rest2" and L: "is_lower L" "\<not> is_upper L" and U: "is_upper U"
      and rest2: "alternates False rest2 False"
      using less.prems(2) by (cases rest) (auto simp: is_upper_def)
    have Lu: "L \<noteq> LowerUnbounded" using less.prems(4) by (simp add: es)
    have LU: "cut_of L < cut_of U" and Ur: "\<forall>x\<in>set rest2. cut_of U < cut_of x"
      using less.prems(3) by (auto simp: es cut_less_def)
    have Ul: "\<not> is_lower U" using U by (simp add: is_upper_def)
    note mx = overlap_max_bound_lower [OF L(1) Lu, of "it\<lparr>inner := U # rest2\<rparr>" u]
    show ?thesis
    proof (cases "cut_of L < hi_cut u")
      case False
      then have "hi_cut u \<le> cut_of L" by simp
      with mx(2) less.prems(5,6) obtain r it2 where
        dm: "overlap_max_bound (it\<lparr>inner := U # rest2\<rparr>) (as_bound L) = (r, it2)"
        and r: "upper_bound it2 = None"
        by (cases "overlap_max_bound (it\<lparr>inner := U # rest2\<rparr>) (as_bound L)") auto
      have "overlap_collect it = Inr []"
        using dm r by (auto simp: overlap_collect.simps [of it] overlap_next_def less.prems(1) es L Let_def
            split: option.splits list.splits)
      moreover have "overlap_spec u False es = {}"
        using False LU Ur by (auto simp: overlap_spec_def es Ul dest!: overshoots_cut)
      ultimately show ?thesis by auto
    next
      case True
      with mx(1) less.prems(5,6) obtain b where
        dm: "overlap_max_bound (it\<lparr>inner := U # rest2\<rparr>) (as_bound L) = (Some b, it\<lparr>inner := U # rest2\<rparr>)"
        and b: "lo_cut b = cut_of L"
        by auto
      obtain h it2 where du: "overlap_max_bound (it\<lparr>inner := rest2\<rparr>) (as_bound U) = (Some h, it2)"
        and h: "hi_cut h = (if overshoots u U then hi_cut u else min (cut_of U) (hi_cut u))"
        and it2: "it2 = it\<lparr>inner := rest2\<rparr> \<and> \<not> overshoots u U \<or>
          it2 = it\<lparr>inner := rest2, upper_bound := None\<rparr> \<and> (\<forall>c. cut_of U < c \<longrightarrow> hi_cut u \<le> c)"
        using overlap_max_bound_upper [OF U, of "it\<lparr>inner := rest2\<rparr>" u] less.prems(5,6) by auto
      have nx: "overlap_next it = Inr (Some (b, h), it2)"
        using dm du by (simp add: overlap_next_def less.prems(1) es L)
      have sp: "span b h = {c. cut_of L \<le> c \<and> c < hi_cut u \<and> (c < cut_of U \<or> overshoots u U \<and> c = cut_of U)}"
        using b h overshoots_span [of u U "cut_of L"] overshoots_cut [of u U]
        by (auto simp: span_def split: if_splits)
      have ge: "cut_of U < c" if "inside False rest2 c" for c
        using that Ur by (cases rest2) (auto split: if_splits)
      have ins: "inside False es c \<longleftrightarrow> cut_of L \<le> c \<and> c < cut_of U \<or> inside False rest2 c" for c
        using ge [of c] LU by (auto simp: es L Ul)
      have ov: "(\<exists>x\<in>set es. overshoots u x \<and> c = cut_of x) \<longleftrightarrow>
          overshoots u U \<and> c = cut_of U \<or> (\<exists>x\<in>set rest2. overshoots u x \<and> c = cut_of x)" for c
        using L overshoots_cut [of u L] by (auto simp: es)
      have spec: "overlap_spec u False es = span b h \<union> overlap_spec u False rest2"
        unfolding overlap_spec_def ins ov sp using LU by auto
      have b_h: "lo_cut b < hi_cut h" "hi_cut h \<le> hi_cut u"
        using b h True LU by auto
      from it2 show ?thesis
      proof
        assume it2: "it2 = it\<lparr>inner := rest2\<rparr> \<and> \<not> overshoots u U"
        obtain ds where ds: "overlap_collect it2 = Inr ds" "spans ds = overlap_spec u False rest2"
          "rest2 \<noteq> [] \<longrightarrow> tiles (cut_of (hd rest2)) (hi_cut u) ds" "rest2 = [] \<longrightarrow> ds = []"
          using less.hyps [of rest2 it2] rest2 less.prems(3-6) by (auto simp: es it2)
        have "tiles (cut_of (hd es)) (hi_cut u) ((b, h) # ds)"
        proof (cases "rest2 = []")
          case True
          then show ?thesis using ds(4) b b_h by (auto simp: es intro!: tiles_single)
        next
          case False
          then have "hi_cut h < cut_of (hd rest2)" using h it2 Ur by (auto simp: min_less_iff_disj)
          with False ds(3) b b_h show ?thesis by (intro tiles_Cons [of "cut_of (hd rest2)"]) (auto simp: es)
        qed
        with ds(2) spec overlap_collect_step [OF nx ds(1)] show ?thesis by (auto simp: es)
      next
        assume it2: "it2 = it\<lparr>inner := rest2, upper_bound := None\<rparr> \<and> (\<forall>c. cut_of U < c \<longrightarrow> hi_cut u \<le> c)"
        then have "overlap_collect it2 = Inr []"
          using rest2 by (intro overlap_collect_done) (cases rest2; auto simp: is_upper_def)+
        then have dc: "overlap_collect it = Inr [(b, h)]" by (rule overlap_collect_step [OF nx])
        have "overlap_spec u False rest2 = {}"
          using it2 Ur ge by (fastforce simp: overlap_spec_def dest!: overshoots_cut)
        with spec have "spans [(b, h)] = overlap_spec u False es" by simp
        moreover have "tiles (cut_of (hd es)) (hi_cut u) [(b, h)]"
          using b b_h by (intro tiles_single) (simp_all add: es)
        ultimately show ?thesis using dc by (auto simp: es)
      qed
    qed
  qed
qed

definition overlaps ::
    "'a::linorder interval_tree \<Rightarrow> 'a bound \<Rightarrow> 'a bound \<Rightarrow> tree_panic + ('a bound \<times> 'a bound) list" where
  "overlaps t s e = try_bind (get_interval_overlaps t s e) overlap_collect"

definition overshoot :: "'a::linorder interval_tree \<Rightarrow> 'a bound \<Rightarrow> 'a bound \<Rightarrow> 'a cut set" where
  "overshoot t s e =
     {c. lo_cut s < c \<and> (\<exists>v. e = Included v \<and> c = Before v \<and> UpperExclusive v \<in> set (bound_set t))}"

lemma overshoots_iff: "overshoots u x \<longleftrightarrow> (\<exists>v. u = Included v \<and> x = UpperExclusive v)"
  by (cases u; cases x) auto

lemma upper_not_NegInf: "is_upper x \<Longrightarrow> NegInf \<noteq> cut_of x"
  by (cases x) (auto simp: is_upper_def)

lemma overlaps_correct:
  assumes inv: "tree_inv t" and rng: "lo_cut s < hi_cut e" and bnd: "e \<noteq> Unbounded"
  shows "\<exists>ds. overlaps t s e = Inr ds \<and> spans ds = span s e \<inter> cover t \<union> overshoot t s e \<and>
    tiles (lo_cut s) (hi_cut e) ds"
proof -
  let ?P = "\<lambda>x. lo_cut s < cut_of x"
  define es where "es = filter ?P (bound_set t)"
  obtain m where m: "alternates m es False" "sorted_wrt cut_less es"
    "\<forall>c. lo_cut s \<le> c \<longrightarrow> inside False (bound_set t) c = inside m es c"
    unfolding es_def by (rule split_at_cut [of t s ?P, OF inv]; (assumption | blast)?)
  let ?it = "\<lparr>lower_bound = Some s, upper_bound = Some e, inner = es\<rparr>"
  have "above_start (Excluded (case s of Included v \<Rightarrow> UpperExclusive v
        | Excluded v \<Rightarrow> UpperInclusive v | Unbounded \<Rightarrow> LowerUnbounded)) = ?P"
    using upper_not_NegInf by (cases s) (auto simp: fun_eq_iff less_endpoint_iff)
  then have get: "overlaps t s e = overlap_collect ?it"
    using check_range_cuts [of s e "(s, e)"] rng
    by (simp add: overlaps_def get_interval_overlaps_def es_def bts_range_from)
  have gt: "\<forall>x\<in>set es. lo_cut s < cut_of x" by (simp add: es_def)
  then have nl: "\<forall>x\<in>set es. x \<noteq> LowerUnbounded" by fastforce
  have "(\<exists>x\<in>set es. overshoots e x \<and> c = cut_of x) \<longleftrightarrow> c \<in> overshoot t s e" for c
    by (auto simp: es_def overshoots_iff overshoot_def)
  moreover have "c < hi_cut e" if "c \<in> overshoot t s e" for c
    using that by (auto simp: overshoot_def less_cut_def)
  ultimately have cov: "span s e \<inter> cover t \<union> overshoot t s e = {c. lo_cut s \<le> c} \<inter> overlap_spec e m es"
    using m(3) by (auto simp: span_def cover_def overlap_spec_def overshoot_def)
  show ?thesis
  proof (cases m)
    case False
    obtain ds where ds: "overlap_collect ?it = Inr ds" "spans ds = overlap_spec e False es"
      "es \<noteq> [] \<longrightarrow> tiles (cut_of (hd es)) (hi_cut e) ds" "es = [] \<longrightarrow> ds = []"
      using overlap_collect_loop [of ?it es e] m(1,2) nl bnd False by auto
    have "lo_cut s \<le> c" if "c \<in> overlap_spec e False es" for c
      using that gt by (cases es) (auto simp: overlap_spec_def split: if_splits)
    then have "spans ds = span s e \<inter> cover t \<union> overshoot t s e"
      unfolding cov ds(2) using False by auto
    moreover have "tiles (lo_cut s) (hi_cut e) ds"
      using ds(3,4) gt by (cases es) (auto simp: tiles_def intro: order.trans less_imp_le)
    ultimately show ?thesis unfolding get using ds(1) by blast
  next
    case True
    then obtain U rest where es: "es = U # rest" and U: "is_upper U" "\<not> is_lower U" and rest: "alternates False rest False"
      using m(1) by (cases es) (auto simp: is_upper_def)
    let ?it1 = "\<lparr>lower_bound = None, upper_bound = Some e, inner = rest\<rparr>"
    obtain h it2 where du: "overlap_max_bound ?it1 (as_bound U) = (Some h, it2)"
      and h: "hi_cut h = (if overshoots e U then hi_cut e else min (cut_of U) (hi_cut e))"
      and it2: "it2 = ?it1 \<and> \<not> overshoots e U \<or>
        it2 = ?it1\<lparr>upper_bound := None\<rparr> \<and> (\<forall>c. cut_of U < c \<longrightarrow> hi_cut e \<le> c)"
      using overlap_max_bound_upper [OF U(1), of ?it1 e] bnd by fastforce
    have nx: "overlap_next ?it = Inr (Some (s, h), it2)"
      using du by (simp add: overlap_next_def es U)
    have sU: "lo_cut s < cut_of U" and Ur: "\<forall>x\<in>set rest. cut_of U < cut_of x"
      using gt m(2) by (auto simp: es cut_less_def)
    have sp: "span s h = {c. lo_cut s \<le> c \<and> c < hi_cut e \<and> (c < cut_of U \<or> overshoots e U \<and> c = cut_of U)}"
      using h overshoots_span [of e U "lo_cut s"] overshoots_cut [of e U]
      by (auto simp: span_def split: if_splits)
    have ge: "cut_of U < c" if "inside False rest c" for c
      using that Ur by (cases rest) (auto split: if_splits)
    have ins: "inside m es c \<longleftrightarrow> c < cut_of U \<or> inside False rest c" for c
      using ge [of c] True by (auto simp: es U)
    have ov: "(\<exists>x\<in>set es. overshoots e x \<and> c = cut_of x) \<longleftrightarrow>
        overshoots e U \<and> c = cut_of U \<or> (\<exists>x\<in>set rest. overshoots e x \<and> c = cut_of x)" for c
      by (auto simp: es)
    have "lo_cut s \<le> c" if "inside False rest c \<or> (\<exists>x\<in>set rest. overshoots e x \<and> c = cut_of x)" for c
      using that ge [of c] sU Ur by fastforce
    then have spec: "{c. lo_cut s \<le> c} \<inter> overlap_spec e m es = span s h \<union> overlap_spec e False rest"
      unfolding overlap_spec_def ins ov sp using sU by auto
    have s_h: "lo_cut s < hi_cut h" "hi_cut h \<le> hi_cut e"
      using h rng sU by auto
    from it2 show ?thesis
    proof
      assume it2: "it2 = ?it1 \<and> \<not> overshoots e U"
      obtain ds where ds: "overlap_collect it2 = Inr ds" "spans ds = overlap_spec e False rest"
        "rest \<noteq> [] \<longrightarrow> tiles (cut_of (hd rest)) (hi_cut e) ds" "rest = [] \<longrightarrow> ds = []"
        using overlap_collect_loop [of it2 rest e] rest m(2) nl bnd by (auto simp: es it2)
      have "tiles (lo_cut s) (hi_cut e) ((s, h) # ds)"
      proof (cases "rest = []")
        case True
        then show ?thesis using ds(4) s_h by (auto intro!: tiles_single)
      next
        case False
        then have "hi_cut h < cut_of (hd rest)" using h it2 Ur by (auto simp: min_less_iff_disj)
        with False ds(3) s_h show ?thesis by (intro tiles_Cons [of "cut_of (hd rest)"]) auto
      qed
      moreover have "spans ((s, h) # ds) = span s e \<inter> cover t \<union> overshoot t s e"
        unfolding cov spec spans_simps ds(2) ..
      ultimately show ?thesis unfolding get using overlap_collect_step [OF nx ds(1)] by blast
    next
      assume it2: "it2 = ?it1\<lparr>upper_bound := None\<rparr> \<and> (\<forall>c. cut_of U < c \<longrightarrow> hi_cut e \<le> c)"
      then have "overlap_collect it2 = Inr []"
        using rest by (intro overlap_collect_done) (cases rest; auto simp: is_upper_def)+
      then have dc: "overlap_collect ?it = Inr [(s, h)]" by (rule overlap_collect_step [OF nx])
      have "overlap_spec e False rest = {}"
        using it2 Ur ge by (fastforce simp: overlap_spec_def dest!: overshoots_cut)
      then have "spans [(s, h)] = span s e \<inter> cover t \<union> overshoot t s e"
        unfolding cov spec by simp
      moreover have "tiles (lo_cut s) (hi_cut e) [(s, h)]"
        using s_h by (intro tiles_single) simp_all
      ultimately show ?thesis unfolding get using dc by blast
    qed
  qed
qed

lemma overlaps_unbounded:
  assumes rng: "lo_cut s < PosInf" and nu: "UpperUnbounded \<notin> set (bound_set t)"
  shows "overlaps t s Unbounded = Inr []"
proof -
  define es where "es = bts_range (Excluded (case s of Included v \<Rightarrow> UpperExclusive v
        | Excluded v \<Rightarrow> UpperInclusive v | Unbounded \<Rightarrow> LowerUnbounded)) Unbounded (bound_set t)"
  let ?it = "\<lparr>lower_bound = Some s, upper_bound = Some Unbounded, inner = es\<rparr>"
  have get: "overlaps t s Unbounded = overlap_collect ?it"
    using check_range_cuts [of s Unbounded "(s, Unbounded)"] rng
    by (simp add: overlaps_def get_interval_overlaps_def es_def)
  have "\<forall>x\<in>set es. x \<noteq> UpperUnbounded \<and> x \<noteq> LowerUnbounded"
    using nu by (cases s) (auto simp: es_def bts_range_def range_contains_def less_endpoint_iff is_upper_def)
  then have b: "\<forall>x\<in>set es. as_bound x \<noteq> Unbounded"
    by (auto elim: as_bound.elims)
  show ?thesis
  proof (cases es)
    case Nil
    then show ?thesis
      unfolding get by (subst overlap_collect.simps) (simp add: overlap_next_def)
  next
    case (Cons x rest)
    have "as_bound x \<noteq> Unbounded" using b Cons by simp
    then have "overlap_max_bound it (as_bound x) = (None, it)" if "upper_bound it = Some Unbounded" for it
      using that by (cases "as_bound x") (simp_all add: overlap_max_bound.simps)
    then show ?thesis
      unfolding get by (subst overlap_collect.simps) (simp add: overlap_next_def Cons Let_def)
  qed
qed

subsection \<open>All intervals of a tree\<close>

lemma bound_cuts [simp]:
  "is_lower x \<Longrightarrow> lo_cut (as_bound x) = cut_of x"
  "is_upper x \<Longrightarrow> hi_cut (as_bound x) = cut_of x"
  by (cases x; simp add: is_upper_def)+

lemma intervals_from_correct:
  assumes "alternates False es False" "sorted_wrt cut_less es"
  shows "spans (intervals_from None es) = {c. inside False es c} \<and>
    (es \<noteq> [] \<longrightarrow> tiles (cut_of (hd es)) PosInf (intervals_from None es))"
  using assms
proof (induction "length es" arbitrary: es rule: less_induct)
  case less
  show ?case
  proof (cases es)
    case Nil
    then show ?thesis by simp
  next
    case (Cons L rest)
    then obtain U rest2 where es: "es = L # U # rest2" and L: "is_lower L" and U: "is_upper U" "\<not> is_lower U"
      and rest2: "alternates False rest2 False"
      using less.prems(1) by (cases rest) (auto simp: is_upper_def)
    have LU: "cut_of L < cut_of U" and Ur: "\<forall>x\<in>set rest2. cut_of U < cut_of x"
      using less.prems(2) by (auto simp: es cut_less_def)
    have IH: "spans (intervals_from None rest2) = {c. inside False rest2 c}"
      "rest2 \<noteq> [] \<longrightarrow> tiles (cut_of (hd rest2)) PosInf (intervals_from None rest2)"
      using less.hyps [of rest2] less.prems(2) rest2 by (auto simp: es)
    have ge: "cut_of U < c" if "inside False rest2 c" for c
      using that Ur by (cases rest2) (auto split: if_splits)
    have ins: "inside False es c \<longleftrightarrow> cut_of L \<le> c \<and> c < cut_of U \<or> inside False rest2 c" for c
      using ge [of c] LU by (auto simp: es L U)
    have "spans (intervals_from None es) = {c. inside False es c}"
      unfolding ins by (auto simp: es IH(1) span_def L U)
    moreover have "tiles (cut_of (hd es)) PosInf (intervals_from None es)"
    proof (cases "rest2 = []")
      case True
      then show ?thesis using LU L U by (simp add: es tiles_single)
    next
      case False
      then show ?thesis
        using tiles_Cons [OF IH(2) [rule_format, OF False], of "cut_of L" "as_bound L" "as_bound U"]
          LU L U Ur by (simp add: es)
    qed
    ultimately show ?thesis by simp
  qed
qed

subsection \<open>Properties of the iterators\<close>

text \<open>
  C17. \<open>get_interval_difference\<close>, run to its end, never panics on a non-empty range and yields the
  part of the range that the tree does not cover: non-empty intervals in ascending order, with a
  gap between any two, whose union is the range without the cover.
\<close>

theorem difference_exact:
  assumes "tree_inv t" and "lo_cut s < hi_cut e"
  shows "\<exists>ds. difference t s e = Inr ds \<and> spans ds = span s e - cover t \<and>
    tiles (lo_cut s) (hi_cut e) ds"
  using assms by (rule difference_correct)

theorem difference_exact_witness:
  "difference sample_tree (Included 1) (Included 12) =
     Inr [(Included 1, Excluded 5), (Included 9, Excluded 12)] \<and>
   spans [(Included 1, Excluded 5), (Included 9, Excluded 12)] =
     span (Included 1) (Included 12) - cover sample_tree"
proof -
  have r: "lo_cut (Included 1) < hi_cut (Included (12::int))" by (simp add: less_cut_def)
  have "difference sample_tree (Included 1) (Included 12) =
     Inr [(Included 1, Excluded 5), (Included 9, Excluded 12)]" by code_simp
  with difference_exact [OF sample_tree_inv r] show ?thesis by auto
qed

text \<open>
  C18. \<open>get_interval_overlaps\<close> on a range with an upper end yields ascending non-empty intervals
  whose union is the covered part of the range, and beyond it at most one point: when the range
  ends with \<open>Included v\<close> and a stored interval ends with \<open>Excluded v\<close>, the point \<open>v\<close> is reported
  as covered although it is not.
\<close>

theorem overlaps_bounded:
  assumes "tree_inv t" and "lo_cut s < hi_cut e" and "e \<noteq> Unbounded"
  shows "\<exists>ds. overlaps t s e = Inr ds \<and> spans ds = span s e \<inter> cover t \<union> overshoot t s e \<and>
    tiles (lo_cut s) (hi_cut e) ds"
  using assms by (rule overlaps_correct)

theorem overlaps_bounded_witness:
  "overlaps sample_tree (Included 1) (Included 9) = Inr [(Included 5, Included 9)] \<and>
   Before 9 \<in> overshoot sample_tree (Included 1) (Included 9) \<and> \<not> contains_point sample_tree 9 \<and>
   spans [(Included 5, Included 9)] =
     span (Included 1) (Included 9) \<inter> cover sample_tree \<union>
     overshoot sample_tree (Included 1) (Included 9)"
proof -
  have r: "lo_cut (Included 1) < hi_cut (Included (9::int))" by (simp add: less_cut_def)
  have "overlaps sample_tree (Included 1) (Included 9) = Inr [(Included 5, Included 9)]"
    by code_simp
  moreover have "\<not> contains_point sample_tree 9" by code_simp
  moreover have "Before 9 \<in> overshoot sample_tree (Included 1) (Included 9)"
    by (simp add: overshoot_def sample_tree_def less_cut_def)
  ultimately show ?thesis using overlaps_bounded [OF sample_tree_inv r] by auto
qed

text \<open>
  \<open>get_interval_overlaps\<close> on a range without an upper end yields nothing for a tree whose
  intervals all end, whatever they cover.
\<close>

theorem overlaps_unbounded_empty:
  assumes "UpperUnbounded \<notin> set (bound_set t)"
  shows "overlaps t (Included v) Unbounded = Inr []"
  using overlaps_unbounded [OF _ assms, of "Included v"] by (simp add: less_cut_def)

theorem overlaps_unbounded_empty_witness:
  "overlaps \<lparr>bound_set = [LowerInclusive (0::int), UpperInclusive 5]\<rparr> (Included 1) Unbounded = Inr [] \<and>
   contains_point \<lparr>bound_set = [LowerInclusive (0::int), UpperInclusive 5]\<rparr> 3"
proof -
  have "contains_point \<lparr>bound_set = [LowerInclusive (0::int), UpperInclusive 5]\<rparr> 3" by code_simp
  then show ?thesis
    using overlaps_unbounded_empty [of "\<lparr>bound_set = [LowerInclusive (0::int), UpperInclusive 5]\<rparr>" 1]
    by simp
qed

text \<open>
  C19. \<open>intervals\<close> lists the tree: ascending non-empty intervals with a gap between any two, whose
  union is the cover.
\<close>

theorem intervals_exact:
  assumes "tree_inv t"
  shows "spans (intervals t) = cover t \<and> tiles NegInf PosInf (intervals t)"
proof -
  have "spans (intervals t) = cover t"
    "bound_set t \<noteq> [] \<longrightarrow> tiles (cut_of (hd (bound_set t))) PosInf (intervals t)"
    using intervals_from_correct [of "bound_set t"] assms
    by (auto simp: tree_inv_def intervals_def cover_def)
  then show ?thesis
    by (cases "bound_set t = []") (auto simp: tiles_def intervals_def)
qed

theorem intervals_exact_witness:
  "intervals sample_tree = [(Included 5, Excluded 9), (Included 12, Unbounded)] \<and>
   spans [(Included 5, Excluded 9), (Included 12, Unbounded)] = cover sample_tree"
proof -
  have "intervals sample_tree = [(Included 5, Excluded 9), (Included 12, Unbounded)]"
    by (simp add: intervals_def sample_tree_def)
  then show ?thesis using intervals_exact [OF sample_tree_inv] by simp
qed

end
