(* ===== verification/IntervalSet.thy ===== *)
theory IntervalSet
  imports IntervalIterators
begin

section \<open>The interface of an interval set\<close>

text \<open>
  What the clients of \<open>IntervalTreeSet\<close> (\<open>PartialMap\<close>, and through it the readers and the
  dataflow state) rely on: insertion and removal of a range, the two membership queries and the
  difference iterator, with their laws over the set of covered cuts. The lemmas of the locale
  translate the laws into statements on single keys; the interpretation at the end discharges the
  laws for the tree.
\<close>

lemma span_points: "Before p \<in> span s e \<longleftrightarrow> range_contains s e p"
  by (cases s; cases e) (auto simp: span_def range_contains_def less_eq_cut_def less_cut_def)

lemma point_span: "span (Included p) (Included p) = {Before p}"
proof -
  have "c = Before p" if "Before p \<le> c" "c < After p" for c
    using that by (cases c) (auto simp: less_eq_cut_def less_cut_def)
  then show ?thesis by (auto simp: span_def less_cut_def)
qed

lemma point_range: "lo_cut (Included p) < hi_cut (Included p)"
  by (simp add: less_cut_def)

lemma spans_points: "Before p \<in> spans ds \<longleftrightarrow> (\<exists>(a, b)\<in>set ds. range_contains a b p)"
  by (induction ds) (auto simp: span_points)

locale interval_set =
  fixes empty :: "'t"
    and ins :: "'t \<Rightarrow> 'a::linorder bound \<Rightarrow> 'a bound \<Rightarrow> 'p + 't"
    and rem :: "'t \<Rightarrow> 'a bound \<Rightarrow> 'a bound \<Rightarrow> 'p + 't"
    and mem :: "'t \<Rightarrow> 'a \<Rightarrow> bool"
    and cov :: "'t \<Rightarrow> 'a bound \<Rightarrow> 'a bound \<Rightarrow> 'p + bool"
    and diff :: "'t \<Rightarrow> 'a bound \<Rightarrow> 'a bound \<Rightarrow> 'p + ('a bound \<times> 'a bound) list"
    and inv :: "'t \<Rightarrow> bool"
    and set_of :: "'t \<Rightarrow> 'a cut set"
  assumes empty_inv: "inv empty" and empty_set: "set_of empty = {}"
    and ins_law: "\<lbrakk>inv t; lo_cut s < hi_cut e\<rbrakk> \<Longrightarrow>
      \<exists>t'. ins t s e = Inr t' \<and> inv t' \<and> set_of t' = set_of t \<union> span s e"
    and rem_law: "\<lbrakk>inv t; lo_cut s < hi_cut e\<rbrakk> \<Longrightarrow>
      \<exists>t'. rem t s e = Inr t' \<and> inv t' \<and> set_of t' = set_of t - span s e"
    and bad_range: "\<not> lo_cut s < hi_cut e \<Longrightarrow> \<exists>p. ins t s e = Inl p"
      "\<not> lo_cut s < hi_cut e \<Longrightarrow> \<exists>p. rem t s e = Inl p"
    and mem_law: "inv t \<Longrightarrow> mem t p \<longleftrightarrow> Before p \<in> set_of t"
    and cov_law: "\<lbrakk>inv t; lo_cut s < hi_cut e\<rbrakk> \<Longrightarrow> cov t s e = Inr (span s e \<subseteq> set_of t)"
    and diff_law: "\<lbrakk>inv t; lo_cut s < hi_cut e\<rbrakk> \<Longrightarrow>
      \<exists>ds. diff t s e = Inr ds \<and> spans ds = span s e - set_of t \<and> tiles (lo_cut s) (hi_cut e) ds"
begin

lemma ins_point:
  assumes "inv t"
  obtains t' where "ins t (Included p) (Included p) = Inr t'" "inv t'"
    "set_of t' = insert (Before p) (set_of t)" "\<And>q. mem t' q \<longleftrightarrow> q = p \<or> mem t q"
  using ins_law [OF assms point_range, of p] assms unfolding point_span by (auto simp: mem_law)

lemma rem_point:
  assumes "inv t"
  obtains t' where "rem t (Included p) (Included p) = Inr t'" "inv t'"
    "set_of t' = set_of t - {Before p}" "\<And>q. mem t' q \<longleftrightarrow> q \<noteq> p \<and> mem t q"
  using rem_law [OF assms point_range, of p] assms unfolding point_span by (auto simp: mem_law)

lemma ins_range_mem:
  assumes "inv t" "ins t s e = Inr t'"
  shows "mem t' q \<longleftrightarrow> range_contains s e q \<or> mem t q"
proof (cases "lo_cut s < hi_cut e")
  case True
  from ins_law [OF assms(1) this] assms show ?thesis by (auto simp: mem_law span_points)
next
  case False
  from bad_range(1) [OF this, of t] assms(2) show ?thesis by auto
qed

lemma diff_nonempty_spans:
  assumes "tiles lo hi ds" "spans ds = {}"
  shows "ds = []"
  using assms by (cases ds) (auto simp: tiles_def span_def)

text \<open>A range without missing parts is a covered range.\<close>

lemma diff_empty_iff:
  assumes "inv t" "lo_cut s < hi_cut e"
  shows "diff t s e = Inr [] \<longleftrightarrow> cov t s e = Inr True"
proof -
  obtain ds where ds: "diff t s e = Inr ds" "spans ds = span s e - set_of t" "tiles (lo_cut s) (hi_cut e) ds"
    using diff_law [OF assms] by (elim exE conjE)
  have "ds = [] \<longleftrightarrow> span s e \<subseteq> set_of t"
    using ds(2) diff_nonempty_spans [OF ds(3)] by auto
  with ds(1) show ?thesis by (simp add: cov_law [OF assms])
qed

text \<open>The missing parts hold exactly the keys of the range that are not members.\<close>

lemma diff_points:
  assumes "inv t" "diff t s e = Inr ds" "lo_cut s < hi_cut e"
  shows "(\<exists>(a, b)\<in>set ds. range_contains a b p) \<longleftrightarrow> range_contains s e p \<and> \<not> mem t p"
  unfolding spans_points [symmetric] unfolding span_points [symmetric] mem_law [OF assms(1)]
  using diff_law [OF assms(1,3)] assms(2) by (elim exE conjE) simp

end

lemma range_panics:
  assumes "\<not> lo_cut s < hi_cut e"
  shows "\<exists>p. insert_interval t s e = Inl p" "\<exists>p. remove_interval t s e = Inl p"
  using pair_panics [OF assms] by (auto simp: insert_interval_def remove_interval_def)

interpretation its: interval_set tree_default insert_interval remove_interval contains_point
  covers_interval difference tree_inv cover
proof unfold_locales
  show "tree_inv tree_default" "cover tree_default = {}"
    by (simp_all add: tree_inv_def tree_default_def cover_def)
qed (rule insert_interval_correct remove_interval_correct range_panics contains_point_correct
    covers_interval_correct difference_correct; assumption)+

end
