(* ===== verification/BTreeMap.thy ===== *)
theory BTreeMap
  imports Prelude
begin

section \<open>Ordered maps\<close>

text \<open>
  \<open>std::collections::BTreeMap\<close>, modelled by its iteration order: an association list with
  strictly ascending keys. The locale \<open>finite_map_ops\<close> is the contract that the clients use;
  its interpretation shows it for the list operations.
\<close>

fun btm_insert :: "'k::linorder \<Rightarrow> 'v \<Rightarrow> ('k \<times> 'v) list \<Rightarrow> ('k \<times> 'v) list" where
  "btm_insert k v [] = [(k, v)]"
| "btm_insert k v ((k', v') # m) =
     (if k < k' then (k, v) # (k', v') # m
      else if k = k' then (k', v) # m
      else (k', v') # btm_insert k v m)"

definition btm_get :: "('k \<times> 'v) list \<Rightarrow> 'k \<Rightarrow> 'v option" where
  "btm_get m k = map_of m k"

definition btm_remove :: "'k \<Rightarrow> ('k \<times> 'v) list \<Rightarrow> ('k \<times> 'v) list" where
  "btm_remove k m = filter (\<lambda>(k', _). k' \<noteq> k) m"

definition btm_range :: "'k::linorder bound \<Rightarrow> 'k bound \<Rightarrow> ('k \<times> 'v) list \<Rightarrow> ('k \<times> 'v) list" where
  "btm_range s e m = filter (\<lambda>(k, _). range_contains s e k) m"

definition btm_inv :: "('k::linorder \<times> 'v) list \<Rightarrow> bool" where
  "btm_inv m = sorted_wrt (<) (map fst m)"

locale finite_map_ops =
  fixes get :: "'m \<Rightarrow> 'k \<Rightarrow> 'v option"
    and put :: "'k \<Rightarrow> 'v \<Rightarrow> 'm \<Rightarrow> 'm"
    and del :: "'k \<Rightarrow> 'm \<Rightarrow> 'm"
    and inv :: "'m \<Rightarrow> bool"
  assumes get_put: "inv m \<Longrightarrow> get (put k v m) = (get m)(k \<mapsto> v)"
    and get_del: "inv m \<Longrightarrow> get (del k m) = (get m)(k := None)"
    and inv_put: "inv m \<Longrightarrow> inv (put k v m)"
    and inv_del: "inv m \<Longrightarrow> inv (del k m)"
begin

text \<open>Inserting a sequence of pairs: the last pair for a key wins.\<close>

lemma put_all:
  assumes "inv m"
  shows "inv (fold (\<lambda>(k, v). put k v) kvs m) \<and>
    get (fold (\<lambda>(k, v). put k v) kvs m) = get m ++ map_of (rev kvs)"
  using assms
proof (induction kvs arbitrary: m)
  case Nil
  then show ?case by simp
next
  case (Cons kv kvs)
  obtain k v where kv: "kv = (k, v)" by fastforce
  show ?case
    using Cons.IH [OF inv_put [OF Cons.prems, of k v]] Cons.prems
    by (auto simp: kv get_put fun_eq_iff map_add_def split: option.splits)
qed

end

lemma btm_get_simps [simp]:
  "btm_get [] k = None"
  "btm_get ((k', v) # m) k = (if k = k' then Some v else btm_get m k)"
  by (auto simp: btm_get_def)

lemma btm_inv_simps [simp]:
  "btm_inv []"
  "btm_inv (kv # m) \<longleftrightarrow> (\<forall>k'\<in>fst ` set m. fst kv < k') \<and> btm_inv m"
  by (auto simp: btm_inv_def)

lemma btm_inv_distinct: "btm_inv m \<Longrightarrow> distinct (map fst m)"
  by (induction m) auto

lemma btm_inv_filter: "btm_inv m \<Longrightarrow> btm_inv (filter P m)"
  by (induction m) auto

lemma btm_get_iff: "btm_inv m \<Longrightarrow> btm_get m k = Some v \<longleftrightarrow> (k, v) \<in> set m"
  by (simp add: btm_get_def btm_inv_distinct)

lemma btm_get_filter:
  "btm_inv m \<Longrightarrow> btm_get (filter (\<lambda>(k, _). P k) m) k = (if P k then btm_get m k else None)"
  by (induction m) (auto simp: btm_get_def)

lemma fst_btm_insert: "fst ` set (btm_insert k v m) = insert k (fst ` set m)"
  by (induction k v m rule: btm_insert.induct) auto

lemma btm_insert_inv: "btm_inv m \<Longrightarrow> btm_inv (btm_insert k v m)"
proof (induction k v m rule: btm_insert.induct)
  case (1 k v)
  then show ?case by simp
next
  case (2 k v k' v' m)
  then show ?case by (simp only: btm_insert.simps btm_inv_simps fst_btm_insert split: if_split) auto
qed

lemma btm_insert_get: "btm_inv m \<Longrightarrow> btm_get (btm_insert k v m) = (btm_get m)(k \<mapsto> v)"
proof (induction k v m rule: btm_insert.induct)
  case (1 k v)
  then show ?case by auto
next
  case (2 k v k' v' m)
  then show ?case by (auto simp: fun_eq_iff)
qed

interpretation btm: finite_map_ops btm_get btm_insert btm_remove btm_inv
  by unfold_locales
     (simp_all add: btm_insert_get btm_insert_inv btm_remove_def btm_get_filter btm_inv_filter fun_eq_iff)

end
