(* ===== verification/PartialMapProps.thy ===== *)
theory PartialMapProps
  imports PartialMap
begin

section \<open>Correctness of the partial map\<close>

text \<open>
  The abstract partial map is the set of covered cuts together with the stored values. The
  mutating operations are collected in one step function, with their results, and simulate the
  abstract step; the queries are exact on every reachable map.
\<close>

subsection \<open>The abstract map\<close>

record ('k, 'v) pm_spec =
  present :: "'k cut set"
  stored :: "'k \<Rightarrow> 'v option"

definition pm_abs :: "('k::linorder, 'v) partial_map \<Rightarrow> ('k, 'v) pm_spec" where
  "pm_abs m = \<lparr>present = cover (itree m), stored = btm_get (kv m)\<rparr>"

definition pm_inv :: "'v \<Rightarrow> ('k::linorder, 'v) partial_map \<Rightarrow> bool" where
  "pm_inv dflt m =
     (tree_inv (itree m) \<and> btm_inv (kv m) \<and> empty_value m = dflt \<and>
      (\<forall>k v. btm_get (kv m) k = Some v \<longrightarrow> Before k \<in> cover (itree m)))"

definition spec_get :: "'v \<Rightarrow> ('k, 'v) pm_spec \<Rightarrow> 'k \<Rightarrow> 'v option" where
  "spec_get dflt a k =
     (if Before k \<in> present a then Some (case stored a k of None \<Rightarrow> dflt | Some v \<Rightarrow> v) else None)"

definition spec_put :: "'k \<Rightarrow> 'v \<Rightarrow> ('k, 'v) pm_spec \<Rightarrow> ('k, 'v) pm_spec" where
  "spec_put k v a = \<lparr>present = insert (Before k) (present a), stored = (stored a)(k \<mapsto> v)\<rparr>"

datatype ('k, 'v) pm_op =
    Insert 'k 'v
  | InsertRange "'k bound" "'k bound"
  | GetMut 'k
  | EntryOrDefault 'k
  | Remove 'k
  | RemoveEntry 'k
  | RemoveRange "'k bound" "'k bound"
  | Extend "('k \<times> 'v) list"
  | Clear

datatype ('k, 'v) pm_result =
    RUnit
  | RVal "'v option"
  | REntry "('k \<times> 'v) option"
  | RMap "'k \<Rightarrow> 'v option"

fun pm_step ::
    "'v \<Rightarrow> ('k::linorder, 'v) partial_map \<Rightarrow> ('k, 'v) pm_op \<Rightarrow>
     tree_panic + ('k, 'v) pm_result \<times> ('k, 'v) partial_map" where
  "pm_step dflt m (Insert k v) = try_bind (pm_insert m k v) (\<lambda>(old, m'). Inr (RVal old, m'))"
| "pm_step dflt m (InsertRange s e) = try_bind (insert_range m s e) (\<lambda>m'. Inr (RUnit, m'))"
| "pm_step dflt m (GetMut k) = (case pm_get_mut dflt m k of (v, m') \<Rightarrow> Inr (RVal v, m'))"
| "pm_step dflt m (EntryOrDefault k) =
     try_bind (or_default dflt m (pm_entry m k)) (\<lambda>(v, m'). Inr (RVal (Some v), m'))"
| "pm_step dflt m (Remove k) = try_bind (pm_remove m k) (\<lambda>(old, m'). Inr (RVal old, m'))"
| "pm_step dflt m (RemoveEntry k) = try_bind (remove_entry m k) (\<lambda>(old, m'). Inr (REntry old, m'))"
| "pm_step dflt m (RemoveRange s e) =
     try_bind (remove_range m s e) (\<lambda>(gone, m'). Inr (RMap (map_of gone), m'))"
| "pm_step dflt m (Extend kvs) = try_bind (pm_extend m kvs) (\<lambda>m'. Inr (RUnit, m'))"
| "pm_step dflt m Clear = Inr (RUnit, pm_clear m)"

fun op_valid :: "('k::linorder, 'v) pm_op \<Rightarrow> bool" where
  "op_valid (InsertRange s e) = (lo_cut s < hi_cut e)"
| "op_valid (RemoveRange s e) = (lo_cut s < hi_cut e)"
| "op_valid _ = True"

definition spec_touch :: "'v \<Rightarrow> 'k \<Rightarrow> ('k, 'v) pm_spec \<Rightarrow> ('k, 'v) pm_spec" where
  "spec_touch dflt k a = spec_put k (case stored a k of None \<Rightarrow> dflt | Some v \<Rightarrow> v) a"

fun spec_step ::
    "'v \<Rightarrow> ('k::linorder, 'v) pm_spec \<Rightarrow> ('k, 'v) pm_op \<Rightarrow> ('k, 'v) pm_result \<times> ('k, 'v) pm_spec" where
  "spec_step dflt a (Insert k v) = (RVal (stored a k), spec_put k v a)"
| "spec_step dflt a (InsertRange s e) = (RUnit, a\<lparr>present := present a \<union> span s e\<rparr>)"
| "spec_step dflt a (GetMut k) =
     (RVal (spec_get dflt a k), if Before k \<in> present a then spec_touch dflt k a else a)"
| "spec_step dflt a (EntryOrDefault k) =
     (RVal (Some (case stored a k of None \<Rightarrow> dflt | Some v \<Rightarrow> v)), spec_touch dflt k a)"
| "spec_step dflt a (Remove k) =
     (RVal (stored a k), \<lparr>present = present a - {Before k}, stored = (stored a)(k := None)\<rparr>)"
| "spec_step dflt a (RemoveEntry k) =
     (REntry (map_option (Pair k) (stored a k)),
      \<lparr>present = present a - {Before k}, stored = (stored a)(k := None)\<rparr>)"
| "spec_step dflt a (RemoveRange s e) =
     (RMap (\<lambda>k. if range_contains s e k then stored a k else None),
      \<lparr>present = present a - span s e,
       stored = (\<lambda>k. if range_contains s e k then None else stored a k)\<rparr>)"
| "spec_step dflt a (Extend kvs) = (RUnit, fold (\<lambda>(k, v). spec_put k v) kvs a)"
| "spec_step dflt a Clear = (RUnit, \<lparr>present = {}, stored = Map.empty\<rparr>)"

fun pm_run ::
    "'v \<Rightarrow> ('k::linorder, 'v) partial_map \<Rightarrow> ('k, 'v) pm_op list \<Rightarrow>
     tree_panic + ('k, 'v) pm_result list \<times> ('k, 'v) partial_map" where
  "pm_run dflt m [] = Inr ([], m)"
| "pm_run dflt m (op # ops) =
     try_bind (pm_step dflt m op)
       (\<lambda>(r, m'). try_bind (pm_run dflt m' ops) (\<lambda>(rs, m''). Inr (r # rs, m'')))"

fun spec_run ::
    "'v \<Rightarrow> ('k::linorder, 'v) pm_spec \<Rightarrow> ('k, 'v) pm_op list \<Rightarrow>
     ('k, 'v) pm_result list \<times> ('k, 'v) pm_spec" where
  "spec_run dflt a [] = ([], a)"
| "spec_run dflt a (op # ops) =
     (case spec_step dflt a op of (r, a') \<Rightarrow>
        case spec_run dflt a' ops of (rs, a'') \<Rightarrow> (r # rs, a''))"

subsection \<open>Each operation simulates the abstract one\<close>

lemma pm_invD:
  assumes "pm_inv dflt m"
  shows "tree_inv (itree m)" "btm_inv (kv m)" "empty_value m = dflt"
    "btm_get (kv m) k = Some v \<Longrightarrow> Before k \<in> cover (itree m)"
  using assms by (auto simp: pm_inv_def)

lemma pm_put:
  assumes "pm_inv dflt m"
  obtains t where "insert_point (itree m) k = Inr t"
    "pm_inv dflt (m\<lparr>itree := t, kv := btm_insert k v (kv m)\<rparr>)"
    "pm_abs (m\<lparr>itree := t, kv := btm_insert k v (kv m)\<rparr>) = spec_put k v (pm_abs m)"
proof -
  note inv = pm_invD [OF assms]
  obtain t where t: "insert_interval (itree m) (Included k) (Included k) = Inr t" "tree_inv t"
    "cover t = insert (Before k) (cover (itree m))"
    using its.ins_point [OF inv(1)] by blast
  show ?thesis
  proof
    show "insert_point (itree m) k = Inr t" by (simp add: insert_point_def t(1))
    show "pm_inv dflt (m\<lparr>itree := t, kv := btm_insert k v (kv m)\<rparr>)"
      using inv t by (auto simp: pm_inv_def btm.inv_put btm.get_put)
    show "pm_abs (m\<lparr>itree := t, kv := btm_insert k v (kv m)\<rparr>) = spec_put k v (pm_abs m)"
      using inv t by (simp add: pm_abs_def spec_put_def btm.get_put)
  qed
qed

lemma pm_delete:
  assumes "pm_inv dflt m"
  obtains t where "remove_point (itree m) k = Inr t"
    "pm_inv dflt (m\<lparr>itree := t, kv := btm_remove k (kv m)\<rparr>)"
    "pm_abs (m\<lparr>itree := t, kv := btm_remove k (kv m)\<rparr>) =
       \<lparr>present = cover (itree m) - {Before k}, stored = (btm_get (kv m))(k := None)\<rparr>"
proof -
  note inv = pm_invD [OF assms]
  obtain t where t: "remove_interval (itree m) (Included k) (Included k) = Inr t" "tree_inv t"
    "cover t = cover (itree m) - {Before k}"
    using its.rem_point [OF inv(1)] by blast
  show ?thesis
  proof
    show "remove_point (itree m) k = Inr t" by (simp add: remove_point_def t(1))
    show "pm_inv dflt (m\<lparr>itree := t, kv := btm_remove k (kv m)\<rparr>)"
      using inv t by (auto simp: pm_inv_def btm.inv_del btm.get_del)
    show "pm_abs (m\<lparr>itree := t, kv := btm_remove k (kv m)\<rparr>) =
       \<lparr>present = cover (itree m) - {Before k}, stored = (btm_get (kv m))(k := None)\<rparr>"
      using inv t by (simp add: pm_abs_def btm.get_del)
  qed
qed

text \<open>Writing the default value behind a covered key.\<close>

lemma pm_fill:
  assumes "pm_inv dflt m" "Before k \<in> cover (itree m)"
  shows "pm_inv dflt (m\<lparr>kv := btm_insert k v (kv m)\<rparr>)"
    and "pm_abs (m\<lparr>kv := btm_insert k v (kv m)\<rparr>) = spec_put k v (pm_abs m)"
  using pm_invD [OF assms(1)] assms(2)
  by (auto simp: pm_inv_def pm_abs_def spec_put_def btm.inv_put btm.get_put)

lemma spec_put_same: "stored a k = Some v \<Longrightarrow> Before k \<in> present a \<Longrightarrow> spec_put k v a = a"
  by (cases a) (auto simp: spec_put_def)

lemma pm_extend_sim:
  "pm_inv dflt m \<Longrightarrow> \<exists>m'. pm_extend m kvs = Inr m' \<and> pm_inv dflt m' \<and>
     pm_abs m' = fold (\<lambda>(k, v). spec_put k v) kvs (pm_abs m)"
proof (induction m kvs rule: pm_extend.induct)
  case (1 m)
  then show ?case by simp
next
  case (2 m k v kvs)
  obtain t where t: "insert_point (itree m) k = Inr t"
    "pm_inv dflt (m\<lparr>itree := t, kv := btm_insert k v (kv m)\<rparr>)"
    "pm_abs (m\<lparr>itree := t, kv := btm_insert k v (kv m)\<rparr>) = spec_put k v (pm_abs m)"
    using pm_put [OF 2(2)] by blast
  then show ?case using 2(1) [OF t(2)] by simp
qed

lemma pm_insert_range_sim:
  assumes "pm_inv dflt m" "lo_cut s < hi_cut e"
  shows "\<exists>m'. insert_range m s e = Inr m' \<and> pm_inv dflt m' \<and>
    pm_abs m' = (pm_abs m)\<lparr>present := cover (itree m) \<union> span s e\<rparr>"
proof -
  note inv = pm_invD [OF assms(1)]
  obtain t where t: "insert_interval (itree m) s e = Inr t" "tree_inv t" "cover t = cover (itree m) \<union> span s e"
    using its.ins_law [OF inv(1) assms(2)] by blast
  show ?thesis
    by (rule exI [of _ "m\<lparr>itree := t\<rparr>"]) (use inv t in \<open>auto simp: insert_range_def pm_inv_def pm_abs_def\<close>)
qed

lemma pm_remove_range_sim:
  assumes "pm_inv dflt m" "lo_cut s < hi_cut e"
  shows "\<exists>gone m'. remove_range m s e = Inr (gone, m') \<and> pm_inv dflt m' \<and>
    map_of gone = (\<lambda>k. if range_contains s e k then btm_get (kv m) k else None) \<and>
    pm_abs m' = \<lparr>present = cover (itree m) - span s e,
      stored = (\<lambda>k. if range_contains s e k then None else btm_get (kv m) k)\<rparr>"
proof -
  note inv = pm_invD [OF assms(1)]
  obtain t where t: "remove_interval (itree m) s e = Inr t" "tree_inv t" "cover t = cover (itree m) - span s e"
    using its.rem_law [OF inv(1) assms(2)] by blast
  let ?gone = "filter (\<lambda>(k, _). range_contains s e k) (kv m)"
  let ?m = "m\<lparr>itree := t, kv := filter (\<lambda>(k, _). \<not> range_contains s e k) (kv m)\<rparr>"
  have "map_of ?gone = (\<lambda>k. if range_contains s e k then btm_get (kv m) k else None)"
    using btm_get_filter [OF inv(2), of "range_contains s e"] by (auto simp: btm_get_def)
  moreover have kept: "btm_get (kv ?m) k = (if range_contains s e k then None else btm_get (kv m) k)" for k
    using btm_get_filter [OF inv(2), of "\<lambda>k. \<not> range_contains s e k"] by simp
  moreover have "pm_inv dflt ?m"
    using inv t kept by (auto simp: pm_inv_def btm_inv_filter span_points split: if_splits)
  ultimately show ?thesis
    by (intro exI [of _ ?gone] exI [of _ ?m]) (use t in \<open>auto simp: remove_range_def pm_abs_def\<close>)
qed

lemma abs_simps [simp]:
  "present (pm_abs m) = cover (itree m)" "stored (pm_abs m) = btm_get (kv m)"
  by (simp_all add: pm_abs_def)

lemma pm_get_mut_sim:
  assumes "pm_inv dflt m"
  shows "\<exists>m'. pm_get_mut dflt m k = (spec_get dflt (pm_abs m) k, m') \<and> pm_inv dflt m' \<and>
    pm_abs m' = (if Before k \<in> cover (itree m) then spec_touch dflt k (pm_abs m) else pm_abs m)"
proof (cases "btm_get (kv m) k")
  case None
  then show ?thesis
    using assms pm_fill [OF assms, of k dflt] its.mem_law [OF pm_invD(1) [OF assms], of k]
    by (auto simp: pm_get_mut_def spec_get_def spec_touch_def)
next
  case (Some v)
  then show ?thesis
    using assms pm_invD(4) [OF assms Some] spec_put_same [of "pm_abs m" k v]
    by (auto simp: pm_get_mut_def spec_get_def spec_touch_def)
qed

lemma pm_or_default_sim:
  assumes "pm_inv dflt m"
  shows "\<exists>m'. or_default dflt m (pm_entry m k) =
      Inr (case btm_get (kv m) k of None \<Rightarrow> dflt | Some v \<Rightarrow> v, m') \<and>
    pm_inv dflt m' \<and> pm_abs m' = spec_touch dflt k (pm_abs m)"
proof (cases "btm_get (kv m) k")
  case None
  obtain t where "insert_point (itree m) k = Inr t"
    "pm_inv dflt (m\<lparr>itree := t, kv := btm_insert k dflt (kv m)\<rparr>)"
    "pm_abs (m\<lparr>itree := t, kv := btm_insert k dflt (kv m)\<rparr>) = spec_put k dflt (pm_abs m)"
    using pm_put [OF assms] by blast
  with None show ?thesis
    using pm_fill [OF assms, of k dflt] its.mem_law [OF pm_invD(1) [OF assms], of k]
    by (cases "contains_point (itree m) k")
       (simp_all add: pm_entry_def or_default_def vacant_insert_def spec_touch_def)
next
  case (Some v)
  then show ?thesis
    using assms pm_invD(4) [OF assms Some] spec_put_same [of "pm_abs m" k v]
    by (auto simp: pm_entry_def or_default_def spec_touch_def)
qed

lemma pm_clear_sim:
  assumes "pm_inv dflt m"
  shows "pm_inv dflt (pm_clear m) \<and> pm_abs (pm_clear m) = \<lparr>present = {}, stored = Map.empty\<rparr>"
  using assms
  by (auto simp: pm_inv_def pm_clear_def tree_clear_def pm_abs_def tree_inv_def cover_def)

lemma pm_step_sim:
  assumes "pm_inv dflt m" "op_valid op"
  shows "\<exists>r m'. pm_step dflt m op = Inr (r, m') \<and> pm_inv dflt m' \<and>
    (r, pm_abs m') = spec_step dflt (pm_abs m) op"
proof (cases op)
  case (Insert k v)
  show ?thesis
    by (rule pm_put [OF assms(1), of k v]) (simp add: Insert pm_insert_def)
next
  case (InsertRange s e)
  then show ?thesis using pm_insert_range_sim [OF assms(1), of s e] assms(2) by auto
next
  case (GetMut k)
  then show ?thesis using pm_get_mut_sim [OF assms(1), of k] by auto
next
  case (EntryOrDefault k)
  then show ?thesis using pm_or_default_sim [OF assms(1), of k] by auto
next
  case (Remove k)
  show ?thesis
    by (rule pm_delete [OF assms(1), of k]) (simp add: Remove pm_remove_def)
next
  case (RemoveEntry k)
  show ?thesis
    by (rule pm_delete [OF assms(1), of k]) (simp add: RemoveEntry remove_entry_def)
next
  case (RemoveRange s e)
  then show ?thesis using pm_remove_range_sim [OF assms(1), of s e] assms(2) by (auto cong: if_cong)
next
  case (Extend kvs)
  then show ?thesis using pm_extend_sim [OF assms(1), of kvs] by auto
next
  case Clear
  then show ?thesis using pm_clear_sim [OF assms(1)] by auto
qed

lemma pm_step_panic: "\<not> op_valid op \<Longrightarrow> \<exists>p. pm_step dflt m op = Inl p"
  using its.bad_range by (cases op) (auto simp: insert_range_def remove_range_def result_simps, blast+)

lemma pm_run_sim:
  assumes "pm_inv dflt m"
  shows "case pm_run dflt m ops of
      Inl p \<Rightarrow> \<not> list_all op_valid ops
    | Inr (rs, m') \<Rightarrow> list_all op_valid ops \<and> pm_inv dflt m' \<and> (rs, pm_abs m') = spec_run dflt (pm_abs m) ops"
  using assms
proof (induction ops arbitrary: m)
  case Nil
  then show ?case by simp
next
  case (Cons op ops)
  show ?case
  proof (cases "op_valid op")
    case True
    obtain r m' where "pm_step dflt m op = Inr (r, m')" "pm_inv dflt m'"
      "spec_step dflt (pm_abs m) op = (r, pm_abs m')"
      using pm_step_sim [OF Cons.prems True] by metis
    with Cons.IH [of m'] True show ?thesis
      by (cases "pm_run dflt m' ops") (auto split: prod.splits)
  next
    case False
    with pm_step_panic [OF False, of dflt m] show ?thesis by auto
  qed
qed

lemma pm_new_inv: "pm_inv dflt (pm_new dflt)"
  by (simp add: pm_inv_def pm_new_def its.empty_inv)

lemma pm_new_abs: "pm_abs (pm_new dflt) = \<lparr>present = {}, stored = Map.empty\<rparr>"
  by (auto simp: pm_abs_def pm_new_def its.empty_set)

subsection \<open>Properties of the partial map\<close>

text \<open>
  C3. Any sequence of mutating operations on a new map behaves as the abstract partial map: it
  panics exactly when some range of it is empty or decreasing, and otherwise every result, the
  covered ranges and the stored values are the abstract ones, and the invariant holds.
\<close>

theorem partial_map_refines:
  "case pm_run dflt (pm_new dflt) ops of
      Inl p \<Rightarrow> \<not> list_all op_valid ops
    | Inr (rs, m) \<Rightarrow> list_all op_valid ops \<and> pm_inv dflt m \<and>
        (rs, pm_abs m) = spec_run dflt \<lparr>present = {}, stored = Map.empty\<rparr> ops"
  using pm_run_sim [OF pm_new_inv, of ops dflt] unfolding pm_new_abs .

text \<open>
  C20. The point queries of a well-formed map agree with each other and with the abstract map:
  a key is present exactly when it is covered, and then its value is the stored one or the default.
\<close>

theorem partial_map_lookup:
  assumes "pm_inv dflt m"
  shows "pm_get m k = spec_get dflt (pm_abs m) k \<and>
    get_key_value m k = map_option (Pair k) (pm_get m k) \<and>
    contains_key m k = (pm_get m k \<noteq> None) \<and>
    fst (pm_get_mut dflt m k) = pm_get m k"
proof -
  have "pm_get m k = spec_get dflt (pm_abs m) k"
    using its.mem_law [OF pm_invD(1) [OF assms], of k] pm_invD(3,4) [OF assms]
    by (auto simp: pm_get_def spec_get_def split: option.splits)
  moreover have "get_key_value m k = map_option (Pair k) (pm_get m k)"
    by (auto simp: get_key_value_def pm_get_def split: option.splits)
  moreover have "contains_key m k = (pm_get m k \<noteq> None)"
    by (auto simp: contains_key_def pm_get_def split: option.splits)
  moreover have "fst (pm_get_mut dflt m k) = pm_get m k"
    using pm_invD(3) [OF assms] by (auto simp: pm_get_mut_def pm_get_def split: option.splits)
  ultimately show ?thesis by simp
qed

definition sample_map :: "(int, int list) partial_map" where
  "sample_map = \<lparr>kv = [(7, [1, 2])], itree = sample_tree, empty_value = []\<rparr>"

lemma sample_map_inv: "pm_inv [] sample_map"
  by (simp add: pm_inv_def sample_map_def sample_tree_inv)
     (simp add: sample_tree_def cover_def less_cut_def)

theorem partial_map_lookup_witness:
  "pm_inv [] sample_map \<and> pm_get sample_map 7 = Some [1, 2] \<and> pm_get sample_map 8 = Some [] \<and>
   pm_get sample_map 9 = None \<and> \<not> contains_key sample_map 9"
proof -
  have "pm_get sample_map 7 = Some [1, 2]" "pm_get sample_map 8 = Some []" "pm_get sample_map 9 = None"
    by code_simp+
  then show ?thesis
    using partial_map_lookup [OF sample_map_inv, of 9] sample_map_inv by simp
qed

text \<open>
  C15. \<open>range\<close> on a non-empty range of a well-formed map never panics; it returns the stored
  entries of the range, in ascending key order, exactly when \<open>contains_range\<close> holds, and
  otherwise the missing parts, which hold exactly the keys of the range that are not present.
\<close>

theorem partial_map_range:
  assumes "pm_inv dflt m" and "lo_cut s < hi_cut e"
  shows "case pm_range m s e of
      Inl p \<Rightarrow> False
    | Inr (Inr kvs) \<Rightarrow> contains_range m s e = Inr True \<and> btm_inv kvs \<and>
        (\<forall>k. btm_get kvs k = (if range_contains s e k then btm_get (kv m) k else None))
    | Inr (Inl ds) \<Rightarrow> contains_range m s e = Inr False \<and>
        (\<forall>k. (\<exists>(a, b)\<in>set ds. range_contains a b k) \<longleftrightarrow> range_contains s e k \<and> pm_get m k = None)"
proof -
  note inv = pm_invD [OF assms(1)]
  have cov: "contains_range m s e = Inr (span s e \<subseteq> cover (itree m))"
    unfolding contains_range_def by (rule its.cov_law [OF inv(1) assms(2)])
  obtain ds where ds: "difference (itree m) s e = Inr ds"
    using its.diff_law [OF inv(1) assms(2)] by (elim exE conjE)
  then have rng: "pm_range m s e = Inr (if ds = [] then Inr (btm_range s e (kv m)) else Inl ds)"
    by (auto simp: pm_range_def difference_def result_simps)
  have "contains_range m s e = Inr (ds = [])"
    using its.diff_empty_iff [OF inv(1) assms(2)] ds cov by (auto simp: contains_range_def)
  moreover have "btm_inv (btm_range s e (kv m))"
    using inv(2) by (simp add: btm_range_def btm_inv_filter)
  moreover have "btm_get (btm_range s e (kv m)) k = (if range_contains s e k then btm_get (kv m) k else None)" for k
    unfolding btm_range_def by (rule btm_get_filter [OF inv(2)])
  moreover have "pm_get m k = None \<longleftrightarrow> \<not> contains_point (itree m) k" for k
    using its.mem_law [OF inv(1), of k] inv(4) by (auto simp: pm_get_def split: option.splits)
  ultimately show ?thesis
    using its.diff_points [OF inv(1) ds assms(2)] by (simp add: rng)
qed

theorem partial_map_range_witness:
  "pm_range sample_map (Included 6) (Included 8) = Inr (Inr [(7, [1, 2])]) \<and>
   contains_range sample_map (Included 6) (Included 8) = Inr True"
proof -
  have 1: "pm_range sample_map (Included 6) (Included 8) = Inr (Inr [(7, [1, 2])])" by code_simp
  have r: "lo_cut (Included 6) < hi_cut (Included (8::int))" by (simp add: less_cut_def)
  from partial_map_range [OF sample_map_inv r] 1 show ?thesis by simp
qed

lemma overlaps_next_iff:
  assumes "overlaps t s e = Inr ds"
  shows "try_bind (get_interval_overlaps t s e)
      (\<lambda>it. try_bind (overlap_next it) (\<lambda>(item, _). Inr (item \<noteq> None))) = Inr (ds \<noteq> [])"
proof -
  obtain it where it: "get_interval_overlaps t s e = Inr it" and ds: "overlap_collect it = Inr ds"
    using assms by (auto simp: overlaps_def result_simps)
  from ds it show ?thesis
    by (subst (asm) overlap_collect.simps) (auto simp: result_simps split: sum.splits option.splits)
qed

lemma overshoot_inside:
  assumes inv: "tree_inv t" and over: "overshoot t s e \<noteq> {}"
  shows "span s e \<inter> cover t \<noteq> {}"
proof -
  obtain v where v: "lo_cut s < Before v" "e = Included v" "UpperExclusive v \<in> set (bound_set t)"
    using over by (auto simp: overshoot_def)
  then obtain A B where AB: "bound_set t = A @ UpperExclusive v # B" by (meson split_list)
  have srt: "sorted_wrt cut_less (A @ UpperExclusive v # B)"
    and alt: "alternates False (A @ UpperExclusive v # B) False"
    using inv by (auto simp: tree_inv_def AB)
  have st: "state_after False A"
    using alt by (auto simp: alternates_append is_upper_def)
  then have ne: "A \<noteq> []" by (auto simp: state_after_def)
  let ?c = "max (lo_cut s) (cut_of (last A))"
  have le: "cut_of x \<le> cut_of (last A)" if "x \<in> set A" for x
    using that ne srt
    by (induction A rule: rev_induct) (auto simp: sorted_wrt_append cut_less_def intro: less_imp_le)
  have "cut_of (last A) < Before v" using srt ne by (auto simp: sorted_wrt_append cut_less_def)
  then have c: "?c < Before v" using v(1) by simp
  have "inside False (A @ UpperExclusive v # B) ?c = inside (state_after False A) (UpperExclusive v # B) ?c"
    using inside_append [of A "UpperExclusive v # B" False ?c] srt le by (simp add: le_max_iff_disj)
  then have "?c \<in> cover t" using st c by (simp add: cover_def AB)
  moreover have "?c \<in> span s e" using c v by (simp add: span_def less_cut_def split: cut.splits)
  ultimately show ?thesis by blast
qed

text \<open>
  C21. \<open>overlaps_range\<close> is exact on ranges with an upper end: it holds when some cut of the range
  is covered.
\<close>

theorem overlaps_range_bounded:
  assumes "pm_inv dflt m" and "lo_cut s < hi_cut e" and "e \<noteq> Unbounded"
  shows "overlaps_range m s e = Inr (span s e \<inter> cover (itree m) \<noteq> {})"
proof -
  have inv: "tree_inv (itree m)" using assms(1) by (rule pm_invD)
  obtain ds where ds: "overlaps (itree m) s e = Inr ds"
    "spans ds = span s e \<inter> cover (itree m) \<union> overshoot (itree m) s e" "tiles (lo_cut s) (hi_cut e) ds"
    using overlaps_correct [OF inv assms(2,3)] by (elim exE conjE)
  have "ds \<noteq> [] \<longleftrightarrow> spans ds \<noteq> {}"
    using its.diff_nonempty_spans [OF ds(3)] by auto
  then have "ds \<noteq> [] \<longleftrightarrow> span s e \<inter> cover (itree m) \<noteq> {}"
    unfolding ds(2) using overshoot_inside [OF inv, of s e] by blast
  then show ?thesis
    unfolding overlaps_range_def overlaps_next_iff [OF ds(1)] by simp
qed

theorem overlaps_range_bounded_witness:
  "pm_inv [] sample_map \<and> overlaps_range sample_map (Included 1) (Excluded 6) = Inr True \<and>
   span (Included 1) (Excluded 6) \<inter> cover sample_tree \<noteq> {}"
proof -
  have 1: "overlaps_range sample_map (Included 1) (Excluded 6) = Inr True" by code_simp
  have r: "lo_cut (Included 1) < hi_cut (Excluded (6::int))" by (simp add: less_cut_def)
  have t: "itree sample_map = sample_tree" by (simp add: sample_map_def)
  show ?thesis
    using overlaps_range_bounded [OF sample_map_inv r] 1 sample_map_inv unfolding t by simp
qed



end
