(* ===== verification/Tournament.thy ===== *)
theory Tournament
  imports Prelude
begin

section \<open>The k-way merge tournament\<close>

text \<open>
  The crate \<open>tournament-kway\<close> (\<open>src/tournament-kway/src\<close>): a tournament of streaming iterators
  whose game results sit in one flat vector, leaves first and the winner last. A contestant is
  the list of the items it has yet to give, the first of them its current item. The comparator
  is the parameter \<open>cmp\<close>; the two comparators of the crate are \<open>less_comparator\<close> and
  \<open>greater_comparator\<close>. Indexing a vector out of its range is a panic, the value \<open>Inl\<close>.
\<close>

datatype index_panic = IndexOutOfBounds

definition vec_index :: "'a list \<Rightarrow> nat \<Rightarrow> index_panic + 'a" where
  "vec_index xs i = (if i < length xs then Inr (xs ! i) else Inl IndexOutOfBounds)"

definition vec_set :: "'a list \<Rightarrow> nat \<Rightarrow> 'a \<Rightarrow> index_panic + 'a list" where
  "vec_set xs i x = (if i < length xs then Inr (xs[i := x]) else Inl IndexOutOfBounds)"

definition less_comparator :: "'a::linorder \<Rightarrow> 'a \<Rightarrow> ordering" where
  "less_comparator a b = rs_cmp a b"

definition greater_comparator :: "'a::linorder \<Rightarrow> 'a \<Rightarrow> ordering" where
  "greater_comparator a b = rs_cmp b a"

record 'a tournament =
  contestants :: "'a list list"
  tree :: "nat option list"

definition from_iters :: "'a list list \<Rightarrow> 'a tournament" where
  "from_iters iters = \<lparr>contestants = filter (\<lambda>it. it \<noteq> []) iters, tree = []\<rparr>"

text \<open>The current item of a contestant: \<open>contestants.get(p).and_then(|i| i.get())\<close>.\<close>

definition score :: "'a list list \<Rightarrow> nat \<Rightarrow> 'a option" where
  "score cs p = (if p < length cs then (case cs ! p of [] \<Rightarrow> None | x # _ \<Rightarrow> Some x) else None)"

definition play_game ::
    "('a \<Rightarrow> 'a \<Rightarrow> ordering) \<Rightarrow> 'a list list \<Rightarrow> nat option \<Rightarrow> nat option \<Rightarrow> nat option" where
  "play_game cmp cs p0 p1 =
     (case (Option.bind p0 (score cs), Option.bind p1 (score cs)) of
        (Some c0, Some c1) \<Rightarrow>
          let game_result = cmp c0 c1 in
          if game_result = Less \<or> game_result = Equal \<and> the p0 < the p1 then p0 else p1
      | (None, None) \<Rightarrow> None
      | (Some _, None) \<Rightarrow> p0
      | (None, Some _) \<Rightarrow> p1)"

text \<open>\<open>(0..n).step_by(2)\<close>\<close>

definition step_by2 :: "nat \<Rightarrow> nat list" where
  "step_by2 n = map ((*) 2) [0..<(n + 1) div 2]"

fun play_level ::
    "('a \<Rightarrow> 'a \<Rightarrow> ordering) \<Rightarrow> 'a list list \<Rightarrow> nat \<Rightarrow> nat \<Rightarrow> nat list \<Rightarrow> nat option list \<Rightarrow>
     index_panic + nat option list" where
  "play_level cmp cs pos games [] tr = Inr tr"
| "play_level cmp cs pos games (i # is) tr =
     try_bind (vec_index tr (pos + i))
       (\<lambda>c0. try_bind (if i + 1 \<ge> games then Inr None else vec_index tr (pos + i + 1))
          (\<lambda>c1. play_level cmp cs pos games is (tr @ [play_game cmp cs c0 c1])))"

function build_levels ::
    "('a \<Rightarrow> 'a \<Rightarrow> ordering) \<Rightarrow> 'a list list \<Rightarrow> nat \<Rightarrow> nat \<Rightarrow> nat option list \<Rightarrow>
     index_panic + nat option list" where
  "build_levels cmp cs pos games tr =
     (if games > 1
      then try_bind (play_level cmp cs pos games (step_by2 games) tr)
             (build_levels cmp cs (pos + games) ((games + 1) div 2))
      else Inr tr)"
  by pat_completeness auto
termination by (relation "measure (\<lambda>(_, _, _, games, _). games)") auto

definition build_tree ::
    "('a \<Rightarrow> 'a \<Rightarrow> ordering) \<Rightarrow> 'a tournament \<Rightarrow> index_panic + 'a tournament" where
  "build_tree cmp t =
     (if contestants t = [] then Inr t
      else
        let cs = contestants t;
            tr = tree t @ map (\<lambda>i. play_game cmp cs (Some i) (Some (i + 1))) (step_by2 (length cs))
        in try_bind (build_levels cmp cs 0 (length tr) tr) (\<lambda>tr. Inr (t\<lparr>tree := tr\<rparr>)))"

text \<open>\<open>winner ^ 1\<close>\<close>

definition xor1 :: "nat \<Rightarrow> nat" where
  "xor1 n = (if even n then n + 1 else n - 1)"

function replay ::
    "('a \<Rightarrow> 'a \<Rightarrow> ordering) \<Rightarrow> 'a list list \<Rightarrow> nat \<Rightarrow> nat \<Rightarrow> nat \<Rightarrow> nat option list \<Rightarrow>
     index_panic + nat option list" where
  "replay cmp cs pos games prev tr =
     (if games > 1
      then
        let winner = prev div 2; contestant = xor1 winner in
        try_bind (vec_index tr (pos + winner))
          (\<lambda>p0. try_bind (if contestant \<ge> games then Inr None else vec_index tr (pos + contestant))
             (\<lambda>p1. try_bind (vec_set tr (pos + games + winner div 2) (play_game cmp cs p0 p1))
                (replay cmp cs (pos + games) ((games + 1) div 2) winner)))
      else Inr tr)"
  by pat_completeness auto
termination by (relation "measure (\<lambda>(_, _, _, games, _, _). games)") auto

text \<open>A contestant that has run out stays so: the library's iterators are fused.\<close>

definition tournament_advance ::
    "('a \<Rightarrow> 'a \<Rightarrow> ordering) \<Rightarrow> 'a tournament \<Rightarrow> index_panic + 'a tournament" where
  "tournament_advance cmp t =
     (if tree t = [] then build_tree cmp t
      else
        case last (tree t) of
          None \<Rightarrow> Inr t
        | Some winner \<Rightarrow>
            try_bind (vec_index (contestants t) winner)
              (\<lambda>it. let cs = (contestants t)[winner := tl it] in
                 try_bind (vec_set (tree t) (winner div 2)
                            (play_game cmp cs (Some winner) (Some (xor1 winner))))
                   (\<lambda>tr. try_bind (replay cmp cs 0 ((length cs + 1) div 2) winner tr)
                      (\<lambda>tr. Inr \<lparr>contestants = cs, tree = tr\<rparr>))))"

definition tournament_get :: "'a tournament \<Rightarrow> index_panic + 'a option" where
  "tournament_get t =
     (if tree t = [] then Inr None
      else
        case last (tree t) of
          None \<Rightarrow> Inr None
        | Some i \<Rightarrow>
            try_bind (vec_index (contestants t) i)
              (\<lambda>it. Inr (case it of [] \<Rightarrow> None | x # _ \<Rightarrow> Some x)))"

text \<open>The sizes that the contestants announce are the parameter \<open>hint\<close>.\<close>

definition size_hint :: "('a list \<Rightarrow> nat \<times> nat option) \<Rightarrow> 'a tournament \<Rightarrow> nat \<times> nat option" where
  "size_hint hint t =
     fold (\<lambda>i (lower, upper).
             case hint i of (l, u) \<Rightarrow>
               (lower + l,
                case (upper, u) of (Some u1, Some u2) \<Rightarrow> Some (u1 + u2) | _ \<Rightarrow> None))
       (contestants t) (0, Some 0)"

text \<open>The first \<open>n\<close> items of the tournament: \<open>advance\<close> and \<open>get\<close> until the end.\<close>

fun tournament_take :: "('a \<Rightarrow> 'a \<Rightarrow> ordering) \<Rightarrow> nat \<Rightarrow> 'a tournament \<Rightarrow> index_panic + 'a list" where
  "tournament_take cmp 0 t = Inr []"
| "tournament_take cmp (Suc n) t =
     try_bind (tournament_advance cmp t)
       (\<lambda>t. try_bind (tournament_get t)
          (\<lambda>item. case item of
             None \<Rightarrow> Inr []
           | Some x \<Rightarrow> try_bind (tournament_take cmp n t) (\<lambda>xs. Inr (x # xs))))"

declare build_levels.simps [simp del] replay.simps [simp del]

subsection \<open>Comparators\<close>

text \<open>What a comparator promises: a total preorder.\<close>

locale comparator =
  fixes cmp :: "'a \<Rightarrow> 'a \<Rightarrow> ordering"
  assumes cmp_sym: "cmp b a = ord_reverse (cmp a b)"
    and cmp_trans: "\<lbrakk>cmp a b \<noteq> Greater; cmp b c \<noteq> Greater\<rbrakk> \<Longrightarrow> cmp a c \<noteq> Greater"
begin

lemma cmp_refl: "cmp a a = Equal"
  using cmp_sym [of a a] by (cases "cmp a a") auto

lemma cmp_swap: "cmp a b = Equal \<longleftrightarrow> cmp b a = Equal" "cmp a b = Less \<longleftrightarrow> cmp b a = Greater"
  using cmp_sym [of a b] by (cases "cmp b a"; simp)+

lemma cmp_equal_trans: "cmp a b = Equal \<Longrightarrow> cmp b c = Equal \<Longrightarrow> cmp a c = Equal"
  using cmp_trans [of a b c] cmp_trans [of c b a] cmp_swap
  by (metis ordering.distinct(5) ordering.exhaust)

lemma cmp_less_trans:
  assumes "cmp a b = Less" "cmp b c \<noteq> Greater"
  shows "cmp a c = Less"
proof -
  have "cmp a c \<noteq> Greater" using cmp_trans [of a b c] assms by auto
  moreover have "cmp a c \<noteq> Equal"
    using cmp_trans [of b c a] assms cmp_swap by (metis ordering.distinct(1,5))
  ultimately show ?thesis by (cases "cmp a c") auto
qed

end

interpretation less_cmp: comparator less_comparator
  by unfold_locales (auto simp: less_comparator_def rs_cmp_def split: if_splits)

interpretation greater_cmp: comparator greater_comparator
  by unfold_locales (auto simp: greater_comparator_def rs_cmp_def split: if_splits)

end
