(* ===== verification/TournamentProps.thy ===== *)
theory TournamentProps
  imports Tournament
begin

section \<open>Correctness of the tournament\<close>

text \<open>
  The flat vector is the concatenation of the levels of a game tree. The replay after an advance
  gives the vector that building the tree anew would give, so the last entry is always the
  leftmost contestant with a least current item, and the items come out as the stable merge of
  the contestants.
\<close>

subsection \<open>Levels\<close>

definition next_level :: "(nat option \<Rightarrow> nat option \<Rightarrow> nat option) \<Rightarrow> nat option list \<Rightarrow> nat option list" where
  "next_level play xs =
     map (\<lambda>i. play (xs ! (2 * i)) (if 2 * i + 1 < length xs then xs ! (2 * i + 1) else None))
       [0..<(length xs + 1) div 2]"

lemma length_next_level [simp]: "length (next_level play xs) = (length xs + 1) div 2"
  by (simp add: next_level_def)

lemma nth_next_level:
  "i < (length xs + 1) div 2 \<Longrightarrow>
   next_level play xs ! i = play (xs ! (2 * i)) (if 2 * i + 1 < length xs then xs ! (2 * i + 1) else None)"
  by (simp add: next_level_def)

function flat :: "(nat option \<Rightarrow> nat option \<Rightarrow> nat option) \<Rightarrow> nat option list \<Rightarrow> nat option list" where
  "flat play xs = (if length xs > 1 then xs @ flat play (next_level play xs) else xs)"
  by pat_completeness auto
termination by (relation "measure (\<lambda>(_, xs). length xs)") auto

declare flat.simps [simp del]

definition flat_rest :: "(nat option \<Rightarrow> nat option \<Rightarrow> nat option) \<Rightarrow> nat option list \<Rightarrow> nat option list" where
  "flat_rest play xs = (if length xs > 1 then flat play (next_level play xs) else [])"

lemma flat_split: "flat play xs = xs @ flat_rest play xs"
  by (simp add: flat.simps [of play xs] flat_rest_def)

definition level0 :: "('a \<Rightarrow> 'a \<Rightarrow> ordering) \<Rightarrow> 'a list list \<Rightarrow> nat option list" where
  "level0 cmp cs = map (\<lambda>i. play_game cmp cs (Some i) (Some (i + 1))) (step_by2 (length cs))"

definition game_tree :: "('a \<Rightarrow> 'a \<Rightarrow> ordering) \<Rightarrow> 'a list list \<Rightarrow> nat option list" where
  "game_tree cmp cs = flat (play_game cmp cs) (level0 cmp cs)"

lemma length_level0 [simp]: "length (level0 cmp cs) = (length cs + 1) div 2"
  by (simp add: level0_def step_by2_def)

lemma nth_level0:
  "i < (length cs + 1) div 2 \<Longrightarrow> level0 cmp cs ! i = play_game cmp cs (Some (2 * i)) (Some (2 * i + 1))"
  by (simp add: level0_def step_by2_def)

lemma play_level_from:
  assumes "length xs = games" "k \<le> (games + 1) div 2"
  shows "play_level cmp cs (length pre) games (map ((*) 2) [k..<(games + 1) div 2])
      (pre @ xs @ take k (next_level (play_game cmp cs) xs)) =
    Inr (pre @ xs @ next_level (play_game cmp cs) xs)"
  using assms(2)
proof (induction "(games + 1) div 2 - k" arbitrary: k)
  case 0
  then show ?case using assms(1) by simp
next
  case (Suc n)
  then have k: "k < (games + 1) div 2" by simp
  let ?nx = "next_level (play_game cmp cs) xs"
  have step: "pre @ xs @ take (Suc k) ?nx =
      (pre @ xs @ take k ?nx) @ [play_game cmp cs (xs ! (2 * k)) (if 2 * k + 1 < games then xs ! (2 * k + 1) else None)]"
    using k assms(1) nth_next_level [of k xs "play_game cmp cs"] by (simp add: take_Suc_conv_app_nth)
  have i0: "vec_index (pre @ xs @ take k ?nx) (length pre + 2 * k) = Inr (xs ! (2 * k))"
    using k assms(1) by (auto simp: vec_index_def nth_append)
  have i1: "vec_index (pre @ xs @ take k ?nx) (length pre + 2 * k + 1) = Inr (xs ! (2 * k + 1))" if "2 * k + 1 < games"
    using that assms(1) by (auto simp: vec_index_def nth_append)
  have IH: "play_level cmp cs (length pre) games (map ((*) 2) [Suc k..<(games + 1) div 2])
      (pre @ xs @ take (Suc k) ?nx) = Inr (pre @ xs @ ?nx)"
    using Suc k by simp
  have "[k..<(games + 1) div 2] = k # [Suc k..<(games + 1) div 2]" using k by (rule upt_conv_Cons)
  then show ?case
    using IH i0 i1 unfolding step by (cases "2 * k + 1 < games") simp_all
qed

lemma build_levels_flat:
  "length xs = games \<Longrightarrow>
   build_levels cmp cs (length pre) games (pre @ xs) = Inr (pre @ flat (play_game cmp cs) xs)"
proof (induction games arbitrary: pre xs rule: less_induct)
  case (less games)
  show ?case
  proof (cases "games > 1")
    case True
    let ?nx = "next_level (play_game cmp cs) xs"
    have "play_level cmp cs (length pre) games (step_by2 games) (pre @ xs) = Inr (pre @ xs @ ?nx)"
      using play_level_from [OF less.prems, of 0 cmp cs pre] by (simp add: step_by2_def)
    moreover have "build_levels cmp cs (length (pre @ xs)) ((games + 1) div 2) ((pre @ xs) @ ?nx) =
        Inr ((pre @ xs) @ flat (play_game cmp cs) ?nx)"
      using True less.prems by (intro less.IH) auto
    ultimately show ?thesis
      using True less.prems
      by (simp add: build_levels.simps [of cmp cs "length pre" games] flat.simps [of _ xs])
  next
    case False
    then show ?thesis using less.prems by (simp add: build_levels.simps flat.simps)
  qed
qed

lemma build_tree_flat:
  assumes "contestants t \<noteq> []" "tree t = []"
  shows "build_tree cmp t = Inr (t\<lparr>tree := game_tree cmp (contestants t)\<rparr>)"
proof -
  let ?cs = "contestants t"
  have "build_tree cmp t =
      try_bind (build_levels cmp ?cs 0 (length (level0 cmp ?cs)) (level0 cmp ?cs)) (\<lambda>tr. Inr (t\<lparr>tree := tr\<rparr>))"
    using assms by (simp only: build_tree_def Let_def level0_def if_False append_Nil)
  also have "build_levels cmp ?cs 0 (length (level0 cmp ?cs)) (level0 cmp ?cs) = Inr (game_tree cmp ?cs)"
    using build_levels_flat [OF refl, of cmp ?cs "[]" "level0 cmp ?cs"] by (simp only: game_tree_def list.size append_Nil)
  finally show ?thesis by simp
qed

text \<open>\<open>wins cs S w\<close>: among the contestants of \<open>S\<close>, \<open>w\<close> is the leftmost with a least item.\<close>

definition beats :: "('a \<Rightarrow> 'a \<Rightarrow> ordering) \<Rightarrow> 'a list list \<Rightarrow> nat \<Rightarrow> nat \<Rightarrow> bool" where
  "beats cmp cs i j = (case (score cs i, score cs j) of
      (Some a, Some b) \<Rightarrow> cmp a b = Less \<or> cmp a b = Equal \<and> i \<le> j
    | (Some _, None) \<Rightarrow> True
    | _ \<Rightarrow> False)"

definition wins :: "('a \<Rightarrow> 'a \<Rightarrow> ordering) \<Rightarrow> 'a list list \<Rightarrow> nat set \<Rightarrow> nat option \<Rightarrow> bool" where
  "wins cmp cs S w = (case w of
      None \<Rightarrow> \<forall>i\<in>S. score cs i = None
    | Some i \<Rightarrow> i \<in> S \<and> score cs i \<noteq> None \<and> (\<forall>j\<in>S. beats cmp cs i j))"

text \<open>The items in the order in which the winners give them.\<close>

function kmerge :: "('a \<Rightarrow> 'a \<Rightarrow> ordering) \<Rightarrow> 'a list list \<Rightarrow> 'a list" where
  "kmerge cmp cs =
     (case last (game_tree cmp cs) of
        None \<Rightarrow> []
      | Some i \<Rightarrow>
          if i < length cs \<and> cs ! i \<noteq> []
          then hd (cs ! i) # kmerge cmp (cs[i := tl (cs ! i)]) else [])"
  by pat_completeness auto
termination
proof (relation "measure (\<lambda>(_, cs). length (concat cs))")
  fix cmp :: "'a \<Rightarrow> 'a \<Rightarrow> ordering" and cs :: "'a list list" and i :: nat
  assume i: "i < length cs \<and> cs ! i \<noteq> []"
  have "concat (cs[i := tl (cs ! i)]) = concat (take i cs) @ tl (cs ! i) @ concat (drop (Suc i) cs)"
    using i by (simp add: upd_conv_take_nth_drop)
  moreover have "concat cs = concat (take i cs) @ cs ! i @ concat (drop (Suc i) cs)"
    using i by (metis concat.simps(2) concat_append id_take_nth_drop)
  ultimately show "((cmp, cs[i := tl (cs ! i)]), (cmp, cs)) \<in> measure (\<lambda>(_, cs). length (concat cs))"
    using i by simp
qed auto

declare kmerge.simps [simp del]

lemma kmerge_None: "last (game_tree cmp cs) = None \<Longrightarrow> kmerge cmp cs = []"
  by (subst kmerge.simps) simp

lemma kmerge_Nil: "kmerge cmp [] = []"
  by (subst kmerge.simps) (simp split: option.split)

lemma kmerge_Some:
  "\<lbrakk>last (game_tree cmp cs) = Some i; i < length cs; cs ! i = h # r\<rbrakk> \<Longrightarrow>
   kmerge cmp cs = h # kmerge cmp (cs[i := r])"
  by (subst kmerge.simps) simp

definition ascending :: "('a \<Rightarrow> 'a \<Rightarrow> ordering) \<Rightarrow> 'a list \<Rightarrow> bool" where
  "ascending cmp xs = sorted_wrt (\<lambda>a b. cmp a b \<noteq> Greater) xs"

subsection \<open>Replaying is rebuilding\<close>

context comparator
begin

lemma play_game_commute: "play_game cmp cs p q = play_game cmp cs q p"
proof -
  have "cmp c0 c1 = Equal \<longleftrightarrow> cmp c1 c0 = Equal" "cmp c0 c1 = Less \<longleftrightarrow> cmp c1 c0 = Greater" for c0 c1
    using cmp_swap [of c0 c1] by auto
  note sw = this
  show ?thesis
  proof (cases "Option.bind p (score cs)")
    case None
    then show ?thesis by (cases "Option.bind q (score cs)") (simp_all add: play_game_def)
  next
    case (Some c0)
    note p = Some
    then show ?thesis
    proof (cases "Option.bind q (score cs)")
      case None
      with p show ?thesis by (simp add: play_game_def)
    next
      case (Some c1)
      with p obtain i j where "p = Some i" "q = Some j" by (cases p; cases q) auto
      with p Some sw [of c0 c1] sw [of c1 c0] show ?thesis
        by (cases "cmp c0 c1") (auto simp: play_game_def Let_def)
    qed
  qed
qed

lemma next_level_update:
  assumes other: "\<And>p q. p \<noteq> Some j \<Longrightarrow> q \<noteq> Some j \<Longrightarrow> play_game cmp cs' p q = play_game cmp cs p q"
    and w: "w < length xs" and fresh: "\<And>i. i < length xs \<Longrightarrow> i \<noteq> w \<Longrightarrow> xs ! i \<noteq> Some j"
    and xs': "xs' = xs[w := x]"
  shows "next_level (play_game cmp cs') xs' =
    (next_level (play_game cmp cs) xs)
      [w div 2 := play_game cmp cs' (xs' ! w) (if xor1 w < length xs then xs' ! xor1 w else None)]"
    (is "?l = ?r [_ := ?g]")
proof (rule nth_equalityI)
  show "length ?l = length (?r [w div 2 := ?g])" by (simp add: xs')
next
  fix i
  assume "i < length ?l"
  then have i: "i < (length xs + 1) div 2" by (simp add: xs')
  let ?sec = "if 2 * i + 1 < length xs then xs' ! (2 * i + 1) else None"
  have l: "?l ! i = play_game cmp cs' (xs' ! (2 * i)) ?sec"
    using i nth_next_level [of i xs' "play_game cmp cs'"] by (simp add: xs')
  show "?l ! i = ?r [w div 2 := ?g] ! i"
  proof (cases "i = w div 2")
    case True
    have "play_game cmp cs' (xs' ! (2 * i)) ?sec = ?g"
    proof (cases "even w")
      case True
      then show ?thesis using \<open>i = w div 2\<close> by (simp add: xor1_def)
    next
      case False
      then have "2 * i + 1 = w" "xor1 w = 2 * i" using \<open>i = w div 2\<close> by (auto simp: xor1_def)
      then show ?thesis using w play_game_commute [of cs' "xs' ! w"] by simp
    qed
    then show ?thesis using True i l by simp
  next
    case False
    then have n: "2 * i \<noteq> w" "2 * i + 1 \<noteq> w" by auto
    then have "xs' ! (2 * i) = xs ! (2 * i)" "xs' ! (2 * i + 1) = xs ! (2 * i + 1)" by (simp_all add: xs')
    then have "?l ! i = play_game cmp cs (xs ! (2 * i)) (if 2 * i + 1 < length xs then xs ! (2 * i + 1) else None)"
      unfolding l using i n fresh by (auto intro!: other)
    then show ?thesis using False i by (simp add: nth_next_level)
  qed
qed

lemma play_game_choice: "play_game cmp cs p q = p \<or> play_game cmp cs p q = q \<or> play_game cmp cs p q = None"
  by (auto simp: play_game_def Let_def split: option.splits)

lemma next_level_fresh:
  assumes "\<And>i. i < length xs \<Longrightarrow> i \<noteq> w \<Longrightarrow> xs ! i \<noteq> Some j"
    and "i < length (next_level (play_game cmp cs) xs)" "i \<noteq> w div 2"
  shows "next_level (play_game cmp cs) xs ! i \<noteq> Some j"
proof -
  have "2 * i \<noteq> w" "2 * i + 1 \<noteq> w" "2 * i < length xs" using assms(2,3) by auto
  then show ?thesis
    using assms play_game_choice [of cs "xs ! (2 * i)" "if 2 * i + 1 < length xs then xs ! (2 * i + 1) else None"]
    by (auto simp: nth_next_level split: if_splits)
qed

lemma replay_flat:
  assumes other: "\<And>p q. p \<noteq> Some j \<Longrightarrow> q \<noteq> Some j \<Longrightarrow> play_game cmp cs' p q = play_game cmp cs p q"
    and "w < length xs" "\<And>i. i < length xs \<Longrightarrow> i \<noteq> w \<Longrightarrow> xs ! i \<noteq> Some j"
    and "xs' = xs[w := x]" "prev div 2 = w"
  shows "replay cmp cs' (length pre) (length xs) prev (pre @ xs' @ flat_rest (play_game cmp cs) xs) =
    Inr (pre @ flat (play_game cmp cs') xs')"
  using assms(2-5)
proof (induction "length xs" arbitrary: pre xs xs' x w prev rule: less_induct)
  case less
  let ?play = "play_game cmp cs" and ?play' = "play_game cmp cs'"
  have len: "length xs' = length xs" by (simp add: less.prems(3))
  show ?case
  proof (cases "length xs > 1")
    case False
    then show ?thesis using len by (simp add: replay.simps flat.simps flat_rest_def)
  next
    case True
    let ?nx = "next_level ?play xs" and ?nx' = "next_level ?play' xs'"
    let ?c = "xor1 w"
    let ?g = "?play' (xs' ! w) (if ?c < length xs then xs' ! ?c else None)"
    have nx': "?nx' = ?nx[w div 2 := ?g]"
      by (rule next_level_update [OF other less.prems(1-3)])
    have w2: "w div 2 < length ?nx" using less.prems(1) by simp
    let ?tr = "pre @ xs' @ ?nx @ flat_rest ?play ?nx"
    have fr: "flat_rest ?play xs = ?nx @ flat_rest ?play ?nx"
      using True by (simp add: flat_rest_def flat.simps [of _ ?nx])
    have i0: "vec_index ?tr (length pre + w) = Inr (xs' ! w)"
      using less.prems(1) len by (simp add: vec_index_def nth_append)
    have i1: "vec_index ?tr (length pre + ?c) = Inr (xs' ! ?c)" if "?c < length xs"
      using that len by (simp add: vec_index_def nth_append)
    have up: "vec_set ?tr (length pre + length xs + w div 2) y =
        Inr ((pre @ xs') @ ?nx[w div 2 := y] @ flat_rest ?play ?nx)" for y
      using w2 len by (simp add: vec_set_def list_update_append)
    have IH: "replay cmp cs' (length (pre @ xs')) (length ?nx) w ((pre @ xs') @ ?nx' @ flat_rest ?play ?nx) =
        Inr ((pre @ xs') @ flat ?play' ?nx')"
      using True w2 next_level_fresh [OF less.prems(2)]
      by (intro less.hyps [OF _ w2 _ nx' refl]) auto
    have "replay cmp cs' (length pre) (length xs) prev ?tr =
        replay cmp cs' (length pre + length xs) ((length xs + 1) div 2) w ((pre @ xs') @ ?nx' @ flat_rest ?play ?nx)"
      unfolding nx' using True less.prems(4) i0 i1 up
      by (subst replay.simps) (simp add: Let_def not_le)
    then show ?thesis
      using IH len True by (simp add: fr flat.simps [of ?play' xs'])
  qed
qed

lemma score_update: "i \<noteq> j \<Longrightarrow> score (cs[j := c]) i = score cs i"
  by (simp add: score_def)

lemma play_game_other:
  "p \<noteq> Some j \<Longrightarrow> q \<noteq> Some j \<Longrightarrow> play_game cmp (cs[j := c]) p q = play_game cmp cs p q"
  by (cases p; cases q) (auto simp: play_game_def score_update)

lemma level0_update:
  assumes "j < length cs"
  shows "level0 cmp (cs[j := c]) =
    (level0 cmp cs)[j div 2 := play_game cmp (cs[j := c]) (Some j) (Some (xor1 j))]"
proof (rule nth_equalityI)
  fix i
  assume "i < length (level0 cmp (cs[j := c]))"
  then have i: "i < (length cs + 1) div 2" by simp
  show "level0 cmp (cs[j := c]) ! i =
    (level0 cmp cs)[j div 2 := play_game cmp (cs[j := c]) (Some j) (Some (xor1 j))] ! i"
  proof (cases "i = j div 2")
    case True
    then have "(2 * i = j \<and> 2 * i + 1 = xor1 j) \<or> (2 * i = xor1 j \<and> 2 * i + 1 = j)"
      by (auto simp: xor1_def)
    then show ?thesis
      using True i play_game_commute [of "cs[j := c]" "Some j"] by (auto simp: nth_level0)
  next
    case False
    then have "2 * i \<noteq> j" "2 * i + 1 \<noteq> j" by auto
    with False i show ?thesis by (simp add: nth_level0 play_game_other)
  qed
qed simp

lemma level0_fresh: "i < length (level0 cmp cs) \<Longrightarrow> i \<noteq> j div 2 \<Longrightarrow> level0 cmp cs ! i \<noteq> Some j"
  using play_game_choice [of cs "Some (2 * i)" "Some (2 * i + 1)"] by (auto simp: nth_level0)

lemma advance_rebuilds:
  assumes "tree t = game_tree cmp (contestants t)" "last (tree t) = Some j" "j < length (contestants t)"
  shows "tournament_advance cmp t =
    (let cs = (contestants t)[j := tl (contestants t ! j)] in Inr \<lparr>contestants = cs, tree = game_tree cmp cs\<rparr>)"
proof -
  let ?cs = "contestants t"
  let ?cs' = "?cs[j := tl (?cs ! j)]"
  let ?x = "play_game cmp ?cs' (Some j) (Some (xor1 j))"
  have tr: "tree t = level0 cmp ?cs @ flat_rest (play_game cmp ?cs) (level0 cmp ?cs)"
    using assms(1) by (simp add: game_tree_def flat_split)
  have j2: "j div 2 < length (level0 cmp ?cs)" using assms(3) by simp
  have "length (level0 cmp ?cs) > 0" using j2 by (rule le_less_trans [OF le0])
  then have ne: "tree t \<noteq> []" unfolding tr by (simp only: length_greater_0_conv append_is_Nil_conv simp_thms)
  have "replay cmp ?cs' (length ([] :: nat option list)) (length (level0 cmp ?cs)) j
      ([] @ (level0 cmp ?cs)[j div 2 := ?x] @ flat_rest (play_game cmp ?cs) (level0 cmp ?cs)) =
    Inr ([] @ flat (play_game cmp ?cs') ((level0 cmp ?cs)[j div 2 := ?x]))"
    by (rule replay_flat [where j = j and w = "j div 2" and x = ?x])
       (use j2 level0_fresh [of _ ?cs j] in \<open>auto intro: play_game_other\<close>)
  then have "replay cmp ?cs' 0 ((length ?cs + 1) div 2) j
      ((level0 cmp ?cs)[j div 2 := ?x] @ flat_rest (play_game cmp ?cs) (level0 cmp ?cs)) = Inr (game_tree cmp ?cs')"
    by (simp add: game_tree_def level0_update [OF assms(3)])
  moreover have "vec_set (tree t) (j div 2) ?x =
      Inr ((level0 cmp ?cs)[j div 2 := ?x] @ flat_rest (play_game cmp ?cs) (level0 cmp ?cs))"
    using j2 by (simp add: vec_set_def tr list_update_append)
  ultimately show ?thesis
    using ne assms(2,3) by (simp add: tournament_advance_def vec_index_def Let_def)
qed

subsection \<open>The winner\<close>

lemma cmp_equal_less: "cmp a b = Equal \<Longrightarrow> cmp b c = Less \<Longrightarrow> cmp a c = Less"
  using cmp_trans [of a b c] cmp_equal_trans [of b a c] cmp_swap [of a b] by (cases "cmp a c") auto

lemma beats_trans:
  assumes "beats cmp cs i j" "beats cmp cs j k"
  shows "beats cmp cs i k"
proof (cases "score cs k")
  case None
  then show ?thesis using assms by (auto simp: beats_def split: option.splits)
next
  case (Some c)
  with assms obtain a b where ab: "score cs i = Some a" "score cs j = Some b"
    by (auto simp: beats_def split: option.splits)
  have 1: "cmp a b = Less \<or> cmp a b = Equal \<and> i \<le> j" and 2: "cmp b c = Less \<or> cmp b c = Equal \<and> j \<le> k"
    using assms Some ab by (simp_all add: beats_def)
  have "cmp a c = Less \<or> cmp a c = Equal \<and> i \<le> k"
    using 1 2 cmp_less_trans [of a b c] cmp_equal_less [of a b c] cmp_equal_trans [of a b c] by auto
  then show ?thesis using Some ab by (simp add: beats_def)
qed

lemma wins_union:
  assumes p: "wins cmp cs S p" and q: "wins cmp cs T q" and "\<And>i j. i \<in> S \<Longrightarrow> j \<in> T \<Longrightarrow> i < j"
  shows "wins cmp cs (S \<union> T) (play_game cmp cs p q)"
proof (cases p)
  case None
  then show ?thesis
    using p q by (cases q) (auto simp: wins_def beats_def play_game_def split: option.splits)
next
  case (Some i)
  then obtain a where a: "score cs i = Some a" and i: "i \<in> S" "\<forall>k\<in>S. beats cmp cs i k"
    using p by (auto simp: wins_def)
  show ?thesis
  proof (cases q)
    case None
    with q have "\<forall>k\<in>T. beats cmp cs i k" by (auto simp: wins_def beats_def a split: option.splits)
    moreover have "play_game cmp cs p q = p" using None Some a by (simp add: play_game_def)
    ultimately show ?thesis using i Some a by (auto simp: wins_def)
  next
    case (Some j)
    then obtain b where b: "score cs j = Some b" and j: "j \<in> T" "\<forall>k\<in>T. beats cmp cs j k"
      using q by (auto simp: wins_def)
    have "i < j" using assms(3) i j by blast
    then have g: "play_game cmp cs p q = (if beats cmp cs i j then p else q)"
      using \<open>p = Some i\<close> Some a b by (auto simp: play_game_def beats_def Let_def)
    have "\<not> beats cmp cs i j \<Longrightarrow> beats cmp cs j i"
      using \<open>i < j\<close> cmp_swap [of b a] by (cases "cmp a b") (auto simp: beats_def a b)
    moreover have "\<forall>k\<in>T. beats cmp cs i k" if "beats cmp cs i j" using j beats_trans [OF that] by blast
    moreover have "\<forall>k\<in>S. beats cmp cs j k" if "beats cmp cs j i" using i beats_trans [OF that] by blast
    ultimately show ?thesis
      using g i j a b \<open>p = Some i\<close> Some by (cases "beats cmp cs i j") (auto simp: wins_def)
  qed
qed

lemma beyond: "length cs \<le> i \<Longrightarrow> score cs i = None"
  by (simp add: score_def)

lemma wins_beyond:
  assumes w: "wins cmp cs {0..<m} w" and "length cs \<le> m"
  shows "wins cmp cs UNIV w"
proof -
  have out: "score cs k = None" if "\<not> k < m" for k
    using that assms(2) by (auto intro: beyond)
  show ?thesis
  proof (cases w)
    case None
    have "score cs k = None" for k
      using w None out [of k] by (cases "k < m") (auto simp: wins_def)
    then show ?thesis using None by (simp add: wins_def)
  next
    case (Some i)
    have "beats cmp cs i k" for k
      using w Some out [of k] by (cases "k < m") (auto simp: wins_def beats_def)
    then show ?thesis using w Some by (simp add: wins_def)
  qed
qed

lemma levels_win:
  assumes "\<And>i. i < length xs \<Longrightarrow> wins cmp cs {i * m..<(i + 1) * m} (xs ! i)"
    and "length cs \<le> length xs * m" "xs \<noteq> []"
  shows "wins cmp cs UNIV (last (flat (play_game cmp cs) xs))"
  using assms
proof (induction "length xs" arbitrary: xs m rule: less_induct)
  case less
  show ?case
  proof (cases "length xs > 1")
    case False
    then obtain x where "xs = [x]" using less.prems(3) by (cases xs) auto
    then show ?thesis
      using less.prems(1) [of 0] less.prems(2) wins_beyond [of cs m x] by (simp add: flat.simps)
  next
    case True
    let ?nx = "next_level (play_game cmp cs) xs"
    have "length ?nx > 0" using True by simp
    then have ne: "?nx \<noteq> []" unfolding length_greater_0_conv .
    have "wins cmp cs {i * (2 * m)..<(i + 1) * (2 * m)} (?nx ! i)" if i: "i < length ?nx" for i
    proof -
      let ?q = "if 2 * i + 1 < length xs then xs ! (2 * i + 1) else None"
      have un: "{i * (2 * m)..<(i + 1) * (2 * m)} =
          {2 * i * m..<(2 * i + 1) * m} \<union> {(2 * i + 1) * m..<(2 * i + 1 + 1) * m}"
        by (auto simp: algebra_simps)
      have q: "wins cmp cs {(2 * i + 1) * m..<(2 * i + 1 + 1) * m} ?q"
      proof (cases "2 * i + 1 < length xs")
        case True
        then show ?thesis using less.prems(1) [OF True] by (simp only: if_True)
      next
        case False
        then have "length cs \<le> (2 * i + 1) * m"
          using less.prems(2) by (meson le_trans mult_le_mono1 not_less)
        then show ?thesis using False by (auto simp: wins_def intro: beyond)
      qed
      have "wins cmp cs {i * (2 * m)..<(i + 1) * (2 * m)} (play_game cmp cs (xs ! (2 * i)) ?q)"
        unfolding un using i by (intro wins_union q less.prems(1)) auto
      then show ?thesis using i by (simp add: nth_next_level)
    qed
    moreover have "length cs \<le> length ?nx * (2 * m)"
    proof -
      have "length xs \<le> length ?nx * 2" by simp
      from mult_le_mono1 [OF this, of m] show ?thesis
        unfolding mult.assoc by (rule order.trans [OF less.prems(2)])
    qed
    ultimately have "wins cmp cs UNIV (last (flat (play_game cmp cs) ?nx))"
      using True ne by (intro less.hyps [of ?nx "2 * m"]) auto
    moreover have "flat (play_game cmp cs) ?nx \<noteq> []" using ne by (simp add: flat_split)
    ultimately show ?thesis using True by (simp add: flat.simps [of _ xs])
  qed
qed

lemma game_tree_wins:
  assumes "cs \<noteq> []"
  shows "game_tree cmp cs \<noteq> []" "wins cmp cs UNIV (last (game_tree cmp cs))"
proof -
  have "length (level0 cmp cs) > 0" using assms by (cases cs) auto
  then have ne: "level0 cmp cs \<noteq> []" unfolding length_greater_0_conv .
  then show "game_tree cmp cs \<noteq> []" by (simp add: game_tree_def flat_split)
  have one: "wins cmp cs {i} (if score cs i = None then None else Some i)" for i
    by (auto simp: wins_def beats_def cmp_refl)
  have pg: "play_game cmp cs (if score cs i = None then None else Some i)
      (if score cs j = None then None else Some j) = play_game cmp cs (Some i) (Some j)" for i j
    by (auto simp: play_game_def)
  have "wins cmp cs {i * 2..<(i + 1) * 2} (level0 cmp cs ! i)" if "i < length (level0 cmp cs)" for i
  proof -
    have "{i * 2..<(i + 1) * 2} = {2 * i} \<union> {2 * i + 1}" by auto
    moreover have "wins cmp cs ({2 * i} \<union> {2 * i + 1}) (play_game cmp cs (Some (2 * i)) (Some (2 * i + 1)))"
      unfolding pg [symmetric] by (rule wins_union [OF one one]) auto
    moreover have "level0 cmp cs ! i = play_game cmp cs (Some (2 * i)) (Some (2 * i + 1))"
      using that by (simp add: nth_level0)
    ultimately show ?thesis by (simp only:)
  qed
  moreover have "length cs \<le> length (level0 cmp cs) * 2" by simp
  ultimately show "wins cmp cs UNIV (last (game_tree cmp cs))"
    unfolding game_tree_def using ne by (intro levels_win)
qed

subsection \<open>The merged sequence\<close>

lemma winner_facts:
  assumes "cs \<noteq> []" "last (game_tree cmp cs) = Some i"
  obtains h r where "i < length cs" "cs ! i = h # r" "\<forall>j. beats cmp cs i j"
proof -
  have "score cs i \<noteq> None" "\<forall>j. beats cmp cs i j"
    using game_tree_wins(2) [OF assms(1)] assms(2) by (auto simp: wins_def)
  then show ?thesis using that by (auto simp: score_def split: if_splits list.splits)
qed

lemma no_winner_empty:
  assumes "cs \<noteq> []" "last (game_tree cmp cs) = None"
  shows "concat cs = []"
proof -
  have "score cs i = None" for i using game_tree_wins(2) [OF assms(1)] assms(2) by (simp add: wins_def)
  then have "cs ! i = []" if "i < length cs" for i
    using that by (metis list.exhaust list.simps(5) option.distinct(1) score_def)
  then show ?thesis by (auto simp: in_set_conv_nth)
qed

lemma take_built:
  assumes "cs \<noteq> []"
  shows "tournament_get \<lparr>contestants = cs, tree = game_tree cmp cs\<rparr> =
      Inr (case kmerge cmp cs of [] \<Rightarrow> None | x # _ \<Rightarrow> Some x) \<and>
    tournament_take cmp n \<lparr>contestants = cs, tree = game_tree cmp cs\<rparr> = Inr (take n (tl (kmerge cmp cs)))"
  using assms
proof (induction n arbitrary: cs)
  case 0
  show ?case
  proof (cases "last (game_tree cmp cs)")
    case None
    then show ?thesis using game_tree_wins(1) [OF 0] by (simp add: tournament_get_def kmerge_None)
  next
    case (Some i)
    obtain h r where "i < length cs" "cs ! i = h # r"
      by (rule winner_facts [OF 0 Some])
    with Some show ?thesis using game_tree_wins(1) [OF 0]
      by (simp add: tournament_get_def kmerge_Some vec_index_def)
  qed
next
  case (Suc n)
  let ?t = "\<lparr>contestants = cs, tree = game_tree cmp cs\<rparr>"
  show ?case
  proof (cases "last (game_tree cmp cs)")
    case None
    then have "kmerge cmp cs = []" by (rule kmerge_None)
    moreover have "tournament_advance cmp ?t = Inr ?t"
      using None game_tree_wins(1) [OF Suc.prems] by (simp add: tournament_advance_def)
    ultimately show ?thesis using Suc.IH [OF Suc.prems] by simp
  next
    case (Some i)
    obtain h r where w: "i < length cs" "cs ! i = h # r"
      by (rule winner_facts [OF Suc.prems Some])
    let ?cs = "cs[i := r]"
    have "tournament_advance cmp ?t = Inr \<lparr>contestants = ?cs, tree = game_tree cmp ?cs\<rparr>"
      using advance_rebuilds [of ?t i] Some w by (simp add: Let_def)
    moreover have "kmerge cmp cs = h # kmerge cmp ?cs"
      using Some w by (simp add: kmerge_Some)
    ultimately show ?thesis
      using Suc.IH [OF Suc.prems] Suc.IH [of ?cs] Suc.prems by (cases "kmerge cmp ?cs") auto
  qed
qed

lemma take_fresh: "tournament_take cmp n \<lparr>contestants = cs, tree = []\<rparr> = Inr (take n (kmerge cmp cs))"
proof (cases n)
  case 0
  then show ?thesis by simp
next
  case (Suc k)
  show ?thesis
  proof (cases "cs = []")
    case True
    then show ?thesis
      by (simp add: Suc tournament_advance_def build_tree_def tournament_get_def kmerge_Nil)
  next
    case False
    then have "tournament_advance cmp \<lparr>contestants = cs, tree = []\<rparr> =
        Inr \<lparr>contestants = cs, tree = game_tree cmp cs\<rparr>"
      using build_tree_flat [of "\<lparr>contestants = cs, tree = []\<rparr>" cmp] by (simp add: tournament_advance_def)
    then show ?thesis
      using take_built [OF False, of k] by (cases "kmerge cmp cs") (simp_all add: Suc)
  qed
qed

lemma concat_update:
  assumes "i < length cs" "cs ! i = h # r"
  shows "concat cs = concat (take i cs) @ (h # r) @ concat (drop (Suc i) cs)"
    and "concat (cs[i := r]) = concat (take i cs) @ r @ concat (drop (Suc i) cs)"
proof -
  show "concat cs = concat (take i cs) @ (h # r) @ concat (drop (Suc i) cs)"
    using assms by (metis concat.simps(2) concat_append id_take_nth_drop)
  show "concat (cs[i := r]) = concat (take i cs) @ r @ concat (drop (Suc i) cs)"
    using assms(1) by (simp add: upd_conv_take_nth_drop)
qed

text \<open>The head of the winner comes before every item, and strictly before those further left.\<close>

lemma winner_least:
  assumes asc: "\<forall>c\<in>set cs. ascending cmp c" and w: "i < length cs" "cs ! i = h # r" "\<forall>j. beats cmp cs i j"
    and c: "j < length cs" "x \<in> set (cs ! j)"
  shows "cmp h x \<noteq> Greater" and "j < i \<Longrightarrow> cmp h x = Less"
proof -
  obtain g t where g: "cs ! j = g # t" using c(2) by (cases "cs ! j") auto
  have "ascending cmp (g # t)" using asc c(1) g nth_mem by metis
  then have gx: "cmp g x \<noteq> Greater" using c(2) by (auto simp: g ascending_def cmp_refl)
  have hg: "cmp h g = Less \<or> cmp h g = Equal \<and> i \<le> j"
    using w(1,2) w(3) [rule_format, of j] c(1) g by (auto simp: beats_def score_def)
  then show "cmp h x \<noteq> Greater" using cmp_trans [OF _ gx] by auto
  show "cmp h x = Less" if "j < i" using hg that cmp_less_trans [OF _ gx] by auto
qed

lemma kmerge_correct:
  assumes "\<forall>c\<in>set cs. ascending cmp c"
  shows "mset (kmerge cmp cs) = mset (concat cs) \<and> ascending cmp (kmerge cmp cs) \<and>
    filter (\<lambda>y. cmp x y = Equal) (kmerge cmp cs) = filter (\<lambda>y. cmp x y = Equal) (concat cs)"
  using assms
proof (induction "length (concat cs)" arbitrary: cs rule: less_induct)
  case less
  show ?case
  proof (cases "cs \<noteq> [] \<and> last (game_tree cmp cs) \<noteq> None")
    case False
    have "concat cs = [] \<and> kmerge cmp cs = []"
    proof (cases "cs = []")
      case True
      then show ?thesis by (simp add: kmerge_Nil)
    next
      case ne: False
      with False have "last (game_tree cmp cs) = None" by simp
      then show ?thesis using no_winner_empty [OF ne] kmerge_None by blast
    qed
    then have c: "concat cs = []" and k: "kmerge cmp cs = []" by blast+
    show ?thesis unfolding c k by (simp add: ascending_def)
  next
    case True
    then obtain i where Some: "last (game_tree cmp cs) = Some i" and ne: "cs \<noteq> []" by auto
    obtain h r where w: "i < length cs" "cs ! i = h # r" "\<forall>j. beats cmp cs i j"
      by (rule winner_facts [OF ne Some])
    let ?cs = "cs[i := r]"
    let ?A = "concat (take i cs)" and ?B = "concat (drop (Suc i) cs)"
    note cc = concat_update [OF w(1,2)]
    have "ascending cmp (h # r)" using less.prems w nth_mem by metis
    then have "ascending cmp r" by (simp add: ascending_def)
    then have "\<forall>c\<in>set ?cs. ascending cmp c"
      using less.prems set_update_subset_insert [of cs i r] by blast
    then have IH: "mset (kmerge cmp ?cs) = mset (concat ?cs)" "ascending cmp (kmerge cmp ?cs)"
      "filter (\<lambda>y. cmp x y = Equal) (kmerge cmp ?cs) = filter (\<lambda>y. cmp x y = Equal) (concat ?cs)"
      using less.hyps [of ?cs] unfolding cc by simp_all
    have km: "kmerge cmp cs = h # kmerge cmp ?cs" using Some w by (simp add: kmerge_Some)
    have least: "cmp h y \<noteq> Greater" if y: "y \<in> set (concat cs)" for y
    proof -
      obtain c where "c \<in> set cs" "y \<in> set c" using y by auto
      then obtain j where "j < length cs" "y \<in> set (cs ! j)" by (metis in_set_conv_nth)
      then show ?thesis by (rule winner_least(1) [OF less.prems w])
    qed
    have left: "cmp h y = Less" if y: "y \<in> set ?A" for y
    proof -
      obtain c where "c \<in> set (take i cs)" "y \<in> set c" using y by auto
      then obtain j where "j < i" "j < length cs" "y \<in> set (cs ! j)"
        by (auto simp: in_set_conv_nth [of c])
      then show ?thesis using winner_least(2) [OF less.prems w] by blast
    qed
    have "mset (kmerge cmp cs) = mset (concat cs)" unfolding km cc(1) using IH(1) unfolding cc(2) by simp
    moreover have "set (kmerge cmp ?cs) \<subseteq> set (concat cs)"
      using IH(1) mset_eq_setD unfolding cc by fastforce
    then have "ascending cmp (kmerge cmp cs)" unfolding km using IH(2) least by (auto simp: ascending_def)
    moreover have "filter (\<lambda>y. cmp x y = Equal) (kmerge cmp cs) = filter (\<lambda>y. cmp x y = Equal) (concat cs)"
    proof (cases "cmp x h = Equal")
      case True
      then have "filter (\<lambda>y. cmp x y = Equal) ?A = []"
        using left cmp_equal_less [OF True] by (fastforce simp: filter_empty_conv)
      then show ?thesis unfolding km cc(1) using IH(3) unfolding cc(2) by simp
    next
      case False
      then show ?thesis unfolding km cc(1) using IH(3) unfolding cc(2) by simp
    qed
    ultimately show ?thesis by blast
  qed
qed

lemma tournament_merges:
  assumes "\<forall>c\<in>set iters. ascending cmp c"
  shows "\<exists>out. (\<forall>n. tournament_take cmp n (from_iters iters) = Inr (take n out)) \<and>
    mset out = mset (concat iters) \<and> ascending cmp out \<and>
    (\<forall>x. filter (\<lambda>y. cmp x y = Equal) out = filter (\<lambda>y. cmp x y = Equal) (concat iters))"
proof -
  let ?cs = "filter (\<lambda>it. it \<noteq> []) iters"
  have cc: "concat ?cs = concat iters" by (induction iters) auto
  have "\<forall>c\<in>set ?cs. ascending cmp c" using assms by simp
  from kmerge_correct [OF this] show ?thesis
    unfolding cc by (intro exI [of _ "kmerge cmp ?cs"]) (simp add: from_iters_def take_fresh)
qed

end

subsection \<open>Properties of the tournament\<close>

text \<open>
  C10. For every comparator that is a total preorder and ascending iterators, the tournament gives
  item by item, and without an index panic, the stable merge of its inputs: the items of all of
  them, ascending, items that compare equal in the order of their iterators.
\<close>

theorem tournament_merges_stably:
  assumes "comparator cmp" and "list_all (ascending cmp) iters"
  shows "\<exists>out. (\<forall>n. tournament_take cmp n (from_iters iters) = Inr (take n out)) \<and>
    mset out = mset (concat iters) \<and> ascending cmp out \<and>
    (\<forall>x. filter (\<lambda>y. cmp x y = Equal) out = filter (\<lambda>y. cmp x y = Equal) (concat iters))"
  using comparator.tournament_merges [OF assms(1)] assms(2) by (simp add: list_all_iff)

definition fst_comparator :: "int \<times> int \<Rightarrow> int \<times> int \<Rightarrow> ordering" where
  "fst_comparator a b = less_comparator (fst a) (fst b)"

lemma fst_comparator: "comparator fst_comparator"
  by unfold_locales (auto simp: fst_comparator_def less_comparator_def rs_cmp_def split: if_splits)

theorem tournament_merges_stably_witness:
  "\<exists>out. tournament_take fst_comparator 3 (from_iters [[(1, 0), (2, 0)], [], [(1, 1), (2, 1)]]) =
     Inr (take 3 out) \<and> take 3 out = [(1, 0), (1, 1), (2, 0)] \<and>
     mset out = {#(1, 0), (2, 0), (1, 1), (2, 1)#}"
proof -
  have "list_all (ascending fst_comparator) [[(1, 0), (2, 0)], [], [(1, 1), (2, 1)]]"
    by (simp add: ascending_def fst_comparator_def less_comparator_def rs_cmp_def)
  from tournament_merges_stably [OF fst_comparator this] obtain out where
    out: "\<forall>n. tournament_take fst_comparator n (from_iters [[(1, 0), (2, 0)], [], [(1, 1), (2, 1)]]) = Inr (take n out)"
    "mset out = mset (concat [[(1, 0), (2, 0)], [], [(1, 1), (2, 1)]])" by blast
  have "tournament_take fst_comparator 3 (from_iters [[(1, 0), (2, 0)], [], [(1, 1), (2, 1)]]) =
      Inr [(1, 0), (1, 1), (2, 0)]"
    by code_simp
  with out show ?thesis by (intro exI [of _ out]) simp
qed

text \<open>
  \<open>from_iters_min\<close> and \<open>from_iters_max\<close> sort: on ascending inputs the first gives the sorted
  concatenation, on descending inputs the second gives it reversed.
\<close>

theorem tournament_sorts:
  fixes iters :: "'a::linorder list list"
  shows "(list_all sorted iters \<longrightarrow>
      tournament_take less_comparator (length (concat iters)) (from_iters iters) = Inr (sort (concat iters))) \<and>
    (list_all (\<lambda>c. sorted (rev c)) iters \<longrightarrow>
      tournament_take greater_comparator (length (concat iters)) (from_iters iters) =
        Inr (rev (sort (concat iters))))"
proof -
  have 1: "ascending less_comparator = (sorted :: 'a list \<Rightarrow> bool)"
    by (auto simp: ascending_def less_comparator_def not_less fun_eq_iff)
  have 2: "ascending greater_comparator = (\<lambda>xs :: 'a list. sorted (rev xs))"
    by (auto simp: ascending_def greater_comparator_def not_less fun_eq_iff sorted_wrt_rev)
  have "tournament_take less_comparator (length (concat iters)) (from_iters iters) = Inr (sort (concat iters))"
    if asc: "list_all sorted iters"
  proof -
    obtain out where "\<forall>n. tournament_take less_comparator n (from_iters iters) = Inr (take n out)"
      and m: "mset out = mset (concat iters)" and "sorted out"
      using less_cmp.tournament_merges [of iters] asc unfolding 1 list_all_iff by blast
    moreover have "out = sort (concat iters)" using properties_for_sort [OF m \<open>sorted out\<close>] by simp
    ultimately show ?thesis by simp
  qed
  moreover have "tournament_take greater_comparator (length (concat iters)) (from_iters iters) =
      Inr (rev (sort (concat iters)))"
    if asc: "list_all (\<lambda>c. sorted (rev c)) iters"
  proof -
    obtain out where "\<forall>n. tournament_take greater_comparator n (from_iters iters) = Inr (take n out)"
      and m: "mset out = mset (concat iters)" and s: "sorted (rev out)"
      using greater_cmp.tournament_merges [of iters] asc unfolding 2 list_all_iff by blast
    moreover have "rev out = sort (concat iters)" using properties_for_sort [OF _ s, of "concat iters"] m by simp
    then have "out = rev (sort (concat iters))" by (metis rev_rev_ident)
    ultimately show ?thesis by simp
  qed
  ultimately show ?thesis by blast
qed

theorem tournament_sorts_witness:
  "tournament_take greater_comparator 4 (from_iters [[4, 1], [], [3, 2::int]]) = Inr [4, 3, 2, 1]"
proof -
  let ?iters = "[[4, 1], [], [3, 2::int]]"
  have "list_all (\<lambda>c. sorted (rev c)) ?iters" "length (concat ?iters) = 4"
    "rev (sort (concat ?iters)) = [4, 3, 2, 1]"
    by simp_all
  then show ?thesis using tournament_sorts [of ?iters] by metis
qed

end
