(* ===== verification/Ranges.thy ===== *)
theory Ranges
  imports IntervalSet
begin

section \<open>Comparing and cutting ranges\<close>

text \<open>
  The functions of \<open>src/readyset-util/src/intervals.rs\<close> on pairs of bounds, and their meaning as
  operations on the cuts of \<open>IntervalTreeProps\<close>. A range is the pair of its bounds. The
  iterators of the file are the lists that they yield; \<open>Step::forward\<close> on an unsigned integer
  type is the successor up to its greatest value \<open>mx\<close>, and a panic there.
\<close>

definition into_bound_endpoint :: "'a bound \<Rightarrow> 'a option" where
  "into_bound_endpoint b = (case b of Unbounded \<Rightarrow> None | Included x \<Rightarrow> Some x | Excluded x \<Rightarrow> Some x)"

type_synonym 'a bound_pair = "'a bound \<times> 'a bound"

fun rng_is_empty :: "'a bound_pair \<Rightarrow> bool" where
  "rng_is_empty (Included x, Excluded y) = (x = y)"
| "rng_is_empty (Excluded x, Included y) = (x = y)"
| "rng_is_empty _ = False"

definition rng_covers :: "'a::linorder bound_pair \<Rightarrow> 'a bound_pair \<Rightarrow> bool" where
  "rng_covers outr innr =
     (if rng_is_empty innr \<and>
         ((case (snd outr, fst innr) of (Excluded x, Included y) \<Rightarrow> x = y | _ \<Rightarrow> False) \<or>
          (case (fst outr, snd innr) of (Included x, Excluded y) \<Rightarrow> x = y | _ \<Rightarrow> False))
      then False
      else if (case (fst outr, fst innr) of
                 (Excluded x, Included y) \<Rightarrow> x \<ge> y
               | (Excluded x, Excluded y) \<Rightarrow> x > y
               | (Included x, Excluded y) \<Rightarrow> x > y
               | (Included x, Included y) \<Rightarrow> x > y
               | (x, Unbounded) \<Rightarrow> x \<noteq> Unbounded
               | _ \<Rightarrow> False)
      then False
      else if (case (snd outr, snd innr) of
                 (Excluded x, Included y) \<Rightarrow> x \<le> y
               | (Excluded x, Excluded y) \<Rightarrow> x < y
               | (Included x, Excluded y) \<Rightarrow> x < y
               | (Included x, Included y) \<Rightarrow> x < y
               | (x, Unbounded) \<Rightarrow> x \<noteq> Unbounded
               | _ \<Rightarrow> False)
      then False
      else True)"

definition rng_overlaps :: "'a::linorder bound_pair \<Rightarrow> 'a bound_pair \<Rightarrow> bool" where
  "rng_overlaps r1 r2 =
     ((case (fst r1, snd r2) of
         (Included x, Excluded y) \<Rightarrow> \<not> x \<ge> y
       | (Excluded x, Included y) \<Rightarrow> \<not> x \<ge> y
       | (Excluded x, Excluded y) \<Rightarrow> \<not> x > y
       | (Included x, Included y) \<Rightarrow> \<not> x > y
       | _ \<Rightarrow> True) \<and>
      (case (snd r1, fst r2) of
         (Included x, Excluded y) \<Rightarrow> \<not> x \<le> y
       | (Excluded x, Included y) \<Rightarrow> \<not> x \<le> y
       | (Excluded x, Excluded y) \<Rightarrow> \<not> x < y
       | (Included x, Included y) \<Rightarrow> \<not> x < y
       | _ \<Rightarrow> True))"

text \<open>The lexicographic order of Rust's tuples \<open>(x, 1)\<close> and \<open>(x, 2)\<close>.\<close>

definition tuple_cmp :: "'a::linorder \<times> nat \<Rightarrow> 'a \<times> nat \<Rightarrow> ordering" where
  "tuple_cmp a b = ord_then (rs_cmp (fst a) (fst b)) (rs_cmp (snd a) (snd b))"

definition start_key :: "'a bound \<Rightarrow> ('a \<times> nat) option" where
  "start_key b = (case b of Included x \<Rightarrow> Some (x, 1) | Excluded x \<Rightarrow> Some (x, 2) | Unbounded \<Rightarrow> None)"

definition end_key :: "'a bound \<Rightarrow> ('a \<times> nat) option" where
  "end_key b = (case b of Included x \<Rightarrow> Some (x, 2) | Excluded x \<Rightarrow> Some (x, 1) | Unbounded \<Rightarrow> None)"

definition cmp_startbound :: "'a::linorder bound \<Rightarrow> 'a bound \<Rightarrow> ordering" where
  "cmp_startbound b1 b2 =
     (case (start_key b1, start_key b2) of
        (None, None) \<Rightarrow> Equal
      | (None, Some _) \<Rightarrow> Less
      | (Some _, None) \<Rightarrow> Greater
      | (Some r1, Some r2) \<Rightarrow> tuple_cmp r1 r2)"

definition cmp_endbound :: "'a::linorder bound \<Rightarrow> 'a bound \<Rightarrow> ordering" where
  "cmp_endbound e1 e2 =
     (case (end_key e1, end_key e2) of
        (None, None) \<Rightarrow> Equal
      | (None, Some _) \<Rightarrow> Greater
      | (Some _, None) \<Rightarrow> Less
      | (Some r1, Some r2) \<Rightarrow> tuple_cmp r1 r2)"

definition cmp_start_end :: "'a::linorder bound \<Rightarrow> 'a bound \<Rightarrow> ordering" where
  "cmp_start_end b1 b2 =
     (case (start_key b1, start_key b2) of
        (Some r1, Some r2) \<Rightarrow> tuple_cmp r1 r2
      | _ \<Rightarrow> Less)"

definition cmp_end_start :: "'a::linorder bound \<Rightarrow> 'a bound \<Rightarrow> ordering" where
  "cmp_end_start e1 e2 =
     (case (end_key e1, end_key e2) of
        (Some r1, Some r2) \<Rightarrow> tuple_cmp r1 r2
      | _ \<Rightarrow> Greater)"

subsection \<open>The values of a range\<close>

datatype step_panic = StepOverflow

definition step_forward :: "nat \<Rightarrow> nat \<Rightarrow> step_panic + nat" where
  "step_forward mx x = (if x < mx then Inr (x + 1) else Inl StepOverflow)"

record bound_pair_iter =
  current :: nat
  bp_upper :: "nat bound"

definition bound_pair_next ::
    "nat \<Rightarrow> bound_pair_iter \<Rightarrow> step_panic + nat option \<times> bound_pair_iter" where
  "bound_pair_next mx it =
     (if (case bp_upper it of
            Excluded u \<Rightarrow> current it \<ge> u
          | Included u \<Rightarrow> current it > u
          | Unbounded \<Rightarrow> False)
      then Inr (None, it)
      else try_bind (step_forward mx (current it))
             (\<lambda>new. Inr (Some (current it), it\<lparr>current := new\<rparr>)))"

definition bound_pair_into_iter :: "nat \<Rightarrow> nat bound_pair \<Rightarrow> step_panic + bound_pair_iter option" where
  "bound_pair_into_iter mx bp =
     (case fst bp of
        Included x \<Rightarrow> Inr (Some \<lparr>current = x, bp_upper = snd bp\<rparr>)
      | Excluded x \<Rightarrow>
          try_bind (step_forward mx x) (\<lambda>y. Inr (Some \<lparr>current = y, bp_upper = snd bp\<rparr>))
      | Unbounded \<Rightarrow> Inr None)"

text \<open>Collecting the iterator; each item is one step forward, so at most \<open>mx - current\<close> follow.\<close>

function bound_pair_collect :: "nat \<Rightarrow> bound_pair_iter \<Rightarrow> step_panic + nat list" where
  "bound_pair_collect mx it =
     (case bound_pair_next mx it of
        Inl p \<Rightarrow> Inl p
      | Inr (None, _) \<Rightarrow> Inr []
      | Inr (Some x, it') \<Rightarrow> try_bind (bound_pair_collect mx it') (\<lambda>xs. Inr (x # xs)))"
  by pat_completeness auto
termination
  by (relation "measure (\<lambda>(mx, it). mx - current it)")
     (auto simp: bound_pair_next_def step_forward_def result_simps split: if_splits)

subsection \<open>Difference and intersection\<close>

datatype 'a difference_iterator =
    DiffEmpty
  | DiffUnchanged "'a bound_pair"
  | DiffSingle "'a bound_pair"
  | DiffDouble "'a bound_pair" "'a bound_pair"

fun difference_items :: "'a difference_iterator \<Rightarrow> 'a bound_pair list" where
  "difference_items DiffEmpty = []"
| "difference_items (DiffUnchanged r) = [r]"
| "difference_items (DiffSingle r) = [r]"
| "difference_items (DiffDouble r1 r2) = [r1, r2]"

fun difference_size_hint :: "'a difference_iterator \<Rightarrow> nat \<times> nat option" where
  "difference_size_hint DiffEmpty = (0, Some 0)"
| "difference_size_hint (DiffUnchanged _) = (1, Some 1)"
| "difference_size_hint (DiffSingle _) = (1, Some 1)"
| "difference_size_hint (DiffDouble _ _) = (2, Some 2)"

definition flip_bound :: "'a bound \<Rightarrow> 'a bound" where
  "flip_bound b = (case b of Included x \<Rightarrow> Excluded x | Excluded x \<Rightarrow> Included x | Unbounded \<Rightarrow> Unbounded)"

definition rng_difference ::
    "'a::linorder bound_pair \<Rightarrow> 'a bound_pair \<Rightarrow> 'a difference_iterator" where
  "rng_difference r1 r2 =
     (if \<not> rng_overlaps r1 r2 then DiffUnchanged r1
      else
        let lo_part = (if cmp_startbound (fst r2) (fst r1) \<in> {Less, Equal} then None
                     else Some (fst r1, flip_bound (fst r2)));
            hi_part = (if cmp_endbound (snd r2) (snd r1) \<in> {Greater, Equal} then None
                     else Some (flip_bound (snd r2), snd r1))
        in case (lo_part, hi_part) of
             (Some lo, Some hi) \<Rightarrow> DiffDouble lo hi
           | (Some r, None) \<Rightarrow> DiffSingle r
           | (None, Some r) \<Rightarrow> DiffSingle r
           | (None, None) \<Rightarrow> DiffEmpty)"

text \<open>\<open>max_by\<close> gives its second argument on a draw, \<open>min_by\<close> its first.\<close>

definition max_by :: "('a \<Rightarrow> 'a \<Rightarrow> ordering) \<Rightarrow> 'a \<Rightarrow> 'a \<Rightarrow> 'a" where
  "max_by cmp a b = (if cmp a b = Greater then a else b)"

definition min_by :: "('a \<Rightarrow> 'a \<Rightarrow> ordering) \<Rightarrow> 'a \<Rightarrow> 'a \<Rightarrow> 'a" where
  "min_by cmp a b = (if cmp a b = Greater then b else a)"

definition rng_intersection ::
    "'a::linorder bound_pair \<Rightarrow> 'a bound_pair \<Rightarrow> 'a bound_pair option" where
  "rng_intersection r1 r2 =
     (if cmp_end_start (snd r1) (fst r2) = Less \<or> cmp_end_start (snd r2) (fst r1) = Less then None
      else
        let lower = max_by cmp_startbound (fst r1) (fst r2);
            upper = min_by cmp_endbound (snd r1) (snd r2)
        in if cmp_start_end lower upper = Greater then None else Some (lower, upper))"

declare bound_pair_collect.simps [simp del]

subsection \<open>The comparisons are comparisons of cuts\<close>

lemmas bound_key_defs = start_key_def end_key_def tuple_cmp_def rs_cmp_def less_cut_def less_eq_cut_def

lemma cmp_startbound_cuts: "cmp_startbound b1 b2 = rs_cmp (lo_cut b1) (lo_cut b2)"
  by (cases b1; cases b2) (auto simp: cmp_startbound_def bound_key_defs)

lemma cmp_endbound_cuts: "cmp_endbound b1 b2 = rs_cmp (hi_cut b1) (hi_cut b2)"
  by (cases b1; cases b2) (auto simp: cmp_endbound_def bound_key_defs)

text \<open>Two excluded bounds at one value: the range between them is empty but compared as if not.\<close>

fun touching :: "'a bound \<Rightarrow> 'a bound \<Rightarrow> bool" where
  "touching (Excluded v) (Excluded w) = (v = w)"
| "touching _ _ = False"

lemma cmp_start_end_cuts:
  "cmp_start_end s e \<noteq> Greater \<longleftrightarrow> lo_cut s < hi_cut e \<or> touching s e \<or> (\<exists>v. s = Included v \<and> e = Excluded v)"
  by (cases s; cases e) (auto simp: cmp_start_end_def bound_key_defs)

lemma cmp_end_start_cuts:
  "cmp_end_start e s \<noteq> Less \<longleftrightarrow> lo_cut s < hi_cut e \<or> touching s e \<or> (\<exists>v. s = Excluded v \<and> e = Included v)"
  by (cases s; cases e) (auto simp: cmp_end_start_def bound_key_defs)

lemma rng_overlaps_cuts:
  "rng_overlaps (s1, e1) (s2, e2) \<longleftrightarrow>
     (lo_cut s1 < hi_cut e2 \<or> touching s1 e2) \<and> (lo_cut s2 < hi_cut e1 \<or> touching s2 e1)"
  by (cases s1; cases e2; cases s2; cases e1) (auto simp: rng_overlaps_def less_cut_def)

lemma span_subset_iff:
  assumes "lo_cut s < hi_cut e"
  shows "span s e \<subseteq> span s' e' \<longleftrightarrow> lo_cut s' \<le> lo_cut s \<and> hi_cut e \<le> hi_cut e'"
proof
  assume sub: "span s e \<subseteq> span s' e'"
  have "lo_cut s \<in> span s e" using assms by (simp add: span_def)
  with sub have lo: "lo_cut s' \<le> lo_cut s" by (auto simp: span_def)
  have "\<not> hi_cut e' < hi_cut e"
  proof
    assume "hi_cut e' < hi_cut e"
    then have "max (lo_cut s) (hi_cut e') \<in> span s e" using assms by (simp add: span_def)
    with sub have "max (lo_cut s) (hi_cut e') \<in> span s' e'" by blast
    then show False by (simp add: span_def)
  qed
  with lo show "lo_cut s' \<le> lo_cut s \<and> hi_cut e \<le> hi_cut e'" by simp
qed (auto simp: span_def)

lemma span_disjoint_iff: "span s e \<inter> span s' e' = {} \<longleftrightarrow> min (hi_cut e) (hi_cut e') \<le> max (lo_cut s) (lo_cut s')"
proof
  assume "span s e \<inter> span s' e' = {}"
  then have "max (lo_cut s) (lo_cut s') \<notin> span s e \<inter> span s' e'" by blast
  then show "min (hi_cut e) (hi_cut e') \<le> max (lo_cut s) (lo_cut s')" by (auto simp: span_def not_less min_le_iff_disj le_max_iff_disj)
qed (auto simp: span_def min_le_iff_disj le_max_iff_disj)

lemma rng_covers_cuts:
  assumes "lo_cut s < hi_cut e"
  shows "rng_covers (s', e') (s, e) \<longleftrightarrow> lo_cut s' \<le> lo_cut s \<and> hi_cut e \<le> hi_cut e'"
proof -
  have ne: "\<not> rng_is_empty (s, e)" using assms by (cases s; cases e) (auto simp: less_cut_def)
  have 1: "lo_cut s' \<le> lo_cut s \<longleftrightarrow> \<not> (case (s', s) of
                 (Excluded x, Included y) \<Rightarrow> x \<ge> y
               | (Excluded x, Excluded y) \<Rightarrow> x > y
               | (Included x, Excluded y) \<Rightarrow> x > y
               | (Included x, Included y) \<Rightarrow> x > y
               | (x, Unbounded) \<Rightarrow> x \<noteq> Unbounded
               | _ \<Rightarrow> False)"
    by (cases s; cases s') (auto simp: less_eq_cut_def)
  have 2: "hi_cut e \<le> hi_cut e' \<longleftrightarrow> \<not> (case (e', e) of
                 (Excluded x, Included y) \<Rightarrow> x \<le> y
               | (Excluded x, Excluded y) \<Rightarrow> x < y
               | (Included x, Excluded y) \<Rightarrow> x < y
               | (Included x, Included y) \<Rightarrow> x < y
               | (x, Unbounded) \<Rightarrow> x \<noteq> Unbounded
               | _ \<Rightarrow> False)"
    by (cases e; cases e') (auto simp: less_eq_cut_def)
  show ?thesis unfolding rng_covers_def 1 2 using ne by simp
qed

lemma flip_bound_cuts:
  "b \<noteq> Unbounded \<Longrightarrow> hi_cut (flip_bound b) = lo_cut b"
  "b \<noteq> Unbounded \<Longrightarrow> lo_cut (flip_bound b) = hi_cut b"
  by (cases b; simp add: flip_bound_def)+

lemma cut_bounds_strict:
  "lo_cut s < lo_cut s' \<Longrightarrow> s' \<noteq> Unbounded" "hi_cut e < hi_cut e' \<Longrightarrow> e \<noteq> Unbounded"
  by auto

lemma rng_difference_below_above:
  assumes "rng_overlaps r1 r2"
  shows "difference_items (rng_difference r1 r2) =
    (if lo_cut (fst r1) < lo_cut (fst r2) then [(fst r1, flip_bound (fst r2))] else []) @
    (if hi_cut (snd r2) < hi_cut (snd r1) then [(flip_bound (snd r2), snd r1)] else [])"
proof -
  have "cmp_startbound (fst r2) (fst r1) \<in> {Less, Equal} \<longleftrightarrow> \<not> lo_cut (fst r1) < lo_cut (fst r2)"
    "cmp_endbound (snd r2) (snd r1) \<in> {Greater, Equal} \<longleftrightarrow> \<not> hi_cut (snd r2) < hi_cut (snd r1)"
    by (auto simp: cmp_startbound_cuts cmp_endbound_cuts)
  then show ?thesis using assms by (simp add: rng_difference_def Let_def)
qed

lemma max_start_cut: "lo_cut (max_by cmp_startbound s1 s2) = max (lo_cut s1) (lo_cut s2)"
  by (auto simp: max_by_def cmp_startbound_cuts max_def)

lemma min_end_cut: "hi_cut (min_by cmp_endbound e1 e2) = min (hi_cut e1) (hi_cut e2)"
  by (auto simp: min_by_def cmp_endbound_cuts min_def)

lemma bound_pair_collect_upto:
  assumes "n \<le> mx" and upper: "\<And>c. (case u of Excluded u \<Rightarrow> c \<ge> u | Included u \<Rightarrow> c > u | Unbounded \<Rightarrow> False) \<longleftrightarrow> n \<le> c"
  shows "bound_pair_collect mx \<lparr>current = c, bp_upper = u\<rparr> = Inr [c..<n]"
proof (induction "n - c" arbitrary: c)
  case 0
  then show ?case by (simp add: bound_pair_collect.simps bound_pair_next_def upper)
next
  case (Suc k)
  then have "c < n" "c < mx" using assms(1) by simp_all
  then show ?case
    using Suc by (simp add: bound_pair_collect.simps [of mx "\<lparr>current = c, bp_upper = u\<rparr>"]
        bound_pair_next_def step_forward_def upper upt_conv_Cons)
qed

subsection \<open>Properties of the range operations\<close>



text \<open>
  C24. For non-empty ranges that do not touch in two excluded bounds, \<open>difference\<close> yields at most
  two ascending, non-empty ranges whose union is the first range without the second.
\<close>

theorem range_difference_exact:
  assumes "lo_cut s1 < hi_cut e1" and "lo_cut s2 < hi_cut e2"
    and "\<not> touching s1 e2" and "\<not> touching s2 e1"
  shows "let ds = difference_items (rng_difference (s1, e1) (s2, e2)) in
    spans ds = span s1 e1 - span s2 e2 \<and> tiles (lo_cut s1) (hi_cut e1) ds \<and> length ds \<le> 2"
proof (cases "rng_overlaps (s1, e1) (s2, e2)")
  case False
  then have "span s1 e1 \<inter> span s2 e2 = {}"
    using assms by (auto simp: rng_overlaps_cuts span_disjoint_iff min_le_iff_disj le_max_iff_disj not_less)
  then show ?thesis using False assms(1) by (auto simp: rng_difference_def intro: tiles_single)
next
  case True
  then have ov: "lo_cut s1 < hi_cut e2" "lo_cut s2 < hi_cut e1"
    using assms by (auto simp: rng_overlaps_cuts)
  note items = rng_difference_below_above [OF True, unfolded fst_conv snd_conv]
  let ?lo = "(s1, flip_bound s2)" and ?hi = "(flip_bound e2, e1)"
  have lo: "hi_cut (flip_bound s2) = lo_cut s2" if "lo_cut s1 < lo_cut s2"
    using that by (intro flip_bound_cuts) (auto dest: cut_bounds_strict)
  have hi: "lo_cut (flip_bound e2) = hi_cut e2" if "hi_cut e2 < hi_cut e1"
    using that by (intro flip_bound_cuts) (auto dest: cut_bounds_strict)
  show ?thesis
  proof (cases "lo_cut s1 < lo_cut s2")
    case l: True
    show ?thesis
    proof (cases "hi_cut e2 < hi_cut e1")
      case h: True
      have "tiles (hi_cut e2) (hi_cut e1) [?hi]" using h hi by (intro tiles_single) simp_all
      then have "tiles (lo_cut s1) (hi_cut e1) [?lo, ?hi]"
        by (rule tiles_Cons) (use l lo h assms(2) ov in simp_all)
      then show ?thesis
        using l h lo hi assms(2) ov by (auto simp: items span_def)
    next
      case h: False
      have "tiles (lo_cut s1) (hi_cut e1) [?lo]" using l lo ov by (intro tiles_single) simp_all
      then show ?thesis using l h lo ov by (auto simp: items span_def)
    qed
  next
    case l: False
    show ?thesis
    proof (cases "hi_cut e2 < hi_cut e1")
      case h: True
      have "tiles (lo_cut s1) (hi_cut e1) [?hi]" using h hi ov by (intro tiles_single) simp_all
      then show ?thesis using l h hi ov by (auto simp: items span_def)
    next
      case h: False
      then show ?thesis using l by (auto simp: items span_def)
    qed
  qed
qed

theorem range_difference_exact_witness:
  "difference_items (rng_difference (Included 1, Included 9) (Excluded 3, Excluded (5::int))) =
     [(Included 1, Included 3), (Included 5, Included 9)] \<and>
   spans [(Included 1, Included 3), (Included 5, Included 9)] =
     span (Included 1) (Included 9) - span (Excluded 3) (Excluded (5::int))"
proof -
  have r: "lo_cut (Included 1) < hi_cut (Included (9::int))" "lo_cut (Excluded 3) < hi_cut (Excluded (5::int))"
    "\<not> touching (Included 1) (Excluded (5::int))" "\<not> touching (Excluded 3) (Included (9::int))"
    by (simp_all add: less_cut_def)
  have "difference_items (rng_difference (Included 1, Included 9) (Excluded 3, Excluded (5::int))) =
     [(Included 1, Included 3), (Included 5, Included 9)]"
    by code_simp
  with range_difference_exact [OF r] show ?thesis by (simp only: Let_def)
qed

text \<open>
  C25. \<open>intersection\<close> of two non-empty ranges is \<open>None\<close> only when they share nothing, and otherwise a
  range with exactly the shared cuts; that range is non-empty unless both its bounds exclude the
  same value.
\<close>

theorem range_intersection_exact:
  assumes "lo_cut s1 < hi_cut e1" and "lo_cut s2 < hi_cut e2"
  shows "case rng_intersection (s1, e1) (s2, e2) of
      None \<Rightarrow> span s1 e1 \<inter> span s2 e2 = {}
    | Some (l, u) \<Rightarrow> span l u = span s1 e1 \<inter> span s2 e2 \<and> (span l u = {} \<longleftrightarrow> touching l u)"
proof -
  let ?l = "max_by cmp_startbound s1 s2" and ?u = "min_by cmp_endbound e1 e2"
  have sp: "span ?l ?u = span s1 e1 \<inter> span s2 e2"
    by (auto simp: span_def max_start_cut min_end_cut)
  have emp: "span ?l ?u = {} \<longleftrightarrow> \<not> lo_cut ?l < hi_cut ?u"
    by (auto simp: span_def)
  have touch: "touching ?l ?u \<Longrightarrow> \<not> lo_cut ?l < hi_cut ?u"
    by (cases ?l; cases ?u) (auto simp: less_cut_def)
  have ie: "\<not> (?l = Included v \<and> ?u = Excluded v)"
    if "cmp_end_start e1 s2 \<noteq> Less" "cmp_end_start e2 s1 \<noteq> Less" for v
    using that assms unfolding cmp_end_start_cuts
    by (auto simp: max_by_def min_by_def less_cut_def split: if_splits)
  show ?thesis
  proof (cases "cmp_end_start e1 s2 = Less \<or> cmp_end_start e2 s1 = Less")
    case True
    then have "\<not> (lo_cut s2 < hi_cut e1 \<and> lo_cut s1 < hi_cut e2)"
      using cmp_end_start_cuts by blast
    then show ?thesis
      using True by (auto simp: rng_intersection_def span_disjoint_iff min_le_iff_disj le_max_iff_disj not_less)
  next
    case False
    then have "cmp_start_end ?l ?u \<noteq> Greater \<longleftrightarrow> lo_cut ?l < hi_cut ?u \<or> touching ?l ?u"
      using ie unfolding cmp_start_end_cuts by blast
    then show ?thesis
      using False sp emp touch by (auto simp: rng_intersection_def Let_def)
  qed
qed

theorem range_intersection_exact_witness:
  "rng_intersection (Included 1, Excluded 8) (Included 7, Included (10::int)) = Some (Included 7, Excluded 8) \<and>
   span (Included 7) (Excluded (8::int)) = span (Included 1) (Excluded 8) \<inter> span (Included 7) (Included 10)"
proof -
  have r: "lo_cut (Included 1) < hi_cut (Excluded (8::int))" "lo_cut (Included 7) < hi_cut (Included (10::int))"
    by (simp_all add: less_cut_def)
  have "rng_intersection (Included 1, Excluded 8) (Included 7, Included (10::int)) = Some (Included 7, Excluded 8)"
    by code_simp
  with range_intersection_exact [OF r] show ?thesis by simp
qed

text \<open>
  When the first range starts and the second ends with the same excluded value, \<open>difference\<close>
  returns a value that the first range does not hold, and \<open>intersection\<close> a range without values.
\<close>

theorem range_touching_wrong:
  "rng_difference (Excluded v, Unbounded) (Unbounded, Excluded v) = DiffSingle (Included v, Unbounded) \<and>
   \<not> range_contains (Excluded v) Unbounded v \<and> range_contains (Included v) Unbounded v \<and>
   rng_intersection (Excluded v, Unbounded) (Unbounded, Excluded v) = Some (Excluded v, Excluded v)"
  by (auto simp: rng_difference_def rng_overlaps_def cmp_startbound_def cmp_endbound_def start_key_def
      end_key_def flip_bound_def range_contains_def rng_intersection_def cmp_end_start_def
      cmp_start_end_def max_by_def min_by_def tuple_cmp_def rs_cmp_def Let_def)



end
