(* ===== verification/Array2.thy ===== *)
theory Array2
  imports Prelude
begin

section \<open>Two-dimensional arrays\<close>

text \<open>
  The crate \<open>array2\<close> (\<open>src/array2/src/lib.rs\<close>): rows of one size in a single vector. A panic is the
  \<open>Inl\<close> of \<open>array2_panic\<close>; \<open>get_mut\<close> followed by a write through the reference is one operation
  that takes the value to write.
\<close>

datatype array2_error =
    Empty
  | InconsistentRowSize (row_index: nat) (expected_size: nat) (actual_size: nat)

datatype array2_panic =
    RowsPanic array2_error
  | DivideByZero
  | ChunkSizeZero
  | SliceOutOfBounds
  | IndexOutOfBounds2

record 'a array2 =
  row_size :: nat
  cells :: "'a list"

fun push_rows :: "nat \<Rightarrow> nat \<Rightarrow> 'a list list \<Rightarrow> 'a list \<Rightarrow> array2_error + 'a list" where
  "push_rows sz i [] elems = Inr elems"
| "push_rows sz i (row # rows) elems =
     (if length row \<noteq> sz then Inl (InconsistentRowSize i sz (length row))
      else push_rows sz (i + 1) rows (elems @ row))"

definition try_from_rows :: "'a list list \<Rightarrow> array2_error + 'a array2" where
  "try_from_rows rows =
     (case rows of
        [] \<Rightarrow> Inl Empty
      | first # _ \<Rightarrow>
          let sz = length first in
          try_bind (push_rows sz 0 rows []) (\<lambda>elems. Inr \<lparr>row_size = sz, cells = elems\<rparr>))"

definition from_rows :: "'a list list \<Rightarrow> array2_panic + 'a array2" where
  "from_rows rows = (case try_from_rows rows of Inr r \<Rightarrow> Inr r | Inl e \<Rightarrow> Inl (RowsPanic e))"

definition num_cells :: "'a array2 \<Rightarrow> nat" where
  "num_cells a = length (cells a)"

definition num_rows :: "'a array2 \<Rightarrow> array2_panic + nat" where
  "num_rows a = (if row_size a = 0 then Inl DivideByZero else Inr (num_cells a div row_size a))"

text \<open>\<open>chunks(n)\<close> of the standard library, for \<open>n > 0\<close>.\<close>

function chunks :: "nat \<Rightarrow> 'a list \<Rightarrow> 'a list list" where
  "chunks n xs = (if xs = [] \<or> n = 0 then [] else take n xs # chunks n (drop n xs))"
  by pat_completeness auto
termination by (relation "measure (\<lambda>(_, xs). length xs)") auto

definition rows :: "'a array2 \<Rightarrow> array2_panic + 'a list list" where
  "rows a = (if row_size a = 0 then Inl ChunkSizeZero else Inr (chunks (row_size a) (cells a)))"

definition slice :: "'a list \<Rightarrow> nat \<Rightarrow> nat \<Rightarrow> array2_panic + 'a list" where
  "slice xs a b = (if a \<le> b \<and> b \<le> length xs then Inr (take (b - a) (drop a xs)) else Inl SliceOutOfBounds)"

definition get_row :: "'a array2 \<Rightarrow> nat \<Rightarrow> array2_panic + 'a list option" where
  "get_row a i =
     try_bind (num_rows a)
       (\<lambda>n. if i \<ge> n then Inr None
            else try_bind (slice (cells a) (row_size a * i) (row_size a * (i + 1))) (\<lambda>r. Inr (Some r)))"

definition set_row :: "'a array2 \<Rightarrow> nat \<Rightarrow> 'a list \<Rightarrow> array2_panic + 'a array2 option" where
  "set_row a i new =
     try_bind (num_rows a)
       (\<lambda>n. if i \<ge> n then Inr None
            else try_bind (slice (cells a) (row_size a * i) (row_size a * (i + 1)))
              (\<lambda>_. Inr (Some (a\<lparr>cells := take (row_size a * i) (cells a) @ new @
                                   drop (row_size a * (i + 1)) (cells a)\<rparr>))))"

definition get_cell :: "'a array2 \<Rightarrow> nat \<times> nat \<Rightarrow> array2_panic + 'a option" where
  "get_cell a ix =
     (case ix of (row, col) \<Rightarrow>
        try_bind (num_rows a)
          (\<lambda>n. if row \<ge> n \<or> col \<ge> row_size a then Inr None
               else if row_size a * row + col < length (cells a)
                 then Inr (Some (cells a ! (row_size a * row + col))) else Inl SliceOutOfBounds))"

definition set_cell :: "'a array2 \<Rightarrow> nat \<times> nat \<Rightarrow> 'a \<Rightarrow> array2_panic + 'a array2 option" where
  "set_cell a ix v =
     (case ix of (row, col) \<Rightarrow>
        try_bind (num_rows a)
          (\<lambda>n. if row \<ge> n \<or> col \<ge> row_size a then Inr None
               else if row_size a * row + col < length (cells a)
                 then Inr (Some (a\<lparr>cells := (cells a)[row_size a * row + col := v]\<rparr>))
                 else Inl SliceOutOfBounds))"

definition index_row :: "'a array2 \<Rightarrow> nat \<Rightarrow> array2_panic + 'a list" where
  "index_row a i =
     try_bind (get_row a i) (\<lambda>r. case r of None \<Rightarrow> Inl IndexOutOfBounds2 | Some x \<Rightarrow> Inr x)"

definition index_cell :: "'a array2 \<Rightarrow> nat \<times> nat \<Rightarrow> array2_panic + 'a" where
  "index_cell a ix =
     try_bind (get_cell a ix) (\<lambda>r. case r of None \<Rightarrow> Inl IndexOutOfBounds2 | Some x \<Rightarrow> Inr x)"

declare chunks.simps [simp del]

subsection \<open>Rows in, rows out\<close>

lemma push_rows_ok:
  "list_all (\<lambda>r. length r = n) rs \<Longrightarrow> push_rows n i rs elems = Inr (elems @ concat rs)"
  by (induction rs arbitrary: i elems) auto

lemma push_rows_error:
  "\<lbrakk>list_all (\<lambda>r. length r = n) pre; length bad \<noteq> n\<rbrakk> \<Longrightarrow>
   push_rows n i (pre @ bad # rest) elems = Inl (InconsistentRowSize (i + length pre) n (length bad))"
  by (induction pre arbitrary: i elems) auto

lemma first_bad_row:
  assumes "\<not> list_all P rs"
  obtains pre bad rest where "rs = pre @ bad # rest" "list_all P pre" "\<not> P bad"
proof -
  have "\<exists>x\<in>set rs. \<not> P x" using assms by (auto simp: list_all_iff)
  then show ?thesis
    using split_list_first_prop [of rs "\<lambda>x. \<not> P x"] that by (auto simp: list_all_iff)
qed

lemma length_concat_rows: "list_all (\<lambda>r. length r = n) rs \<Longrightarrow> length (concat rs) = n * length rs"
  by (induction rs) auto

lemma chunks_concat: "0 < n \<Longrightarrow> list_all (\<lambda>r. length r = n) rs \<Longrightarrow> chunks n (concat rs) = rs"
proof (induction rs)
  case Nil
  then show ?case by (simp add: chunks.simps)
next
  case (Cons r rs)
  then have "r @ concat rs \<noteq> []" by auto
  then show ?case using Cons by (simp add: chunks.simps [of n "r @ concat rs"])
qed

lemma drop_concat_rows:
  "list_all (\<lambda>r. length r = n) rs \<Longrightarrow> i < length rs \<Longrightarrow>
   drop (n * i) (concat rs) = rs ! i @ concat (drop (Suc i) rs)"
proof (induction rs arbitrary: i)
  case Nil
  then show ?case by simp
next
  case (Cons r rs)
  then show ?case by (cases i) simp_all
qed

lemma nth_concat_rows:
  assumes "list_all (\<lambda>r. length r = n) rs" "i < length rs" "j < n"
  shows "n * i + j < length (concat rs)" and "concat rs ! (n * i + j) = rs ! i ! j"
proof -
  have li: "length (rs ! i) = n" using assms by (simp add: list_all_length)
  have "n * (i + 1) \<le> n * length rs" using assms(2) by (intro mult_le_mono2) simp
  then have le: "n * i + n \<le> length (concat rs)" using length_concat_rows [OF assms(1)] by simp
  then show "n * i + j < length (concat rs)" using assms(3) by simp
  have "concat rs ! (n * i + j) = drop (n * i) (concat rs) ! j" using le by simp
  then show "concat rs ! (n * i + j) = rs ! i ! j"
    unfolding drop_concat_rows [OF assms(1,2)] using li assms(3) by (simp add: nth_append)
qed

subsection \<open>Properties of the array\<close>


end
