(* ===== verification/HashMap.thy ===== *)
theory HashMap
  imports BTreeMap
begin

section \<open>Unordered maps\<close>

text \<open>
  \<open>std::collections::HashMap\<close>: an association list with distinct keys, whose order is the order in
  which an iteration happens to visit the entries. The order is not specified by the library, so
  the statements about code that iterates over a map hold for every such list.
\<close>

definition hm_get :: "('k \<times> 'v) list \<Rightarrow> 'k \<Rightarrow> 'v option" where
  "hm_get m k = map_of m k"

fun hm_insert :: "'k \<Rightarrow> 'v \<Rightarrow> ('k \<times> 'v) list \<Rightarrow> ('k \<times> 'v) list" where
  "hm_insert k v [] = [(k, v)]"
| "hm_insert k v ((k', v') # m) = (if k = k' then (k, v) # m else (k', v') # hm_insert k v m)"

definition hm_remove :: "'k \<Rightarrow> ('k \<times> 'v) list \<Rightarrow> ('k \<times> 'v) list" where
  "hm_remove k m = filter (\<lambda>(k', _). k' \<noteq> k) m"

definition hm_inv :: "('k \<times> 'v) list \<Rightarrow> bool" where
  "hm_inv m = distinct (map fst m)"

lemma hm_get_simps [simp]:
  "hm_get [] k = None"
  "hm_get ((k', v) # m) k = (if k = k' then Some v else hm_get m k)"
  by (auto simp: hm_get_def)

lemma hm_inv_simps [simp]:
  "hm_inv []"
  "hm_inv (kv # m) \<longleftrightarrow> fst kv \<notin> fst ` set m \<and> hm_inv m"
  by (auto simp: hm_inv_def)

lemma hm_get_iff: "hm_inv m \<Longrightarrow> hm_get m k = Some v \<longleftrightarrow> (k, v) \<in> set m"
  by (simp add: hm_get_def hm_inv_def)

lemma hm_get_None: "hm_get m k = None \<longleftrightarrow> k \<notin> fst ` set m"
  by (simp add: hm_get_def map_of_eq_None_iff)

lemma fst_hm_insert: "fst ` set (hm_insert k v m) = insert k (fst ` set m)"
  by (induction k v m rule: hm_insert.induct) auto

lemma hm_insert_inv: "hm_inv m \<Longrightarrow> hm_inv (hm_insert k v m)"
proof (induction k v m rule: hm_insert.induct)
  case (1 k v)
  then show ?case by simp
next
  case (2 k v k' v' m)
  then show ?case by (simp only: hm_insert.simps hm_inv_simps fst_hm_insert split: if_split) auto
qed

lemma hm_insert_get: "hm_get (hm_insert k v m) = (hm_get m)(k \<mapsto> v)"
  by (induction k v m rule: hm_insert.induct) (auto simp: fun_eq_iff)

lemma hm_remove_get: "hm_get (hm_remove k m) = (hm_get m)(k := None)"
  by (induction m) (auto simp: hm_remove_def fun_eq_iff)

lemma hm_inv_filter: "hm_inv m \<Longrightarrow> hm_inv (filter P m)"
  by (induction m) auto

lemma hm_remove_inv: "hm_inv m \<Longrightarrow> hm_inv (hm_remove k m)"
  by (simp add: hm_remove_def hm_inv_filter)

interpretation hm: finite_map_ops hm_get hm_insert hm_remove hm_inv
  by unfold_locales
     (simp_all add: hm_insert_get hm_insert_inv hm_remove_get hm_remove_inv)

end
