(* ===== verification/Offsets.thy ===== *)
theory Offsets
  imports HashMap
begin

section \<open>Timestamps and replication offsets\<close>

text \<open>
  \<open>Timestamp\<close> of \<open>src/readyset-client/src/consistency.rs\<close>, the read-your-write tickets, and
  \<open>ReplicationOffset\<close> and \<open>ReplicationOffsets\<close> of \<open>src/readyset-client/src/replication.rs\<close>, the
  positions in the upstream log. Nodes and table names are parameters of the types; a \<open>u64\<close> or
  \<open>u128\<close> here is only compared, never computed with, and is a natural number. A method on
  \<open>&mut self\<close> that fails with \<open>?\<close> keeps the changes it has made, so it returns the new state next
  to its result.
\<close>

subsection \<open>Timestamps\<close>

type_synonym 'n timestamp = "('n \<times> nat) list"

fun min_entries :: "('n \<times> nat) list \<Rightarrow> 'n timestamp \<Rightarrow> 'n timestamp" where
  "min_entries [] ret = ret"
| "min_entries ((table, value) # es) ret =
     min_entries es
       (case hm_get ret table of
          Some current_value \<Rightarrow> if current_value > value then hm_insert table value ret else ret
        | None \<Rightarrow> hm_insert table value ret)"

definition ts_min :: "'n timestamp list \<Rightarrow> 'n timestamp" where
  "ts_min timestamps = fold min_entries timestamps []"

text \<open>\<open>unreachable!\<close> of a key that neither map has is \<open>None\<close>.\<close>

fun join_keys :: "'n timestamp \<Rightarrow> 'n timestamp \<Rightarrow> 'n list \<Rightarrow> 'n timestamp \<Rightarrow> 'n timestamp option" where
  "join_keys t1 t2 [] ret = Some ret"
| "join_keys t1 t2 (key # keys) ret =
     (case hm_get ret key of
        Some _ \<Rightarrow> join_keys t1 t2 keys ret
      | None \<Rightarrow>
          (case hm_get t1 key of
             None \<Rightarrow>
               (case hm_get t2 key of
                  None \<Rightarrow> None
                | Some v2 \<Rightarrow> join_keys t1 t2 keys (hm_insert key v2 ret))
           | Some v1 \<Rightarrow>
               (case hm_get t2 key of
                  None \<Rightarrow> join_keys t1 t2 keys (hm_insert key v1 ret)
                | Some v2 \<Rightarrow>
                    join_keys t1 t2 keys (hm_insert key (if v1 > v2 then v1 else v2) ret))))"

definition ts_join :: "'n timestamp \<Rightarrow> 'n timestamp \<Rightarrow> 'n timestamp option" where
  "ts_join t1 t2 = join_keys t1 t2 (map fst t1 @ map fst t2) []"

fun satisfies :: "'n timestamp \<Rightarrow> 'n timestamp \<Rightarrow> bool" where
  "satisfies self [] = True"
| "satisfies self ((table, timestamp) # es) =
     (if hm_get self table = None \<or> timestamp > the (hm_get self table) then False
      else satisfies self es)"

subsection \<open>Replication offsets\<close>

record replication_offset =
  offset :: nat
  replication_log_name :: string

datatype offset_error = ReplicationOffsetLogDifferent string string

definition offset_partial_cmp :: "replication_offset \<Rightarrow> replication_offset \<Rightarrow> ordering option" where
  "offset_partial_cmp self other =
     (if replication_log_name other \<noteq> replication_log_name self then None
      else Some (rs_cmp (offset self) (offset other)))"

definition try_max_into ::
    "replication_offset \<Rightarrow> replication_offset option \<Rightarrow>
     (offset_error + unit) \<times> replication_offset option" where
  "try_max_into self other =
     (case other of
        Some oth \<Rightarrow>
          if replication_log_name self \<noteq> replication_log_name oth
          then (Inl (ReplicationOffsetLogDifferent (replication_log_name self) (replication_log_name oth)), other)
          else if offset self > offset oth then (Inr (), Some (oth\<lparr>offset := offset self\<rparr>))
          else (Inr (), other)
      | None \<Rightarrow> (Inr (), Some self))"

record 't replication_offsets =
  schema :: "replication_offset option"
  tables :: "('t \<times> replication_offset option) list"

definition with_schema_offset :: "replication_offset option \<Rightarrow> 't replication_offsets" where
  "with_schema_offset s = \<lparr>schema = s, tables = []\<rparr>"

definition has_schema :: "'t replication_offsets \<Rightarrow> bool" where
  "has_schema r = (schema r \<noteq> None)"

definition has_table :: "'t replication_offsets \<Rightarrow> 't \<Rightarrow> bool" where
  "has_table r t = (case hm_get (tables r) t of None \<Rightarrow> False | Some v \<Rightarrow> v \<noteq> None)"

fun max_offset_loop ::
    "replication_offset \<Rightarrow> replication_offset option list \<Rightarrow> offset_error + replication_offset option" where
  "max_offset_loop res [] = Inr (Some res)"
| "max_offset_loop res (None # os) = Inr None"
| "max_offset_loop res (Some off # os) =
     (if replication_log_name res \<noteq> replication_log_name off
      then Inl (ReplicationOffsetLogDifferent (replication_log_name res) (replication_log_name off))
      else max_offset_loop (if offset off > offset res then off else res) os)"

definition max_offset :: "'t replication_offsets \<Rightarrow> offset_error + replication_offset option" where
  "max_offset r =
     (case schema r of
        Some schema_offset \<Rightarrow> max_offset_loop schema_offset (map snd (tables r))
      | None \<Rightarrow> Inr None)"

fun min_offset_loop ::
    "replication_offset option \<Rightarrow> replication_offset list \<Rightarrow> offset_error + replication_offset option" where
  "min_offset_loop res [] = Inr res"
| "min_offset_loop (Some off1) (off2 # os) =
     (if replication_log_name off1 \<noteq> replication_log_name off2
      then Inl (ReplicationOffsetLogDifferent (replication_log_name off1) (replication_log_name off2))
      else min_offset_loop (Some (if offset off1 > offset off2 then off2 else off1)) os)"
| "min_offset_loop None (off # os) = min_offset_loop (Some off) os"

definition present_offsets :: "'t replication_offsets \<Rightarrow> replication_offset list" where
  "present_offsets r = List.map_filter id (schema r # map snd (tables r))"

definition min_present_offset :: "'t replication_offsets \<Rightarrow> offset_error + replication_offset option" where
  "min_present_offset r = min_offset_loop None (present_offsets r)"

fun advance_tables ::
    "replication_offset \<Rightarrow> ('t \<times> replication_offset option) list \<Rightarrow>
     (offset_error + unit) \<times> ('t \<times> replication_offset option) list" where
  "advance_tables off [] = (Inr (), [])"
| "advance_tables off ((t, table_offset) # ts) =
     (case try_max_into off table_offset of
        (Inl e, new) \<Rightarrow> (Inl e, (t, new) # ts)
      | (Inr _, new) \<Rightarrow> (case advance_tables off ts of (res, ts') \<Rightarrow> (res, (t, new) # ts')))"

definition advance_offset ::
    "'t replication_offsets \<Rightarrow> replication_offset \<Rightarrow> (offset_error + unit) \<times> 't replication_offsets" where
  "advance_offset r off =
     (case advance_tables off (tables r) of
        (Inl e, ts) \<Rightarrow> (Inl e, r\<lparr>tables := ts\<rparr>)
      | (Inr _, ts) \<Rightarrow>
          (case try_max_into off (schema r) of
             (res, s) \<Rightarrow> (res, r\<lparr>tables := ts, schema := s\<rparr>)))"

subsection \<open>Timestamps as functions\<close>

definition ts_le :: "'n timestamp \<Rightarrow> 'n timestamp \<Rightarrow> bool" where
  "ts_le t s = (\<forall>n v. hm_get t n = Some v \<longrightarrow> (\<exists>w. hm_get s n = Some w \<and> v \<le> w))"

lemma satisfies_le: "hm_inv t \<Longrightarrow> satisfies s t \<longleftrightarrow> ts_le t s"
proof (induction s t rule: satisfies.induct)
  case (1 s)
  then show ?case by (simp add: ts_le_def)
next
  case (2 s n v es)
  then have n: "hm_get es n = None" by (simp add: hm_get_None)
  have "ts_le ((n, v) # es) s \<longleftrightarrow> (\<exists>w. hm_get s n = Some w \<and> v \<le> w) \<and> ts_le es s"
    using n by (auto simp: ts_le_def)
  with 2 show ?case by (cases "hm_get s n") (auto simp: not_less)
qed

definition opt_max :: "nat option \<Rightarrow> nat option \<Rightarrow> nat option" where
  "opt_max a b = (case (a, b) of (None, _) \<Rightarrow> b | (_, None) \<Rightarrow> a | (Some x, Some y) \<Rightarrow> Some (max x y))"

lemma join_keys_value:
  assumes "set keys \<subseteq> fst ` set t1 \<union> fst ` set t2" "hm_inv ret"
    and "\<And>k v. hm_get ret k = Some v \<Longrightarrow> opt_max (hm_get t1 k) (hm_get t2 k) = Some v"
  shows "\<exists>t. join_keys t1 t2 keys ret = Some t \<and> hm_inv t \<and>
    (\<forall>k. hm_get t k = (if k \<in> set keys \<or> hm_get ret k \<noteq> None then opt_max (hm_get t1 k) (hm_get t2 k) else None))"
  using assms
proof (induction keys arbitrary: ret)
  case Nil
  then show ?case by (auto intro!: exI [of _ ret])
next
  case (Cons key keys)
  show ?case
  proof (cases "hm_get ret key")
    case (Some v)
    with Cons.IH [of ret] Cons.prems show ?thesis by auto
  next
    case None
    let ?v = "opt_max (hm_get t1 key) (hm_get t2 key)"
    have "?v \<noteq> None"
    proof -
      have "hm_get t1 key \<noteq> None \<or> hm_get t2 key \<noteq> None" using Cons.prems(1) by (simp add: hm_get_None)
      then show ?thesis by (cases "hm_get t1 key"; cases "hm_get t2 key") (auto simp: opt_max_def)
    qed
    then obtain v where v: "?v = Some v" by blast
    then have step: "join_keys t1 t2 (key # keys) ret = join_keys t1 t2 keys (hm_insert key v ret)"
      using None by (cases "hm_get t1 key"; cases "hm_get t2 key") (auto simp: opt_max_def max_def)
    let ?ret = "hm_insert key v ret"
    have get: "hm_get ?ret k = (if k = key then Some v else hm_get ret k)" for k
      using Cons.prems(2) by (simp add: hm.get_put)
    have "opt_max (hm_get t1 k) (hm_get t2 k) = Some w" if "hm_get ?ret k = Some w" for k w
      using that v Cons.prems(3) by (cases "k = key") (simp_all add: get)
    then obtain t where t: "join_keys t1 t2 keys ?ret = Some t" "hm_inv t"
      "\<forall>k. hm_get t k = (if k \<in> set keys \<or> hm_get ?ret k \<noteq> None then opt_max (hm_get t1 k) (hm_get t2 k) else None)"
      using Cons.IH [of ?ret] Cons.prems(1,2) hm.inv_put [of ret key v] by auto
    have "hm_get t k = (if k \<in> set (key # keys) \<or> hm_get ret k \<noteq> None then opt_max (hm_get t1 k) (hm_get t2 k) else None)" for k
      using t(3) v by (simp add: get)
    with t(1,2) show ?thesis unfolding step by blast
  qed
qed

lemma ts_join_value:
  "\<exists>t. ts_join t1 t2 = Some t \<and> hm_inv t \<and> (\<forall>k. hm_get t k = opt_max (hm_get t1 k) (hm_get t2 k))"
proof -
  have "opt_max (hm_get t1 k) (hm_get t2 k) = None" if "k \<notin> fst ` set t1" "k \<notin> fst ` set t2" for k
    using that by (simp add: opt_max_def flip: hm_get_None)
  then show ?thesis
    using join_keys_value [of "map fst t1 @ map fst t2" t1 t2 "[]"] by (auto simp: ts_join_def)
qed

definition opt_min :: "nat option \<Rightarrow> nat option \<Rightarrow> nat option" where
  "opt_min a b = (case (a, b) of (None, _) \<Rightarrow> b | (_, None) \<Rightarrow> a | (Some x, Some y) \<Rightarrow> Some (min x y))"

lemma min_entries_value:
  "hm_inv es \<Longrightarrow> hm_inv ret \<Longrightarrow> hm_inv (min_entries es ret) \<and>
   (\<forall>k. hm_get (min_entries es ret) k = opt_min (hm_get ret k) (hm_get es k))"
proof (induction es ret rule: min_entries.induct)
  case (1 ret)
  then show ?case by (auto simp: opt_min_def split: option.splits)
next
  case (2 n v es ret)
  let ?ret = "case hm_get ret n of
      Some c \<Rightarrow> if c > v then hm_insert n v ret else ret | None \<Rightarrow> hm_insert n v ret"
  have n: "hm_get es n = None" using 2(2) by (simp add: hm_get_None)
  have inv: "hm_inv ?ret" using 2(3) by (auto simp: hm.inv_put split: option.splits)
  have get: "hm_get ?ret k = (if k = n then opt_min (hm_get ret n) (Some v) else hm_get ret k)" for k
    using 2(3) by (cases "hm_get ret n") (auto simp: hm.get_put opt_min_def min_def)
  have "opt_min (hm_get ?ret k) (hm_get es k) = opt_min (hm_get ret k) (hm_get ((n, v) # es) k)" for k
    using n by (auto simp: get opt_min_def split: option.splits)
  with 2(1) [OF _ inv] 2(2) show ?case by simp
qed

definition present_at :: "'n timestamp list \<Rightarrow> 'n \<Rightarrow> nat set" where
  "present_at ts n = {v. \<exists>t\<in>set ts. hm_get t n = Some v}"

lemma opt_min_Some:
  "opt_min a (Some y) = Some (case a of None \<Rightarrow> y | Some x \<Rightarrow> min x y)" "opt_min a None = a"
  by (auto simp: opt_min_def split: option.splits)

lemma fold_min_value:
  assumes "list_all hm_inv ts" "hm_inv ret"
  shows "hm_get (fold min_entries ts ret) n =
    (let V = present_at ts n \<union> set_option (hm_get ret n) in if V = {} then None else Some (Min V))"
  using assms
proof (induction ts arbitrary: ret)
  case Nil
  then show ?case by (cases "hm_get ret n") (auto simp: present_at_def)
next
  case (Cons t ts)
  let ?ret = "min_entries t ret"
  have me: "hm_inv ?ret" "hm_get ?ret n = opt_min (hm_get ret n) (hm_get t n)"
    using min_entries_value [of t ret] Cons.prems by simp_all
  have fin: "finite (present_at ts n)"
  proof -
    have "present_at ts n \<subseteq> (\<lambda>t. the (hm_get t n)) ` set ts" by (force simp: present_at_def)
    then show ?thesis by (rule finite_subset) simp
  qed
  have V: "present_at (t # ts) n = present_at ts n \<union> set_option (hm_get t n)"
    by (cases "hm_get t n") (auto simp: present_at_def)
  have IH: "hm_get (fold min_entries ts ?ret) n =
      (let V = present_at ts n \<union> set_option (opt_min (hm_get ret n) (hm_get t n))
       in if V = {} then None else Some (Min V))"
    using Cons.IH [OF _ me(1)] Cons.prems by (simp add: me(2))
  have min2: "Min (insert (min x y) V) = Min (insert x (insert y V))" if "finite V" for x y :: nat and V
    using that by (cases "V = {}") (simp_all add: min.assoc)
  show ?case
    unfolding V fold_simps IH
    by (cases "hm_get t n"; cases "hm_get ret n") (simp_all add: opt_min_Some min2 [OF fin] insert_commute)
qed

subsection \<open>Offsets of one log\<close>

definition same_log :: "replication_offset \<Rightarrow> replication_offset option \<Rightarrow> bool" where
  "same_log off o' = (case o' of None \<Rightarrow> True | Some oth \<Rightarrow> replication_log_name oth = replication_log_name off)"

definition advanced :: "replication_offset \<Rightarrow> replication_offset option \<Rightarrow> replication_offset option" where
  "advanced off o' = (case o' of None \<Rightarrow> Some off | Some oth \<Rightarrow> Some (oth\<lparr>offset := max (offset oth) (offset off)\<rparr>))"

lemma try_max_into_cases:
  "same_log off o' \<Longrightarrow> try_max_into off o' = (Inr (), advanced off o')"
  "\<not> same_log off o' \<Longrightarrow> try_max_into off o' =
     (Inl (ReplicationOffsetLogDifferent (replication_log_name off) (replication_log_name (the o'))), o')"
  by (cases o'; auto simp: same_log_def advanced_def try_max_into_def max_def)+

lemma advance_tables_ok:
  "list_all (same_log off \<circ> snd) ts \<Longrightarrow> advance_tables off ts = (Inr (), map (\<lambda>(t, x). (t, advanced off x)) ts)"
  by (induction ts) (auto simp: try_max_into_cases)

lemma advanced_all:
  "list_all (same_log off \<circ> snd) ts \<Longrightarrow>
   list_all2 (\<lambda>(t, x) (t', x'). t' = t \<and> (x' = x \<or> same_log off x \<and> x' = advanced off x)) ts
     (map (\<lambda>(t, x). (t, advanced off x)) ts)"
  by (induction ts) auto

lemma advance_tables_error:
  "\<not> list_all (same_log off \<circ> snd) ts \<Longrightarrow> \<exists>n ts'. advance_tables off ts =
     (Inl (ReplicationOffsetLogDifferent (replication_log_name off) n), ts') \<and> n \<noteq> replication_log_name off \<and>
     list_all2 (\<lambda>(t, x) (t', x'). t' = t \<and> (x' = x \<or> same_log off x \<and> x' = advanced off x)) ts ts'"
proof (induction ts)
  case Nil
  then show ?case by simp
next
  case (Cons tx ts)
  obtain t x where tx: "tx = (t, x)" by fastforce
  show ?case
  proof (cases "same_log off x")
    case True
    with Cons show ?thesis by (auto simp: tx try_max_into_cases)
  next
    case False
    then have "replication_log_name (the x) \<noteq> replication_log_name off"
      by (auto simp: same_log_def split: option.splits)
    moreover have "list_all2 (\<lambda>(t, x) (t', x'). t' = t \<and> (x' = x \<or> same_log off x \<and> x' = advanced off x)) ts ts"
      by (auto intro: list_all2_refl)
    ultimately show ?thesis using False by (auto simp: tx try_max_into_cases)
  qed
qed

lemma max_offset_loop_ok:
  assumes "list_all (\<lambda>o'. o' \<noteq> None \<and> same_log res o') os"
  shows "\<exists>m. max_offset_loop res os = Inr (Some m) \<and> Some m \<in> insert (Some res) (set os) \<and>
    offset res \<le> offset m \<and> list_all (\<lambda>o'. offset (the o') \<le> offset m) os"
  using assms
proof (induction res os rule: max_offset_loop.induct)
  case (3 res off os)
  let ?res = "if offset off > offset res then off else res"
  have "list_all (\<lambda>o'. o' \<noteq> None \<and> same_log ?res o') os"
    using 3(2) by (auto simp: same_log_def list_all_iff split: option.splits)
  with 3 obtain m where "max_offset_loop ?res os = Inr (Some m)" "Some m \<in> insert (Some ?res) (set os)"
    "offset ?res \<le> offset m" "list_all (\<lambda>o'. offset (the o') \<le> offset m) os"
    by (auto simp: same_log_def)
  then show ?case using 3(2) by (auto simp: same_log_def split: if_splits)
qed simp_all

lemma max_offset_loop_mismatch:
  assumes "\<exists>o'\<in>set os. \<not> same_log res o'" "None \<notin> set os"
  shows "\<exists>e. max_offset_loop res os = Inl e"
  using assms
proof (induction res os rule: max_offset_loop.induct)
  case (3 res off os)
  show ?case
  proof (cases "same_log res (Some off)")
    case True
    then have "replication_log_name off = replication_log_name res" by (simp add: same_log_def)
    then have "\<exists>o'\<in>set os. \<not> same_log (if offset off > offset res then off else res) o'"
      using 3(2) True by (auto simp: same_log_def split: option.splits)
    with 3 \<open>replication_log_name off = replication_log_name res\<close> show ?thesis by simp
  qed (auto simp: same_log_def)
qed auto

lemma min_offset_loop_ok:
  assumes "list_all (\<lambda>o'. replication_log_name o' = replication_log_name res) os"
  shows "\<exists>m. min_offset_loop (Some res) os = Inr (Some m) \<and> m \<in> insert res (set os) \<and>
    offset m \<le> offset res \<and> list_all (\<lambda>o'. offset m \<le> offset o') os"
  using assms
proof (induction os arbitrary: res)
  case Nil
  then show ?case by simp
next
  case (Cons off os)
  let ?res = "if offset res > offset off then off else res"
  have "list_all (\<lambda>o'. replication_log_name o' = replication_log_name ?res) os"
    using Cons.prems by (auto simp: list_all_iff)
  from Cons.IH [OF this] obtain m where "min_offset_loop (Some ?res) os = Inr (Some m)"
    "m \<in> insert ?res (set os)" "offset m \<le> offset ?res" "list_all (\<lambda>o'. offset m \<le> offset o') os" by blast
  then show ?case using Cons.prems by (auto split: if_splits)
qed

subsection \<open>Properties of timestamps and offsets\<close>

text \<open>
  C28. \<open>Timestamp::join\<close> never reaches its \<open>unreachable!\<close> and gives the least upper bound for
  \<open>satisfies\<close>: a timestamp satisfies the join exactly when it satisfies both; \<open>Timestamp::min\<close> has, for
  every table, the least value among the timestamps that have one.
\<close>

theorem timestamp_join_min:
  assumes "hm_inv t1" and "hm_inv t2" and "list_all hm_inv ts"
  shows "(\<exists>t. ts_join t1 t2 = Some t \<and> (\<forall>s. satisfies s t \<longleftrightarrow> satisfies s t1 \<and> satisfies s t2)) \<and>
    (\<forall>n. hm_get (ts_min ts) n = (if present_at ts n = {} then None else Some (Min (present_at ts n))))"
proof -
  obtain t where t: "ts_join t1 t2 = Some t" "hm_inv t" "\<forall>k. hm_get t k = opt_max (hm_get t1 k) (hm_get t2 k)"
    using ts_join_value by blast
  have "ts_le t s \<longleftrightarrow> ts_le t1 s \<and> ts_le t2 s" for s
  proof -
    have "(\<forall>v. hm_get t k = Some v \<longrightarrow> (\<exists>w. hm_get s k = Some w \<and> v \<le> w)) \<longleftrightarrow>
      (\<forall>v. hm_get t1 k = Some v \<longrightarrow> (\<exists>w. hm_get s k = Some w \<and> v \<le> w)) \<and>
      (\<forall>v. hm_get t2 k = Some v \<longrightarrow> (\<exists>w. hm_get s k = Some w \<and> v \<le> w))" for k
      using t(3) by (cases "hm_get t1 k"; cases "hm_get t2 k") (auto simp: opt_max_def)
    then show ?thesis unfolding ts_le_def by blast
  qed
  then have "\<forall>s. satisfies s t \<longleftrightarrow> satisfies s t1 \<and> satisfies s t2"
    using assms(1,2) t(2) by (simp add: satisfies_le)
  moreover have "hm_get (ts_min ts) n = (if present_at ts n = {} then None else Some (Min (present_at ts n)))" for n
    using fold_min_value [OF assms(3), of "[]" n] by (simp add: ts_min_def)
  ultimately show ?thesis using t(1) by blast
qed

theorem timestamp_join_min_witness:
  "ts_join [(1::nat, 5), (2, 3)] [(2, 4)] = Some [(1, 5), (2, 4)] \<and>
   satisfies [(2, 4), (1, 7)] [(1::nat, 5), (2, 3)] \<and> satisfies [(2, 4), (1, 7)] [(2::nat, 4)] \<and>
   hm_get (ts_min [[(1::nat, 5), (2, 3)], [(2, 4)]]) 2 = Some 3"
proof -
  have inv: "hm_inv [(1::nat, 5::nat), (2, 3)]" "hm_inv [(2::nat, 4::nat)]"
    "list_all hm_inv [[(1::nat, 5::nat), (2, 3)], [(2, 4)]]" by simp_all
  have "present_at [[(1::nat, 5), (2, 3)], [(2, 4)]] 2 = {3, 4}" by (auto simp: present_at_def)
  moreover have "ts_join [(1::nat, 5), (2, 3)] [(2, 4)] = Some [(1, 5), (2, 4)]"
    by (simp add: ts_join_def)
  moreover have "satisfies [(2, 4), (1, 7)] [(1::nat, 5), (2, 4)]" by simp
  ultimately show ?thesis using timestamp_join_min [OF inv] by auto
qed

text \<open>
  C29. \<open>advance_offset\<close> moves the schema and every table forward, and never back, exactly when all of
  them are in the log of the given offset; otherwise it fails with that error, having advanced some
  of the tables and lowered none.
\<close>

theorem advance_offset_forward:
  "case advance_offset r off of (res, r') \<Rightarrow>
     if same_log off (schema r) \<and> list_all (same_log off \<circ> snd) (tables r)
     then res = Inr () \<and> schema r' = advanced off (schema r) \<and>
       tables r' = map (\<lambda>(t, x). (t, advanced off x)) (tables r)
     else (\<exists>n. res = Inl (ReplicationOffsetLogDifferent (replication_log_name off) n) \<and> n \<noteq> replication_log_name off) \<and>
       schema r' = schema r \<and>
       list_all2 (\<lambda>(t, x) (t', x'). t' = t \<and> (x' = x \<or> same_log off x \<and> x' = advanced off x)) (tables r) (tables r')"
proof (cases "list_all (same_log off \<circ> snd) (tables r)")
  case True
  note ts = advance_tables_ok [OF True]
  show ?thesis
  proof (cases "same_log off (schema r)")
    case s: True
    then show ?thesis using ts True by (simp add: advance_offset_def try_max_into_cases)
  next
    case s: False
    then have "replication_log_name (the (schema r)) \<noteq> replication_log_name off"
      by (auto simp: same_log_def split: option.splits)
    moreover have "list_all2 (\<lambda>(t, x) (t', x'). t' = t \<and> (x' = x \<or> same_log off x \<and> x' = advanced off x))
        (tables r) (map (\<lambda>(t, x). (t, advanced off x)) (tables r))"
      using True by (rule advanced_all)
    ultimately show ?thesis using ts True s by (simp add: advance_offset_def try_max_into_cases)
  qed
next
  case False
  then show ?thesis using advance_tables_error [OF False] by (auto simp: advance_offset_def)
qed



end
