(* ===== verification/SqlOperators.thy ===== *)
theory SqlOperators
  imports Prelude
begin

section \<open>Operators of SQL expressions\<close>

text \<open>
  \<open>BinaryOperator\<close>, \<open>UnaryOperator\<close> and \<open>OrderType\<close> of \<open>src/nom-sql/src\<close>, the comparison
  helpers and the printed form of the operators.
\<close>

datatype binary_operator =
    And | Or | Like | NotLike | ILike | NotILike
  | OpEqual | NotEqual | OpGreater | GreaterOrEqual | OpLess | LessOrEqual
  | Is | IsNot | Add | Subtract | HashSubtract | Multiply | Divide
  | QuestionMark | QuestionMarkPipe | QuestionMarkAnd | DoublePipe
  | Arrow1 | Arrow2 | HashArrow1 | HashArrow2 | AtArrowRight | AtArrowLeft

datatype unary_operator = Neg | Not

datatype order_type = OrderAscending | OrderDescending

fun is_comparison :: "binary_operator \<Rightarrow> bool" where
  "is_comparison OpGreater = True"
| "is_comparison GreaterOrEqual = True"
| "is_comparison OpLess = True"
| "is_comparison LessOrEqual = True"
| "is_comparison _ = False"

fun flip_comparison :: "binary_operator \<Rightarrow> binary_operator + binary_operator" where
  "flip_comparison OpGreater = Inr OpLess"
| "flip_comparison GreaterOrEqual = Inr LessOrEqual"
| "flip_comparison OpLess = Inr OpGreater"
| "flip_comparison LessOrEqual = Inr GreaterOrEqual"
| "flip_comparison op = Inl op"

fun operator_display :: "binary_operator \<Rightarrow> string" where
  "operator_display And = ''AND''"
| "operator_display Or = ''OR''"
| "operator_display Like = ''LIKE''"
| "operator_display NotLike = ''NOT LIKE''"
| "operator_display ILike = ''ILIKE''"
| "operator_display NotILike = ''NOT ILIKE''"
| "operator_display OpEqual = ''=''"
| "operator_display NotEqual = ''!=''"
| "operator_display OpGreater = ''>''"
| "operator_display GreaterOrEqual = ''>=''"
| "operator_display OpLess = ''<''"
| "operator_display LessOrEqual = ''<=''"
| "operator_display Is = ''IS''"
| "operator_display IsNot = ''IS NOT''"
| "operator_display Add = ''+''"
| "operator_display Subtract = ''-''"
| "operator_display HashSubtract = ''#-''"
| "operator_display Multiply = ''*''"
| "operator_display Divide = ''/''"
| "operator_display QuestionMark = ''?''"
| "operator_display QuestionMarkPipe = ''?|''"
| "operator_display QuestionMarkAnd = ''?&''"
| "operator_display DoublePipe = ''||''"
| "operator_display Arrow1 = ''->''"
| "operator_display Arrow2 = ''->>''"
| "operator_display HashArrow1 = ''#>''"
| "operator_display HashArrow2 = ''#>>''"
| "operator_display AtArrowRight = ''@>''"
| "operator_display AtArrowLeft = ''<@''"

text \<open>Flipping succeeds exactly on the ordered comparisons, gives one of them and is an involution.\<close>

lemma flip_comparison_involutive:
  "(case flip_comparison op of
      Inr op' \<Rightarrow> is_comparison op \<and> is_comparison op' \<and> flip_comparison op' = Inr op
    | Inl op' \<Rightarrow> \<not> is_comparison op \<and> op' = op)"
  by (cases op) simp_all

lemma operator_display_inj: "operator_display a = operator_display b \<Longrightarrow> a = b"
  by (cases a; cases b; simp)

end
