(* ===== verification/Keys.thy ===== *)
theory Keys
  imports Ranges SqlOperators "HOL-Library.List_Lexorder"
begin

section \<open>Lookup keys\<close>

text \<open>
  \<open>KeyComparison\<close> of \<open>src/readyset-client/src/view.rs\<close> and \<open>PointKey\<close>, \<open>RangeKey\<close> of
  \<open>src/dataflow-state/src/key.rs\<close>. A data value is any linearly ordered type \<open>'v\<close>; the key
  vectors, \<open>Vec1\<close> in the code, are lists that the constructors of the code refuse when they are
  empty. Lists compare lexicographically, as slices do. The hash that places a value in a shard
  is the parameter \<open>shard_by\<close>.
\<close>

subsection \<open>Key comparisons\<close>

datatype key_error =
    EmptyKey
  | Unsupported binary_operator
  | Size0Error
  | KeyPanic

datatype 'v key_comparison =
    KEqual "'v list"
  | KRange "'v list bound_pair"

definition vec1_try_from :: "key_error \<Rightarrow> 'v list \<Rightarrow> key_error + 'v list" where
  "vec1_try_from err key = (if key = [] then Inl err else Inr key)"

definition from_key_and_operator :: "'v list \<Rightarrow> binary_operator \<Rightarrow> key_error + 'v key_comparison" where
  "from_key_and_operator key operator =
     try_bind (vec1_try_from EmptyKey key)
       (\<lambda>key. case operator of
          OpGreater \<Rightarrow> Inr (KRange (Excluded key, Unbounded))
        | GreaterOrEqual \<Rightarrow> Inr (KRange (Included key, Unbounded))
        | OpLess \<Rightarrow> Inr (KRange (Unbounded, Excluded key))
        | LessOrEqual \<Rightarrow> Inr (KRange (Unbounded, Included key))
        | OpEqual \<Rightarrow> Inr (KEqual key)
        | _ \<Rightarrow> Inl (Unsupported operator))"

fun kc_equal :: "'v key_comparison \<Rightarrow> 'v list option" where
  "kc_equal (KEqual key) = Some key"
| "kc_equal (KRange (Included key, Included key2)) = (if key = key2 then Some key else None)"
| "kc_equal _ = None"

fun kc_range :: "'v key_comparison \<Rightarrow> 'v list bound_pair option" where
  "kc_range (KRange r) = Some r"
| "kc_range _ = None"

fun kc_from_range :: "'v list bound_pair \<Rightarrow> 'v key_comparison" where
  "kc_from_range (Included key1, Included key2) =
     (if key1 = key2 then KEqual key1 else KRange (Included key1, Included key2))"
| "kc_from_range (s, e) = KRange (s, e)"

fun start_bound :: "'v key_comparison \<Rightarrow> 'v list bound" where
  "start_bound (KEqual key) = Included key"
| "start_bound (KRange (Unbounded, _)) = Unbounded"
| "start_bound (KRange (Included k, _)) = Included k"
| "start_bound (KRange (Excluded k, _)) = Excluded k"

fun end_bound :: "'v key_comparison \<Rightarrow> 'v list bound" where
  "end_bound (KEqual key) = Included key"
| "end_bound (KRange (_, Unbounded)) = Unbounded"
| "end_bound (KRange (_, Included k)) = Included k"
| "end_bound (KRange (_, Excluded k)) = Excluded k"

definition is_reversed_range :: "'v::linorder key_comparison \<Rightarrow> bool" where
  "is_reversed_range k = (cmp_start_end (start_bound k) (end_bound k) = Greater)"

fun shard_keys_at :: "('v \<Rightarrow> nat \<Rightarrow> nat) \<Rightarrow> 'v key_comparison \<Rightarrow> nat \<Rightarrow> nat \<Rightarrow> key_error + nat list" where
  "shard_keys_at shard_by (KEqual key) key_idx num_shards =
     (if key_idx < length key then Inr [shard_by (key ! key_idx) num_shards] else Inl KeyPanic)"
| "shard_keys_at shard_by (KRange _) key_idx num_shards = Inr [0..<num_shards]"

definition shard_keys :: "('v \<Rightarrow> nat \<Rightarrow> nat) \<Rightarrow> 'v key_comparison \<Rightarrow> nat \<Rightarrow> key_error + nat list" where
  "shard_keys shard_by k num_shards = shard_keys_at shard_by k 0 num_shards"

fun kc_len :: "'v key_comparison \<Rightarrow> nat option" where
  "kc_len (KEqual key) = Some (length key)"
| "kc_len (KRange (Unbounded, Unbounded)) = None"
| "kc_len (KRange (Included key, _)) = Some (length key)"
| "kc_len (KRange (Excluded key, _)) = Some (length key)"
| "kc_len (KRange (Unbounded, Included key)) = Some (length key)"
| "kc_len (KRange (Unbounded, Excluded key)) = Some (length key)"

fun kc_contains :: "'v::linorder key_comparison \<Rightarrow> 'v list \<Rightarrow> bool" where
  "kc_contains (KEqual equal) key = (rs_cmp key equal = Equal)"
| "kc_contains (KRange (lo, up)) key =
     ((case lo of
         Included start \<Rightarrow> rs_cmp key start \<noteq> Less
       | Excluded start \<Rightarrow> rs_cmp key start = Greater
       | Unbounded \<Rightarrow> True) \<and>
      (case up of
         Included end \<Rightarrow> rs_cmp key end \<noteq> Greater
       | Excluded end \<Rightarrow> rs_cmp key end = Less
       | Unbounded \<Rightarrow> True))"

fun is_equal :: "'v key_comparison \<Rightarrow> bool" where
  "is_equal (KEqual _) = True"
| "is_equal _ = False"

fun is_range :: "'v key_comparison \<Rightarrow> bool" where
  "is_range (KRange _) = True"
| "is_range _ = False"

fun map_bound_key :: "('v \<Rightarrow> 'w) \<Rightarrow> 'v bound \<Rightarrow> 'w bound" where
  "map_bound_key f (Included k) = Included (f k)"
| "map_bound_key f (Excluded k) = Excluded (f k)"
| "map_bound_key f Unbounded = Unbounded"

fun map_endpoints :: "('v list \<Rightarrow> 'v list) \<Rightarrow> 'v key_comparison \<Rightarrow> 'v key_comparison" where
  "map_endpoints f (KEqual k) = KEqual (f k)"
| "map_endpoints f (KRange (lo, up)) = KRange (map_bound_key f lo, map_bound_key f up)"

text \<open>\<open>PartialEq::eq\<close>; the last arm of the code swaps its operands.\<close>

fun kc_eq :: "'v key_comparison \<Rightarrow> 'v key_comparison \<Rightarrow> bool" where
  "kc_eq (KEqual k1) (KEqual k2) = (k1 = k2)"
| "kc_eq (KRange r1) (KRange r2) = (r1 = r2)"
| "kc_eq (KEqual eq) (KRange (Included k1, Included k2)) = (eq = k1 \<and> k1 = k2)"
| "kc_eq (KEqual _) (KRange _) = False"
| "kc_eq (KRange (Included k1, Included k2)) (KEqual eq) = (eq = k1 \<and> k1 = k2)"
| "kc_eq (KRange _) (KEqual _) = False"

text \<open>What \<open>Hash::hash\<close> feeds to the hasher: a key vector, or a pair of bounds.\<close>

fun kc_hash :: "'v key_comparison \<Rightarrow> 'v list + 'v list bound_pair" where
  "kc_hash (KEqual k) = Inl k"
| "kc_hash (KRange (Included k1, Included k2)) =
     (if k1 = k2 then Inl k1 else Inr (Included k1, Included k2))"
| "kc_hash (KRange r) = Inr r"

definition kc_try_from :: "'v list \<Rightarrow> key_error + 'v key_comparison" where
  "kc_try_from value = try_bind (vec1_try_from Size0Error value) (\<lambda>key. Inr (KEqual key))"

fun convert_bound :: "'v list bound \<Rightarrow> key_error + 'v list bound" where
  "convert_bound Unbounded = Inr Unbounded"
| "convert_bound (Included x) = try_bind (vec1_try_from Size0Error x) (\<lambda>x. Inr (Included x))"
| "convert_bound (Excluded x) = try_bind (vec1_try_from Size0Error x) (\<lambda>x. Inr (Excluded x))"

fun kc_try_from_bounds :: "'v list bound_pair \<Rightarrow> key_error + 'v key_comparison" where
  "kc_try_from_bounds (lo, up) =
     try_bind (convert_bound lo) (\<lambda>l. try_bind (convert_bound up) (\<lambda>u. Inr (KRange (l, u))))"

subsection \<open>Point keys\<close>

datatype 'v point_key =
    Single 'v
  | Double "'v \<times> 'v"
  | Tri "'v \<times> 'v \<times> 'v"
  | Quad "'v \<times> 'v \<times> 'v \<times> 'v"
  | Quin "'v \<times> 'v \<times> 'v \<times> 'v \<times> 'v"
  | Sex "'v \<times> 'v \<times> 'v \<times> 'v \<times> 'v \<times> 'v"
  | Multi "'v list"

text \<open>The elements of the tuples, as \<open>TupleElements\<close> gives them.\<close>

fun pk_elements :: "'v point_key \<Rightarrow> 'v list" where
  "pk_elements (Single a) = [a]"
| "pk_elements (Double (a, b)) = [a, b]"
| "pk_elements (Tri (a, b, c)) = [a, b, c]"
| "pk_elements (Quad (a, b, c, d)) = [a, b, c, d]"
| "pk_elements (Quin (a, b, c, d, e)) = [a, b, c, d, e]"
| "pk_elements (Sex (a, b, c, d, e, f)) = [a, b, c, d, e, f]"
| "pk_elements (Multi xs) = xs"

definition get_element :: "'v list \<Rightarrow> nat \<Rightarrow> 'v option" where
  "get_element xs i = (if i < length xs then Some (xs ! i) else None)"

fun pk_get :: "'v point_key \<Rightarrow> nat \<Rightarrow> 'v option" where
  "pk_get (Single x) idx = (if idx = 0 then Some x else None)"
| "pk_get k idx = get_element (pk_elements k) idx"

fun pk_from :: "'v list \<Rightarrow> key_error + 'v point_key" where
  "pk_from [] = Inl KeyPanic"
| "pk_from [a] = Inr (Single a)"
| "pk_from [a, b] = Inr (Double (a, b))"
| "pk_from [a, b, c] = Inr (Tri (a, b, c))"
| "pk_from [a, b, c, d] = Inr (Quad (a, b, c, d))"
| "pk_from [a, b, c, d, e] = Inr (Quin (a, b, c, d, e))"
| "pk_from [a, b, c, d, e, f] = Inr (Sex (a, b, c, d, e, f))"
| "pk_from xs = Inr (Multi xs)"

fun pk_len :: "'v point_key \<Rightarrow> nat" where
  "pk_len (Single _) = 1"
| "pk_len (Double _) = 2"
| "pk_len (Tri _) = 3"
| "pk_len (Quad _) = 4"
| "pk_len (Quin _) = 5"
| "pk_len (Sex _) = 6"
| "pk_len (Multi k) = length k"

fun has_null :: "('v \<Rightarrow> bool) \<Rightarrow> 'v point_key \<Rightarrow> bool" where
  "has_null is_none (Single e) = is_none e"
| "has_null is_none (Double (e0, e1)) = (is_none e0 \<or> is_none e1)"
| "has_null is_none (Tri (e0, e1, e2)) = (is_none e0 \<or> is_none e1 \<or> is_none e2)"
| "has_null is_none (Quad (e0, e1, e2, e3)) = (is_none e0 \<or> is_none e1 \<or> is_none e2 \<or> is_none e3)"
| "has_null is_none (Quin (e0, e1, e2, e3, e4)) =
     (is_none e0 \<or> is_none e1 \<or> is_none e2 \<or> is_none e3 \<or> is_none e4)"
| "has_null is_none (Sex (e0, e1, e2, e3, e4, e5)) =
     (is_none e0 \<or> is_none e1 \<or> is_none e2 \<or> is_none e3 \<or> is_none e4 \<or> is_none e5)"
| "has_null is_none (Multi k) = list_ex is_none k"

subsection \<open>Range keys\<close>

datatype 'v range_key =
    RUnbounded
  | RSingle "'v bound_pair"
  | RDouble "('v \<times> 'v) bound_pair"
  | RTri "('v \<times> 'v \<times> 'v) bound_pair"
  | RQuad "('v \<times> 'v \<times> 'v \<times> 'v) bound_pair"
  | RQuin "('v \<times> 'v \<times> 'v \<times> 'v \<times> 'v) bound_pair"
  | RSex "('v \<times> 'v \<times> 'v \<times> 'v \<times> 'v \<times> 'v) bound_pair"
  | RMulti "'v list bound_pair"

definition map_bounds :: "('a \<Rightarrow> 'b) \<Rightarrow> 'a bound_pair \<Rightarrow> 'b bound_pair" where
  "map_bounds f r = (map_bound_key f (fst r), map_bound_key f (snd r))"

definition make2 :: "'v list \<Rightarrow> 'v \<times> 'v" where
  "make2 k = (k ! 0, k ! 1)"

definition make3 :: "'v list \<Rightarrow> 'v \<times> 'v \<times> 'v" where
  "make3 k = (k ! 0, k ! 1, k ! 2)"

definition make4 :: "'v list \<Rightarrow> 'v \<times> 'v \<times> 'v \<times> 'v" where
  "make4 k = (k ! 0, k ! 1, k ! 2, k ! 3)"

definition make5 :: "'v list \<Rightarrow> 'v \<times> 'v \<times> 'v \<times> 'v \<times> 'v" where
  "make5 k = (k ! 0, k ! 1, k ! 2, k ! 3, k ! 4)"

definition make6 :: "'v list \<Rightarrow> 'v \<times> 'v \<times> 'v \<times> 'v \<times> 'v \<times> 'v" where
  "make6 k = (k ! 0, k ! 1, k ! 2, k ! 3, k ! 4, k ! 5)"

text \<open>The common length of the bounds; \<open>None\<close> when there is no bound, a panic when they differ.\<close>

fun rk_bounds_len :: "'v list bound_pair \<Rightarrow> key_error + nat option" where
  "rk_bounds_len (Unbounded, Unbounded) = Inr None"
| "rk_bounds_len (s, Unbounded) = Inr (map_option length (into_bound_endpoint s))"
| "rk_bounds_len (Unbounded, e) = Inr (map_option length (into_bound_endpoint e))"
| "rk_bounds_len (s, e) =
     (if map_option length (into_bound_endpoint s) = map_option length (into_bound_endpoint e)
      then Inr (map_option length (into_bound_endpoint s)) else Inl KeyPanic)"

definition rk_from :: "'v list bound_pair \<Rightarrow> key_error + 'v range_key" where
  "rk_from r =
     try_bind (rk_bounds_len r)
       (\<lambda>len. case len of
          None \<Rightarrow> Inr RUnbounded
        | Some n \<Rightarrow>
            if n = 1 then Inr (RSingle (map_bounds hd r))
            else if n = 2 then Inr (RDouble (map_bounds make2 r))
            else if n = 3 then Inr (RTri (map_bounds make3 r))
            else if n = 4 then Inr (RQuad (map_bounds make4 r))
            else if n = 5 then Inr (RQuin (map_bounds make5 r))
            else if n = 6 then Inr (RSex (map_bounds make6 r))
            else Inl KeyPanic)"

fun rk_upper_bound :: "'v range_key \<Rightarrow> 'v list bound" where
  "rk_upper_bound RUnbounded = Unbounded"
| "rk_upper_bound (RSingle (_, u)) = map_bound_key (\<lambda>v. [v]) u"
| "rk_upper_bound (RDouble (_, u)) = map_bound_key (pk_elements \<circ> Double) u"
| "rk_upper_bound (RTri (_, u)) = map_bound_key (pk_elements \<circ> Tri) u"
| "rk_upper_bound (RQuad (_, u)) = map_bound_key (pk_elements \<circ> Quad) u"
| "rk_upper_bound (RQuin (_, u)) = map_bound_key (pk_elements \<circ> Quin) u"
| "rk_upper_bound (RSex (_, u)) = map_bound_key (pk_elements \<circ> Sex) u"
| "rk_upper_bound (RMulti (_, u)) = u"

fun rk_len :: "'v range_key \<Rightarrow> nat option" where
  "rk_len RUnbounded = None"
| "rk_len (RMulti (Unbounded, Unbounded)) = None"
| "rk_len (RSingle _) = Some 1"
| "rk_len (RDouble _) = Some 2"
| "rk_len (RTri _) = Some 3"
| "rk_len (RQuad _) = Some 4"
| "rk_len (RQuin _) = Some 5"
| "rk_len (RSex _) = Some 6"
| "rk_len (RMulti (Included k, _)) = Some (length k)"
| "rk_len (RMulti (Excluded k, _)) = Some (length k)"
| "rk_len (RMulti (_, Included k)) = Some (length k)"
| "rk_len (RMulti (_, Excluded k)) = Some (length k)"

fun into_point_keys :: "'v range_key \<Rightarrow> 'v point_key bound_pair" where
  "into_point_keys RUnbounded = (Unbounded, Unbounded)"
| "into_point_keys (RSingle r) = map_bounds Single r"
| "into_point_keys (RDouble r) = map_bounds Double r"
| "into_point_keys (RTri r) = map_bounds Tri r"
| "into_point_keys (RQuad r) = map_bounds Quad r"
| "into_point_keys (RQuin r) = map_bounds Quin r"
| "into_point_keys (RSex r) = map_bounds Sex r"
| "into_point_keys (RMulti r) = map_bounds Multi r"

fun as_bound_pair :: "'v range_key \<Rightarrow> 'v list bound_pair" where
  "as_bound_pair RUnbounded = (Unbounded, Unbounded)"
| "as_bound_pair (RSingle r) = map_bounds (\<lambda>v. [v]) r"
| "as_bound_pair (RDouble r) = map_bounds (pk_elements \<circ> Double) r"
| "as_bound_pair (RTri r) = map_bounds (pk_elements \<circ> Tri) r"
| "as_bound_pair (RQuad r) = map_bounds (pk_elements \<circ> Quad) r"
| "as_bound_pair (RQuin r) = map_bounds (pk_elements \<circ> Quin) r"
| "as_bound_pair (RSex r) = map_bounds (pk_elements \<circ> Sex) r"
| "as_bound_pair (RMulti r) = r"

subsection \<open>Facts\<close>

lemma kc_contains_bounds:
  "kc_contains k x \<longleftrightarrow> range_contains (start_bound k) (end_bound k) x"
proof (cases k)
  case (KEqual e)
  then show ?thesis by (auto simp: range_contains_def)
next
  case (KRange r)
  obtain s e where "r = (s, e)" by (cases r)
  moreover have "rs_cmp a b \<noteq> Less \<longleftrightarrow> b \<le> a" "rs_cmp a b \<noteq> Greater \<longleftrightarrow> a \<le> b" for a b :: "'a list"
    by (auto simp: not_less)
  ultimately show ?thesis
    using KRange by (cases s; cases e; auto simp: range_contains_def simp del: rs_cmp_iff(1))
qed

lemma bounds_of_pair [simp]:
  "start_bound (KRange (s, e)) = s" "end_bound (KRange (s, e)) = e"
  by (cases s; simp) (cases e; simp)

lemma kc_equal_iff: "kc_equal k = Some x \<longleftrightarrow> start_bound k = Included x \<and> end_bound k = Included x"
  by (induction k rule: kc_equal.induct) auto

lemma kc_eq_iff: "kc_eq a b \<longleftrightarrow> start_bound a = start_bound b \<and> end_bound a = end_bound b"
  by (induction a b rule: kc_eq.induct) auto

lemma kc_hash_alt:
  "kc_hash k = (case kc_equal k of Some x \<Rightarrow> Inl x | None \<Rightarrow> Inr (start_bound k, end_bound k))"
  by (induction k rule: kc_hash.induct) auto

lemma kc_hash_iff: "kc_hash a = kc_hash b \<longleftrightarrow> kc_eq a b"
proof
  assume h: "kc_hash a = kc_hash b"
  show "kc_eq a b"
  proof (cases "kc_equal a")
    case None
    with h have "kc_equal b = None" by (simp add: kc_hash_alt split: option.splits)
    with None h show ?thesis by (simp add: kc_hash_alt kc_eq_iff)
  next
    case (Some x)
    with h have "kc_equal b = Some x" by (simp add: kc_hash_alt split: option.splits)
    with Some show ?thesis by (simp add: kc_equal_iff kc_eq_iff)
  qed
next
  assume "kc_eq a b"
  then have b: "start_bound a = start_bound b" "end_bound a = end_bound b" by (simp_all add: kc_eq_iff)
  then have e: "kc_equal a = Some x \<longleftrightarrow> kc_equal b = Some x" for x by (simp add: kc_equal_iff)
  have "kc_equal a = kc_equal b"
    using e [of "the (kc_equal a)"] e [of "the (kc_equal b)"]
    by (cases "kc_equal a"; cases "kc_equal b") simp_all
  with b show "kc_hash a = kc_hash b" by (simp add: kc_hash_alt split: option.split)
qed

lemma kc_from_range_bounds:
  "start_bound (kc_from_range r) = fst r \<and> end_bound (kc_from_range r) = snd r"
  by (induction r rule: kc_from_range.induct) auto

lemma reversed_contains_none: "is_reversed_range k \<Longrightarrow> \<not> kc_contains k x"
  by (cases "start_bound k"; cases "end_bound k")
    (auto simp: is_reversed_range_def kc_contains_bounds range_contains_def cmp_start_end_def
      start_key_def tuple_cmp_def rs_cmp_def split: if_splits)

lemma map_bound_key_id: "(\<And>k. into_bound_endpoint b = Some k \<Longrightarrow> g (f k) = k) \<Longrightarrow> map_bound_key g (map_bound_key f b) = b"
  by (cases b) (auto simp: into_bound_endpoint_def)

definition keys_of_len :: "nat \<Rightarrow> 'v list bound_pair \<Rightarrow> bool" where
  "keys_of_len n r \<longleftrightarrow>
     (\<forall>k. into_bound_endpoint (fst r) = Some k \<longrightarrow> length k = n) \<and>
     (\<forall>k. into_bound_endpoint (snd r) = Some k \<longrightarrow> length k = n)"

lemma rk_bounds_len_cases:
  "case rk_bounds_len r of
     Inl _ \<Rightarrow> \<exists>s e. into_bound_endpoint (fst r) = Some s \<and> into_bound_endpoint (snd r) = Some e \<and> length s \<noteq> length e
   | Inr None \<Rightarrow> r = (Unbounded, Unbounded)
   | Inr (Some n) \<Rightarrow> keys_of_len n r \<and> kc_len (KRange r) = Some n"
proof -
  obtain s e where "r = (s, e)" by (cases r)
  then show ?thesis
    by (cases s; cases e) (simp_all add: into_bound_endpoint_def keys_of_len_def)
qed

lemma list_of_len:
  "length k = 2 \<Longrightarrow> k = [k ! 0, k ! 1]"
  "length k = 3 \<Longrightarrow> k = [k ! 0, k ! 1, k ! 2]"
  "length k = 4 \<Longrightarrow> k = [k ! 0, k ! 1, k ! 2, k ! 3]"
  "length k = 5 \<Longrightarrow> k = [k ! 0, k ! 1, k ! 2, k ! 3, k ! 4]"
  "length k = 6 \<Longrightarrow> k = [k ! 0, k ! 1, k ! 2, k ! 3, k ! 4, k ! 5]"
  by (rule nth_equalityI, simp, auto simp: less_Suc_eq numeral_eq_Suc)+

lemma make_elements:
  "length k = 2 \<Longrightarrow> pk_elements (Double (make2 k)) = k"
  "length k = 3 \<Longrightarrow> pk_elements (Tri (make3 k)) = k"
  "length k = 4 \<Longrightarrow> pk_elements (Quad (make4 k)) = k"
  "length k = 5 \<Longrightarrow> pk_elements (Quin (make5 k)) = k"
  "length k = 6 \<Longrightarrow> pk_elements (Sex (make6 k)) = k"
  using list_of_len [of k] by (simp_all add: make2_def make3_def make4_def make5_def make6_def)

lemma map_bounds_inverse:
  "keys_of_len n r \<Longrightarrow> (\<And>k. length k = n \<Longrightarrow> g (f k) = k) \<Longrightarrow> map_bounds g (map_bounds f r) = r"
  by (auto simp: map_bounds_def keys_of_len_def intro!: prod_eqI map_bound_key_id)

lemma map_bounds_comp: "map_bounds g (map_bounds f r) = map_bounds (g \<circ> f) r"
proof -
  have "map_bound_key g (map_bound_key f b) = map_bound_key (g \<circ> f) b" for b by (cases b) auto
  then show ?thesis by (simp add: map_bounds_def)
qed

lemma rk_upper_bound_snd: "rk_upper_bound k = snd (as_bound_pair k)"
  by (induction k rule: rk_upper_bound.induct) (auto simp: map_bounds_def)

lemma map_bounds_ident: "map_bounds (\<lambda>x. x) r = r"
proof -
  have "map_bound_key (\<lambda>x. x) b = b" for b :: "'a bound" by (cases b) auto
  then show ?thesis by (simp add: map_bounds_def)
qed

lemma into_point_keys_elements: "map_bounds pk_elements (into_point_keys k) = as_bound_pair k"
  by (cases k) (simp_all add: map_bounds_comp comp_def map_bounds_ident, simp add: map_bounds_def)

lemma rk_from_inverse:
  assumes "rk_from r = Inr k"
  shows "as_bound_pair k = r \<and> rk_len k = kc_len (KRange r)"
proof (cases "rk_bounds_len r")
  case (Inl e)
  with assms show ?thesis by (simp add: rk_from_def)
next
  case (Inr len)
  show ?thesis
  proof (cases len)
    case None
    with Inr assms rk_bounds_len_cases [of r] show ?thesis by (auto simp: rk_from_def)
  next
    case (Some n)
    with Inr rk_bounds_len_cases [of r] have n: "keys_of_len n r" "kc_len (KRange r) = Some n" by auto
    have one: "[hd x] = x" if "length x = Suc 0" for x :: "'a list"
      using that by (cases x) auto
    from Inr Some assms have "k =
       (if n = 1 then RSingle (map_bounds hd r) else if n = 2 then RDouble (map_bounds make2 r)
        else if n = 3 then RTri (map_bounds make3 r) else if n = 4 then RQuad (map_bounds make4 r)
        else if n = 5 then RQuin (map_bounds make5 r) else RSex (map_bounds make6 r)) \<and> n \<in> {1..6}"
      by (auto simp: rk_from_def split: if_splits)
    then consider "n = 1" "k = RSingle (map_bounds hd r)" | "n = 2" "k = RDouble (map_bounds make2 r)"
      | "n = 3" "k = RTri (map_bounds make3 r)" | "n = 4" "k = RQuad (map_bounds make4 r)"
      | "n = 5" "k = RQuin (map_bounds make5 r)" | "n = 6" "k = RSex (map_bounds make6 r)"
      by (auto split: if_splits)
    then show ?thesis
      by cases (use n in \<open>simp_all add: map_bounds_inverse [OF n(1)] make_elements one\<close>)
  qed
qed

lemma rk_from_panics:
  "rk_from r = Inl e \<Longrightarrow>
   (\<exists>s e. into_bound_endpoint (fst r) = Some s \<and> into_bound_endpoint (snd r) = Some e \<and> length s \<noteq> length e) \<or>
   (\<exists>n. kc_len (KRange r) = Some n \<and> (n = 0 \<or> 6 < n))"
  using rk_bounds_len_cases [of r]
  by (cases "rk_bounds_len r") (auto simp: rk_from_def split: option.splits if_splits)

text \<open>
  C33. Two key comparisons are equal exactly when they have the same bounds, and exactly when they
  feed the same data to a hasher, so a range that includes a single key and the equality with that
  key are interchangeable in hash sets; a key is contained exactly when it lies between the bounds,
  and no key is in a reversed range.
\<close>

theorem key_comparison_equality:
  fixes a b :: "'v::linorder key_comparison"
  shows "(kc_eq a b \<longleftrightarrow> start_bound a = start_bound b \<and> end_bound a = end_bound b) \<and>
    (kc_eq a b \<longleftrightarrow> kc_hash a = kc_hash b) \<and>
    kc_eq (kc_from_range (start_bound a, end_bound a)) a \<and>
    (kc_contains a x \<longleftrightarrow> range_contains (start_bound a) (end_bound a) x) \<and>
    \<not> (is_reversed_range a \<and> kc_contains a x) \<and>
    (kc_equal a = Some x \<longleftrightarrow> kc_eq a (KEqual x))"
  using kc_eq_iff [of a b] kc_hash_iff [of a b] kc_contains_bounds [of a x]
    reversed_contains_none [of a x] kc_from_range_bounds [of "(start_bound a, end_bound a)"]
    kc_equal_iff [of a x]
  by (simp add: kc_eq_iff)

text \<open>
  Building a \<open>PointKey\<close> panics exactly on no values, and a \<open>RangeKey\<close> exactly on bounds of
  different lengths, without values or with more than six; otherwise the values, and the bounds, read
  back unchanged.
\<close>

theorem storage_key_roundtrip:
  "(case pk_from xs of
      Inl e \<Rightarrow> xs = []
    | Inr k \<Rightarrow> pk_elements k = xs \<and> pk_len k = length xs \<and> pk_get k i = get_element xs i \<and>
        (has_null is_none k \<longleftrightarrow> list_ex is_none xs)) \<and>
   (case rk_from r of
      Inl e \<Rightarrow>
        (\<exists>s t. into_bound_endpoint (fst r) = Some s \<and> into_bound_endpoint (snd r) = Some t \<and> length s \<noteq> length t) \<or>
        kc_len (KRange r) = Some 0 \<or> (\<exists>n. kc_len (KRange r) = Some n \<and> 6 < n)
    | Inr k \<Rightarrow> as_bound_pair k = r \<and> rk_upper_bound k = snd r \<and> rk_len k = kc_len (KRange r) \<and>
        map_bounds pk_elements (into_point_keys k) = r)"
proof
  show "case pk_from xs of
      Inl e \<Rightarrow> xs = []
    | Inr k \<Rightarrow> pk_elements k = xs \<and> pk_len k = length xs \<and> pk_get k i = get_element xs i \<and>
        (has_null is_none k \<longleftrightarrow> list_ex is_none xs)"
    by (cases xs rule: pk_from.cases) (simp_all add: get_element_def)
  show "case rk_from r of
      Inl e \<Rightarrow>
        (\<exists>s t. into_bound_endpoint (fst r) = Some s \<and> into_bound_endpoint (snd r) = Some t \<and> length s \<noteq> length t) \<or>
        kc_len (KRange r) = Some 0 \<or> (\<exists>n. kc_len (KRange r) = Some n \<and> 6 < n)
    | Inr k \<Rightarrow> as_bound_pair k = r \<and> rk_upper_bound k = snd r \<and> rk_len k = kc_len (KRange r) \<and>
        map_bounds pk_elements (into_point_keys k) = r"
  proof (cases "rk_from r")
    case (Inl e)
    with rk_from_panics [of r e] show ?thesis by auto
  next
    case (Inr k)
    with rk_from_inverse [of r k] show ?thesis
      by (simp add: rk_upper_bound_snd into_point_keys_elements)
  qed
qed

end
