(* ===== verification/Processing.thy ===== *)
theory Processing
  imports Keys "HOL-Library.Multiset"
begin

section \<open>Records and the interface of dataflow operators\<close>

text \<open>
  \<open>src/readyset-common/src/records.rs\<close> (the signed records that flow between operators), the
  \<open>Indices\<close> helper of \<open>src/readyset-util/src/lib.rs\<close>, and \<open>src/readyset-dataflow/src/processing.rs\<close>
  (misses, lookups, replay contexts and the default lookup of an operator into an ancestor).

  A row is a list of values. The materialised states of a domain, \<open>StateMap\<close>, are a partial map
  from local node indices to what the operators may ask of a state, \<open>state_view\<close>; asking an operator
  without state to answer through its own ancestors is the parameter \<open>query_through\<close>.
\<close>

datatype df_error =
    Panic
  | Internal
  | InvalidRecordLength
  | IndexNotFound nat "nat list"
  | EvalError
  | ConversionError
  | InvalidOperation

subsection \<open>Records\<close>

type_synonym 'v row = "'v list"

datatype 'v df_record = Positive "'v row" | Negative "'v row"

fun rec :: "'v df_record \<Rightarrow> 'v row" where
  "rec (Positive v) = v"
| "rec (Negative v) = v"

fun is_positive :: "'v df_record \<Rightarrow> bool" where
  "is_positive (Positive _) = True"
| "is_positive (Negative _) = False"

fun record_extract :: "'v df_record \<Rightarrow> 'v row \<times> bool" where
  "record_extract (Positive v) = (v, True)"
| "record_extract (Negative v) = (v, False)"

fun record_from :: "'v row \<times> bool \<Rightarrow> 'v df_record" where
  "record_from (v, pos) = (if pos then Positive v else Negative v)"

definition map_row :: "('v row \<Rightarrow> 'v row) \<Rightarrow> 'v df_record \<Rightarrow> 'v df_record" where
  "map_row f r = (case r of Positive v \<Rightarrow> Positive (f v) | Negative v \<Rightarrow> Negative (f v))"

text \<open>The derived order: every positive record is less than every negative one.\<close>

fun record_cmp :: "'v::linorder df_record \<Rightarrow> 'v df_record \<Rightarrow> ordering" where
  "record_cmp (Positive a) (Positive b) = rs_cmp a b"
| "record_cmp (Positive _) (Negative _) = Less"
| "record_cmp (Negative _) (Positive _) = Greater"
| "record_cmp (Negative a) (Negative b) = rs_cmp a b"

type_synonym 'v records = "'v df_record list"

definition records_has :: "'v records \<Rightarrow> 'v row \<Rightarrow> bool \<Rightarrow> bool" where
  "records_has rs q positive =
     list_ex (\<lambda>r. case r of
       Positive r \<Rightarrow> positive \<and> r = q
     | Negative r \<Rightarrow> \<not> positive \<and> r = q) rs"

definition has_positive :: "'v records \<Rightarrow> 'v row \<Rightarrow> bool" where
  "has_positive rs q = records_has rs q True"

definition has_negative :: "'v records \<Rightarrow> 'v row \<Rightarrow> bool" where
  "has_negative rs q = records_has rs q False"

subsection \<open>Selecting columns\<close>

text \<open>\<open>Indices::cloned_indices\<close> on a slice; the error is the first index out of bounds.\<close>

definition cloned_indices :: "'a list \<Rightarrow> nat list \<Rightarrow> nat + 'a list" where
  "cloned_indices xs idxs = try_map (\<lambda>i. if i < length xs then Inr (xs ! i) else Inl i) idxs"

subsection \<open>Misses, lookups and replays\<close>

datatype 'v replay_context =
    ReplayNone
  | ReplayPartial "nat list" "'v key_comparison list"
  | ReplayFull bool

fun is_partial :: "'v replay_context \<Rightarrow> bool" where
  "is_partial (ReplayPartial _ _) = True"
| "is_partial _ = False"

fun replay_key_cols :: "'v replay_context \<Rightarrow> nat list option" where
  "replay_key_cols (ReplayPartial key_cols _) = Some key_cols"
| "replay_key_cols _ = None"

datatype 'v miss_replay_key =
    ReplayRecordColumns "nat list"
  | ReplayRange "'v list bound_pair"

datatype 'v miss_lookup_key =
    LookupRecordColumns "nat list"
  | LookupKey "'v key_comparison"

record 'v miss =
  miss_on :: nat
  miss_lookup_idx :: "nat list"
  miss_lookup_key :: "'v miss_lookup_key"
  miss_replay_key :: "'v miss_replay_key option"
  miss_record :: "'v row"

fun filter_ranges :: "'v key_comparison list \<Rightarrow> 'v list bound_pair list" where
  "filter_ranges [] = []"
| "filter_ranges (k # ks) = (case kc_range k of Some r \<Rightarrow> r # filter_ranges ks | None \<Rightarrow> filter_ranges ks)"

text \<open>
  \<open>MissBuilder::build\<close>: the key columns are projected only when there is a range to compare them
  with; a column out of bounds is then a panic.
\<close>

definition miss_build ::
    "nat \<Rightarrow> nat list \<Rightarrow> 'v::linorder miss_lookup_key \<Rightarrow> 'v replay_context \<Rightarrow> nat list option \<Rightarrow> 'v row \<Rightarrow>
     df_error + 'v miss" where
  "miss_build on lookup_idx lookup_key replay cols row =
     try_bind
       (case replay of
          ReplayPartial key_cols keys \<Rightarrow>
            let replay_cols = (case cols of Some cs \<Rightarrow> cs | None \<Rightarrow> key_cols) in
            if filter_ranges keys = [] then Inr (Some (ReplayRecordColumns replay_cols))
            else
              (case cloned_indices row replay_cols of
                 Inl _ \<Rightarrow> Inl Panic
               | Inr key \<Rightarrow>
                   Inr (Some
                     (case find (\<lambda>(lo, up). range_contains lo up key) (filter_ranges keys) of
                        Some k \<Rightarrow> ReplayRange k
                      | None \<Rightarrow> ReplayRecordColumns replay_cols)))
        | _ \<Rightarrow> Inr None)
       (\<lambda>replay_key. Inr \<lparr>miss_on = on, miss_lookup_idx = lookup_idx, miss_lookup_key = lookup_key,
                          miss_replay_key = replay_key, miss_record = row\<rparr>)"

definition key_of_columns :: "'v row \<Rightarrow> nat list \<Rightarrow> df_error + 'v key_comparison" where
  "key_of_columns row cols =
     (case cloned_indices row cols of
        Inl _ \<Rightarrow> Inl Panic
      | Inr key \<Rightarrow> (case kc_try_from key of Inl _ \<Rightarrow> Inl Panic | Inr k \<Rightarrow> Inr k))"

definition miss_replay :: "'v miss \<Rightarrow> df_error + 'v key_comparison option" where
  "miss_replay m =
     (case miss_replay_key m of
        None \<Rightarrow> Inr None
      | Some (ReplayRecordColumns cols) \<Rightarrow> try_bind (key_of_columns (miss_record m) cols) (\<lambda>k. Inr (Some k))
      | Some (ReplayRange r) \<Rightarrow> Inr (Some (KRange r)))"

definition miss_lookup :: "'v miss \<Rightarrow> df_error + 'v key_comparison" where
  "miss_lookup m =
     (case miss_lookup_key m of
        LookupKey k \<Rightarrow> Inr k
      | LookupRecordColumns cols \<Rightarrow> key_of_columns (miss_record m) cols)"

record 'v lookup =
  lookup_on :: nat
  lookup_cols :: "nat list"
  lookup_key :: "'v key_comparison"

record 'v processing_result =
  results :: "'v records"
  misses :: "'v miss list"
  lookups :: "'v lookup list"

subsection \<open>Looking up rows in an ancestor\<close>

datatype 'v lookup_result = LookupSome "'v row list" | LookupMissing

datatype lookup_mode = Strict | Weak

datatype 'v ingredient_lookup_result =
    LookupRecords "(df_error + 'v row) list"
  | LookupMiss

record 'v state_view =
  state_is_partial :: bool
  state_lookup :: "nat list \<Rightarrow> 'v point_key \<Rightarrow> 'v lookup_result"
  state_lookup_weak :: "nat list \<Rightarrow> 'v point_key \<Rightarrow> 'v row list option"

type_synonym 'v query_through =
  "nat \<Rightarrow> nat list \<Rightarrow> 'v point_key \<Rightarrow> lookup_mode \<Rightarrow> df_error + 'v ingredient_lookup_result"

definition lookup_records :: "'v row list \<Rightarrow> 'v ingredient_lookup_result" where
  "lookup_records rs = LookupRecords (map Inr rs)"

definition lookup_into :: "'v lookup_result \<Rightarrow> 'v ingredient_lookup_result" where
  "lookup_into r = (case r of LookupSome rs \<Rightarrow> lookup_records rs | LookupMissing \<Rightarrow> LookupMiss)"

definition lookup_map ::
    "(df_error + 'v row \<Rightarrow> df_error + 'v row) \<Rightarrow> 'v ingredient_lookup_result \<Rightarrow> 'v ingredient_lookup_result" where
  "lookup_map f r = (case r of LookupRecords rs \<Rightarrow> LookupRecords (map f rs) | LookupMiss \<Rightarrow> LookupMiss)"

text \<open>
  \<open>Ingredient::lookup\<close>. The parameter \<open>query_through\<close> also answers for a parent that is not an
  internal node, with \<open>IndexNotFound\<close>.
\<close>

definition ingredient_lookup ::
    "(nat \<Rightarrow> 'v state_view option) \<Rightarrow> 'v query_through \<Rightarrow> nat \<Rightarrow> nat list \<Rightarrow> 'v point_key \<Rightarrow> lookup_mode \<Rightarrow>
     df_error + 'v ingredient_lookup_result" where
  "ingredient_lookup states query_through parent columns key mode =
     (case states parent of
        Some state \<Rightarrow>
          if mode = Weak \<and> state_is_partial state
          then
            (case state_lookup_weak state columns key of
               Some rs \<Rightarrow> if rs \<noteq> [] then Inr (lookup_records rs) else Inr LookupMiss
             | None \<Rightarrow> Inr LookupMiss)
          else Inr (lookup_into (state_lookup state columns key))
      | None \<Rightarrow> query_through parent columns key mode)"

text \<open>\<open>rs.collect::<Result<Vec<_>, _>>()\<close>\<close>

definition collect_rows :: "(df_error + 'v row) list \<Rightarrow> df_error + 'v row list" where
  "collect_rows rs = try_map (\<lambda>r. r) rs"

definition point_key_from :: "'v list \<Rightarrow> df_error + 'v point_key" where
  "point_key_from xs = (case pk_from xs of Inl _ \<Rightarrow> Inl Panic | Inr k \<Rightarrow> Inr k)"

subsection \<open>Where a column comes from\<close>

datatype column_source =
    ExactCopy nat "nat list"
  | UnionOf "(nat \<times> nat list) list"
  | GeneratedFromColumns "(nat \<times> nat list) list"
  | RequiresFullReplay "nat list"

definition exact_copy :: "nat \<Rightarrow> nat list \<Rightarrow> df_error + column_source" where
  "exact_copy index cols = (if cols = [] then Inl Panic else Inr (ExactCopy index cols))"

subsection \<open>The effect of records on a multiset of rows\<close>

definition positives :: "'v records \<Rightarrow> 'v row multiset" where
  "positives rs = image_mset rec (filter_mset is_positive (mset rs))"

definition negatives :: "'v records \<Rightarrow> 'v row multiset" where
  "negatives rs = image_mset rec (filter_mset (\<lambda>r. \<not> is_positive r) (mset rs))"

definition apply_records :: "'v row multiset \<Rightarrow> 'v records \<Rightarrow> 'v row multiset" where
  "apply_records M rs = M + positives rs - negatives rs"

lemma positives_simps [simp]:
  "positives [] = {#}"
  "positives (Positive v # rs) = add_mset v (positives rs)"
  "positives (Negative v # rs) = positives rs"
  "positives (rs @ rs') = positives rs + positives rs'"
  by (simp_all add: positives_def)

lemma negatives_simps [simp]:
  "negatives [] = {#}"
  "negatives (Positive v # rs) = negatives rs"
  "negatives (Negative v # rs) = add_mset v (negatives rs)"
  "negatives (rs @ rs') = negatives rs + negatives rs'"
  by (simp_all add: negatives_def)

lemma record_from_extract [simp]: "record_from (record_extract r) = r"
  by (cases r) simp_all

lemma records_has_iff:
  "records_has rs q positive \<longleftrightarrow> (if positive then q \<in># positives rs else q \<in># negatives rs)"
  by (induction rs rule: list.induct)
    (auto simp: records_has_def positives_def negatives_def split: df_record.splits)

lemma try_map_Inr_iff:
  "try_map f xs = Inr ys \<longleftrightarrow> list_all2 (\<lambda>x y. f x = Inr y) xs ys"
  by (induction xs arbitrary: ys) (auto simp: result_simps list_all2_Cons1)

lemma try_map_all_Inr: "(\<And>x. x \<in> set xs \<Longrightarrow> f x = Inr (g x)) \<Longrightarrow> try_map f xs = Inr (map g xs)"
  by (induction xs) auto

lemma cloned_indices_in_bounds:
  "\<forall>i\<in>set idxs. i < length xs \<Longrightarrow> cloned_indices xs idxs = Inr (map ((!) xs) idxs)"
  by (auto simp: cloned_indices_def intro: try_map_all_Inr)

lemma cloned_indices_Inr:
  "cloned_indices xs idxs = Inr ys \<longleftrightarrow> (\<forall>i\<in>set idxs. i < length xs) \<and> ys = map ((!) xs) idxs"
  unfolding cloned_indices_def
  by (induction idxs arbitrary: ys) (auto simp: result_simps split: if_splits)

lemma collect_rows_map_Inr [simp]: "collect_rows (map Inr rs) = Inr rs"
  unfolding collect_rows_def by (induction rs) auto

lemma point_key_elements: "xs \<noteq> [] \<Longrightarrow> \<exists>k. point_key_from xs = Inr k \<and> pk_elements k = xs"
  by (cases xs rule: pk_from.cases) (simp_all add: point_key_from_def)

end
