(* ===== verification/SortBy.thy ===== *)
theory SortBy
  imports TournamentProps Processing
begin

section \<open>Sorting by a comparison\<close>

text \<open>
  \<open>slice::sort_by\<close> of the standard library, a stable sort, and the row order of
  \<open>src/readyset-dataflow/src/ops/utils.rs\<close>. The library's unstable sorts and its binary heap leave
  the order of equal elements open; where the code uses them, the model sorts a rearrangement of
  the elements that is a parameter, so that every outcome is covered.
\<close>

fun insert_by :: "('a \<Rightarrow> 'a \<Rightarrow> ordering) \<Rightarrow> 'a \<Rightarrow> 'a list \<Rightarrow> 'a list" where
  "insert_by cmp x [] = [x]"
| "insert_by cmp x (y # ys) = (if cmp x y = Greater then y # insert_by cmp x ys else x # y # ys)"

definition sort_by :: "('a \<Rightarrow> 'a \<Rightarrow> ordering) \<Rightarrow> 'a list \<Rightarrow> 'a list" where
  "sort_by cmp xs = foldr (insert_by cmp) xs []"

text \<open>
  \<open>Order::cmp\<close>: column by column; a column out of bounds is a panic. \<open>order_ord\<close> is the comparison
  inside a sort or a heap, where \<open>wide\<close> has been checked: it orders a missing column first.
\<close>

type_synonym order = "(nat \<times> order_type) list"

fun order_cmp :: "order \<Rightarrow> 'v::linorder row \<Rightarrow> 'v row \<Rightarrow> df_error + ordering" where
  "order_cmp [] a b = Inr Equal"
| "order_cmp ((c, order_type) # rest) a b =
     (if c < length a \<and> c < length b
      then
        let result = (case order_type of
              OrderAscending \<Rightarrow> rs_cmp (a ! c) (b ! c)
            | OrderDescending \<Rightarrow> rs_cmp (b ! c) (a ! c))
        in if result \<noteq> Equal then Inr result else order_cmp rest a b
      else Inl Panic)"

definition wide :: "order \<Rightarrow> 'v row \<Rightarrow> bool" where
  "wide ods a = list_all (\<lambda>(c, _). c < length a) ods"

fun option_cmp :: "'v::linorder option \<Rightarrow> 'v option \<Rightarrow> ordering" where
  "option_cmp None None = Equal"
| "option_cmp None (Some _) = Less"
| "option_cmp (Some _) None = Greater"
| "option_cmp (Some a) (Some b) = rs_cmp a b"

fun order_ord :: "order \<Rightarrow> 'v::linorder row \<Rightarrow> 'v row \<Rightarrow> ordering" where
  "order_ord [] a b = Equal"
| "order_ord ((c, order_type) # rest) a b =
     ord_then (case order_type of
        OrderAscending \<Rightarrow> option_cmp (get_element a c) (get_element b c)
      | OrderDescending \<Rightarrow> option_cmp (get_element b c) (get_element a c))
     (order_ord rest a b)"

lemma order_cmp_wide: "wide ods a \<Longrightarrow> wide ods b \<Longrightarrow> order_cmp ods a b = Inr (order_ord ods a b)"
  by (induction ods) (auto simp: wide_def get_element_def rs_cmp_def Let_def split: order_type.splits)

lemma ord_reverse_simps [simp]:
  "ord_reverse (ord_reverse x) = x"
  "ord_reverse x = Equal \<longleftrightarrow> x = Equal" "ord_reverse x = Less \<longleftrightarrow> x = Greater" "ord_reverse x = Greater \<longleftrightarrow> x = Less"
  by (cases x; simp)+

lemma ord_then_simps [simp]:
  "ord_then x y = Equal \<longleftrightarrow> x = Equal \<and> y = Equal"
  "ord_then x y = Greater \<longleftrightarrow> x = Greater \<or> x = Equal \<and> y = Greater"
  "ord_reverse (ord_then x y) = ord_then (ord_reverse x) (ord_reverse y)"
  by (cases x; simp)+

lemma option_cmp_sym: "option_cmp b a = ord_reverse (option_cmp a b)"
  by (cases a; cases b) (auto simp: rs_cmp_def)

lemma option_cmp_trans:
  "\<lbrakk>option_cmp a b \<noteq> Greater; option_cmp b c \<noteq> Greater\<rbrakk> \<Longrightarrow> option_cmp a c \<noteq> Greater"
  "\<lbrakk>option_cmp a b \<noteq> Greater; option_cmp b c \<noteq> Greater; option_cmp a c = Equal\<rbrakk> \<Longrightarrow> option_cmp a b = Equal \<and> option_cmp b c = Equal"
  by (cases a; cases b; cases c; auto)+

lemma order_ord_sym: "order_ord ods b a = ord_reverse (order_ord ods a b)"
proof (induction ods)
  case Nil
  then show ?case by simp
next
  case (Cons x ods)
  obtain c ty where "x = (c, ty)" by (cases x)
  with Cons option_cmp_sym [of "get_element b c" "get_element a c"] show ?case
    by (cases ty) simp_all
qed

lemma order_ord_trans:
  "\<lbrakk>order_ord ods a b \<noteq> Greater; order_ord ods b c \<noteq> Greater\<rbrakk> \<Longrightarrow> order_ord ods a c \<noteq> Greater"
proof (induction ods)
  case Nil
  then show ?case by simp
next
  case (Cons x ods)
  obtain i ty where x: "x = (i, ty)" by (cases x)
  let ?a = "get_element a i" and ?b = "get_element b i" and ?c = "get_element c i"
  show ?case
  proof (cases ty)
    case OrderAscending
    with Cons x option_cmp_trans [of ?a ?b ?c] show ?thesis by auto
  next
    case OrderDescending
    with Cons x option_cmp_trans [of ?c ?b ?a] show ?thesis by auto
  qed
qed

interpretation order_ord: comparator "order_ord ods" for ods
  by unfold_locales (rule order_ord_sym, rule order_ord_trans)

interpretation key_cmp: comparator "\<lambda>a b. rs_cmp (key a) (key b)" for key
  by unfold_locales (auto simp: rs_cmp_def split: if_splits)

lemma mset_insert_by [simp]: "mset (insert_by cmp x xs) = add_mset x (mset xs)"
  by (induction xs) auto

lemma mset_sort_by [simp]: "mset (sort_by cmp xs) = mset xs"
  unfolding sort_by_def by (induction xs) auto

lemma set_sort_by [simp]: "set (sort_by cmp xs) = set xs"
  using mset_sort_by by (metis set_mset_mset)

lemma length_sort_by [simp]: "length (sort_by cmp xs) = length xs"
  using mset_sort_by by (metis size_mset)

lemma set_insert_by [simp]: "set (insert_by cmp x xs) = insert x (set xs)"
  by (induction xs) auto

context comparator
begin

lemma insert_by_ascending: "ascending cmp xs \<Longrightarrow> ascending cmp (insert_by cmp x xs)"
proof (induction xs)
  case Nil
  then show ?case by (simp add: ascending_def)
next
  case (Cons y ys)
  show ?case
  proof (cases "cmp x y = Greater")
    case True
    then have "cmp y x \<noteq> Greater" using cmp_sym [of y x] by auto
    with True Cons show ?thesis by (auto simp: ascending_def)
  next
    case False
    with Cons.prems show ?thesis using cmp_trans [of x y] by (auto simp: ascending_def)
  qed
qed

lemma sort_by_ascending: "ascending cmp (sort_by cmp xs)"
  unfolding sort_by_def by (induction xs) (auto simp: insert_by_ascending, simp add: ascending_def)

lemma insert_by_filter:
  assumes "\<And>y. \<lbrakk>y \<in> set xs; P x; P y\<rbrakk> \<Longrightarrow> cmp x y \<noteq> Greater"
  shows "filter P (insert_by cmp x xs) = (if P x then x # filter P xs else filter P xs)"
  using assms by (induction xs) auto

lemma sort_by_stable:
  assumes "\<And>x y. \<lbrakk>P x; P y\<rbrakk> \<Longrightarrow> cmp x y \<noteq> Greater"
  shows "filter P (sort_by cmp xs) = filter P xs"
  unfolding sort_by_def by (induction xs) (auto simp: insert_by_filter assms)

end

end
