(* ===== verification/TopK.thy ===== *)
theory TopK
  imports SortBy
begin

section \<open>The top-k operator\<close>

text \<open>
  \<open>src/readyset-dataflow/src/ops/topk.rs\<close>: an operator that keeps, for each group of rows, the \<open>k\<close>
  greatest rows in an order. \<open>on_input\<close> is the loop over the batch sorted by group, with the state
  of its local variables in a record; \<open>post_group\<close> closes a group. The rows of the group being
  processed sit in a \<open>BinaryHeap\<close>, here the list of its elements: \<open>heap\<close> is the order in which the
  library visits them and \<open>unstable\<close> the order in which \<open>sort_unstable_by\<close> leaves equal rows, both
  parameters that rearrange their argument.
\<close>

record topk =
  topk_src :: nat
  topk_us :: nat
  topk_group_by :: "nat list"
  topk_order :: order
  topk_k :: nat

record 'v current_record =
  cur_row :: "'v row"
  is_new :: bool

type_synonym 'v heap_layout = "'v current_record list \<Rightarrow> 'v current_record list"
type_synonym 'v unstable_layout = "'v row list \<Rightarrow> 'v row list"

definition current_cmp :: "order \<Rightarrow> 'v::linorder current_record \<Rightarrow> 'v current_record \<Rightarrow> ordering" where
  "current_cmp ods a b = ord_reverse (order_ord ods (cur_row a) (cur_row b))"

definition project_group :: "topk \<Rightarrow> 'v row \<Rightarrow> df_error + 'v list" where
  "project_group t row =
     (case cloned_indices row (topk_group_by t) of Inl _ \<Rightarrow> Inl InvalidRecordLength | Inr key \<Rightarrow> Inr key)"

text \<open>Building a heap compares its elements as soon as there are two.\<close>

definition heap_from :: "order \<Rightarrow> 'v current_record list \<Rightarrow> df_error + 'v current_record list" where
  "heap_from ods cs =
     (if length cs \<le> 1 \<or> list_all (\<lambda>c. wide ods (cur_row c)) cs then Inr cs else Inl Panic)"

text \<open>\<open>BinaryHeap::peek\<close>: a greatest element, so a row that is least in the order.\<close>

fun heap_peek :: "order \<Rightarrow> 'v::linorder current_record list \<Rightarrow> 'v current_record option" where
  "heap_peek ods [] = None"
| "heap_peek ods (c # cs) =
     (case heap_peek ods cs of
        None \<Rightarrow> Some c
      | Some d \<Rightarrow> if current_cmp ods c d = Less then Some d else Some c)"

definition into_sorted_vec ::
    "'v heap_layout \<Rightarrow> order \<Rightarrow> 'v::linorder current_record list \<Rightarrow> 'v current_record list" where
  "into_sorted_vec heap ods cs = sort_by (current_cmp ods) (heap cs)"

subsection \<open>Closing a group\<close>

definition swap :: "nat \<Rightarrow> nat \<Rightarrow> 'a list \<Rightarrow> 'a list" where
  "swap i j xs = xs[i := xs ! j, j := xs ! i]"

fun position :: "('a \<Rightarrow> bool) \<Rightarrow> 'a list \<Rightarrow> nat option" where
  "position P [] = None"
| "position P (x # xs) = (if P x then Some 0 else map_option Suc (position P xs))"

text \<open>Prefer to keep an old row over a new one with the same order value.\<close>

fun prefer_old ::
    "order \<Rightarrow> nat \<Rightarrow> nat list \<Rightarrow> 'v::linorder current_record list \<Rightarrow> 'v current_record list" where
  "prefer_old ods group_start [] cur = cur"
| "prefer_old ods group_start (i # is) cur =
     prefer_old ods group_start is
       (if is_new (cur ! i)
        then
          (case position (\<lambda>c. \<not> is_new c \<and> order_ord ods (cur_row c) (cur_row (cur ! i)) = Equal)
                  (take group_start cur) of
             Some ri \<Rightarrow> swap i ri cur
           | None \<Rightarrow> cur)
        else cur)"

definition post_group ::
    "(nat \<Rightarrow> 'v::linorder state_view option) \<Rightarrow> 'v query_through \<Rightarrow> 'v heap_layout \<Rightarrow> 'v unstable_layout \<Rightarrow> topk \<Rightarrow>
     'v records \<Rightarrow> 'v current_record list \<Rightarrow> 'v list \<Rightarrow> nat \<Rightarrow> df_error + 'v records \<times> 'v lookup option" where
  "post_group states through heap unstable t out cur group_key original_len =
     (let group_start = length cur - topk_k t in
      try_bind
        (if original_len = topk_k t \<and> original_len - length cur \<noteq> 0
         then
           try_bind (point_key_from group_key)
             (\<lambda>pk. try_bind (ingredient_lookup states through (topk_src t) (topk_group_by t) pk Strict)
                (\<lambda>res. case res of
                   LookupMiss \<Rightarrow> Inl Internal
                 | LookupRecords rs \<Rightarrow>
                     try_bind (collect_rows rs)
                       (\<lambda>rs. if length rs \<le> 1 \<or> list_all (wide (topk_order t)) rs
                          then
                            let rs = sort_by (\<lambda>a b. ord_reverse (order_ord (topk_order t) a b)) (unstable rs);
                                fetched = take (original_len - length cur) (drop (length cur)
                                  (map (\<lambda>row. \<lparr>cur_row = row, is_new = True\<rparr>) rs))
                            in try_bind (heap_from (topk_order t) (cur @ fetched))
                                 (\<lambda>cur.
                                    case kc_try_from group_key of
                                      Inl _ \<Rightarrow> Inl Panic
                                    | Inr key \<Rightarrow>
                                        Inr (cur, Some \<lparr>lookup_on = topk_src t,
                                                        lookup_cols = topk_group_by t, lookup_key = key\<rparr>))
                          else Inl Panic)))
         else Inr (cur, None))
        (\<lambda>(cur, lookup).
           let sorted = rev (into_sorted_vec heap (topk_order t) cur);
               sorted = prefer_old (topk_order t) group_start [group_start..<length sorted] sorted;
               taken = drop group_start sorted;
               dropped = take group_start sorted
           in Inr (out @ map (\<lambda>c. Positive (cur_row c)) (filter is_new taken)
                       @ map (\<lambda>c. Negative (cur_row c)) (filter (\<lambda>c. \<not> is_new c) dropped),
                   lookup)))"

subsection \<open>Processing a batch\<close>

record 'v topk_state =
  topk_out :: "'v records"
  topk_group_key :: "'v list"
  topk_original_len :: nat
  topk_missed :: bool
  topk_group :: "'v current_record list"
  topk_misses :: "'v miss list"
  topk_lookups :: "'v lookup list"

definition tidy_group ::
    "(nat \<Rightarrow> 'v::linorder state_view option) \<Rightarrow> 'v query_through \<Rightarrow> 'v heap_layout \<Rightarrow> 'v unstable_layout \<Rightarrow> topk \<Rightarrow>
     'v replay_context \<Rightarrow> 'v topk_state \<Rightarrow> df_error + 'v topk_state" where
  "tidy_group states through heap unstable t ctx st =
     (if topk_group_key st = [] then Inr st
      else
        try_bind (post_group states through heap unstable t (topk_out st) (topk_group st) (topk_group_key st) (topk_original_len st))
          (\<lambda>(res, lookup). Inr (st\<lparr>topk_out := res, topk_group := [],
             topk_lookups := topk_lookups st @
               (case lookup of Some l \<Rightarrow> if is_partial ctx then [l] else [] | None \<Rightarrow> [])\<rparr>)))"

definition start_group ::
    "topk \<Rightarrow> 'v::linorder state_view \<Rightarrow> 'v replay_context \<Rightarrow> 'v list \<Rightarrow> 'v topk_state \<Rightarrow> df_error + 'v topk_state" where
  "start_group t db ctx key st =
     (let st = st\<lparr>topk_group_key := key\<rparr> in
      try_bind (point_key_from key)
        (\<lambda>pk. case state_lookup db (topk_group_by t) pk of
           LookupSome local_records \<Rightarrow>
             try_bind
               (if is_partial ctx
                then
                  (case kc_try_from key of
                     Inl _ \<Rightarrow> Inl Panic
                   | Inr k \<Rightarrow>
                       Inr (topk_lookups st @ [\<lparr>lookup_on = topk_us t, lookup_cols = topk_group_by t, lookup_key = k\<rparr>]))
                else Inr (topk_lookups st))
               (\<lambda>ls. try_bind
                  (heap_from (topk_order t)
                     (topk_group st @ map (\<lambda>row. \<lparr>cur_row = row, is_new = False\<rparr>) local_records))
                  (\<lambda>cur. Inr (st\<lparr>topk_lookups := ls, topk_missed := False,
                                 topk_original_len := length local_records, topk_group := cur\<rparr>)))
         | LookupMissing \<Rightarrow> Inr (st\<lparr>topk_missed := True\<rparr>)))"

text \<open>\<open>current.retain(..)\<close>: remove the first row equal to \<open>r\<close>, and whether it was a new one.\<close>

fun remove_first :: "'v row \<Rightarrow> 'v current_record list \<Rightarrow> 'v current_record list \<times> bool option" where
  "remove_first r [] = ([], None)"
| "remove_first r (c # cs) =
     (if cur_row c = r then (cs, Some (is_new c))
      else case remove_first r cs of (cs', found) \<Rightarrow> (c # cs', found))"

definition topk_record ::
    "'v heap_layout \<Rightarrow> topk \<Rightarrow> 'v::linorder df_record \<Rightarrow> 'v topk_state \<Rightarrow> df_error + 'v topk_state" where
  "topk_record heap t r st =
     (case r of
        Positive row \<Rightarrow>
          try_bind
            (if topk_original_len st \<ge> topk_k t
             then
               (case heap_peek (topk_order t) (topk_group st) of
                  Some least \<Rightarrow> try_bind (order_cmp (topk_order t) (cur_row least) row) (\<lambda>c. Inr (c = Greater))
                | None \<Rightarrow> Inr False)
             else Inr False)
            (\<lambda>skip. if skip then Inr st
               else try_bind (heap_from (topk_order t) (topk_group st @ [\<lparr>cur_row = row, is_new = True\<rparr>]))
                      (\<lambda>cur. Inr (st\<lparr>topk_group := cur\<rparr>)))
      | Negative row \<Rightarrow>
          (case remove_first row (heap (topk_group st)) of
             (cur, found) \<Rightarrow>
               Inr (st\<lparr>topk_group := cur,
                       topk_out := topk_out st @ (if found = Some False then [Negative row] else [])\<rparr>)))"

definition topk_step ::
    "(nat \<Rightarrow> 'v::linorder state_view option) \<Rightarrow> 'v query_through \<Rightarrow> 'v heap_layout \<Rightarrow> 'v unstable_layout \<Rightarrow> topk \<Rightarrow>
     'v state_view \<Rightarrow> 'v replay_context \<Rightarrow> 'v df_record \<Rightarrow> 'v topk_state \<Rightarrow> df_error + 'v topk_state" where
  "topk_step states through heap unstable t db ctx r st =
     try_bind (project_group t (rec r))
       (\<lambda>key. try_bind
          (if rs_cmp (topk_group_key st) key \<noteq> Equal
           then
             try_bind (tidy_group states through heap unstable t ctx st)
               (\<lambda>st. if topk_group st \<noteq> [] then Inl Internal else start_group t db ctx key st)
           else Inr st)
          (\<lambda>st. if topk_missed st
             then
               try_bind (miss_build (topk_us t) (topk_group_by t) (LookupRecordColumns (topk_group_by t)) ctx None (rec r))
                 (\<lambda>m. Inr (st\<lparr>topk_misses := topk_misses st @ [m]\<rparr>))
             else topk_record heap t r st))"

fun topk_loop ::
    "(nat \<Rightarrow> 'v::linorder state_view option) \<Rightarrow> 'v query_through \<Rightarrow> 'v heap_layout \<Rightarrow> 'v unstable_layout \<Rightarrow> topk \<Rightarrow>
     'v state_view \<Rightarrow> 'v replay_context \<Rightarrow> 'v records \<Rightarrow> 'v topk_state \<Rightarrow> df_error + 'v topk_state" where
  "topk_loop states through heap unstable t db ctx [] st = Inr st"
| "topk_loop states through heap unstable t db ctx (r # rs) st =
     try_bind (topk_step states through heap unstable t db ctx r st)
       (topk_loop states through heap unstable t db ctx rs)"

definition group_or_empty :: "topk \<Rightarrow> 'v row \<Rightarrow> 'v list" where
  "group_or_empty t row = (case project_group t row of Inl _ \<Rightarrow> [] | Inr key \<Rightarrow> key)"

definition topk_on_input ::
    "(nat \<Rightarrow> 'v::linorder state_view option) \<Rightarrow> 'v query_through \<Rightarrow> 'v heap_layout \<Rightarrow> 'v unstable_layout \<Rightarrow> topk \<Rightarrow>
     'v replay_context \<Rightarrow> 'v records \<Rightarrow> df_error + 'v processing_result" where
  "topk_on_input states through heap unstable t ctx rs =
     (if rs = [] then Inr \<lparr>results = rs, misses = [], lookups = []\<rparr>
      else
        let rs = sort_by (\<lambda>a b. rs_cmp (group_or_empty t (rec a)) (group_or_empty t (rec b))) rs in
        case states (topk_us t) of
          None \<Rightarrow> Inl Internal
        | Some db \<Rightarrow>
            try_bind
              (topk_loop states through heap unstable t db ctx rs
                 \<lparr>topk_out = [], topk_group_key = [], topk_original_len = 0, topk_missed = False, topk_group = [],
                  topk_misses = [], topk_lookups = []\<rparr>)
              (\<lambda>st. try_bind (tidy_group states through heap unstable t ctx st)
                 (\<lambda>st. Inr \<lparr>results = topk_out st, misses = topk_misses st, lookups = topk_lookups st\<rparr>)))"

end
