(* ===== verification/StateViews.thy ===== *)
theory StateViews
  imports Processing
begin

section \<open>States that operators look rows up in\<close>

text \<open>
  An operator sees the materialised state of a node only through lookups. This theory says what a state promises to
  its readers and gives the states of the examples.
\<close>

text \<open>What a state promises: a lookup that does not miss returns the rows with that key.\<close>

definition answers :: "'v state_view \<Rightarrow> nat list \<Rightarrow> 'v row multiset \<Rightarrow> bool" where
  "answers db cols M \<longleftrightarrow>
     (\<forall>pk rows. state_lookup db cols pk = LookupSome rows \<longrightarrow>
        mset rows = filter_mset (\<lambda>row. cloned_indices row cols = Inr (pk_elements pk)) M)"

text \<open>A fully materialised state that holds the given rows.\<close>

definition view_of :: "'v row list \<Rightarrow> 'v state_view" where
  "view_of rows =
     \<lparr>state_is_partial = False,
      state_lookup = (\<lambda>cols pk. LookupSome (filter (\<lambda>row. cloned_indices row cols = Inr (pk_elements pk)) rows)),
      state_lookup_weak = (\<lambda>_ _. None)\<rparr>"

lemma answers_view_of: "answers (view_of rows) cols (mset rows)"
  by (simp add: answers_def view_of_def)

text \<open>An operator at node 1 whose parent is node 0.\<close>

definition node_states :: "'v row list \<Rightarrow> 'v row list \<Rightarrow> nat \<Rightarrow> 'v state_view option" where
  "node_states own parent n = (if n = 0 then Some (view_of parent) else if n = 1 then Some (view_of own) else None)"

definition no_query_through :: "'v query_through" where
  "no_query_through n cols pk mode = Inl (IndexNotFound n cols)"

text \<open>A partial state that holds the given rows for the given keys only.\<close>

definition partial_view_of :: "'v list list \<Rightarrow> 'v row list \<Rightarrow> 'v state_view" where
  "partial_view_of keys rows =
     \<lparr>state_is_partial = True,
      state_lookup = (\<lambda>cols pk. if pk_elements pk \<in> set keys
        then LookupSome (filter (\<lambda>row. cloned_indices row cols = Inr (pk_elements pk)) rows) else LookupMissing),
      state_lookup_weak = (\<lambda>_ _. None)\<rparr>"

text \<open>
  A batch is in order for the rows it applies to when every deleted row is there at the time.
\<close>

fun in_order :: "'v row multiset \<Rightarrow> 'v records \<Rightarrow> bool" where
  "in_order M [] = True"
| "in_order M (Positive row # rs) = in_order (add_mset row M) rs"
| "in_order M (Negative row # rs) = (row \<in># M \<and> in_order (M - {#row#}) rs)"

definition net :: "'v records \<Rightarrow> int" where
  "net rs = sum_list (map (\<lambda>r. if is_positive r then 1 else - 1) rs)"

subsection \<open>Batches in order\<close>

lemma apply_records_Cons:
  "in_order M (r # rs) \<Longrightarrow> apply_records M (r # rs) =
     apply_records (if is_positive r then add_mset (rec r) M else M - {#rec r#}) rs"
  by (cases r) (simp_all add: apply_records_def multiset_eq_iff)

lemma in_order_size: "in_order M rs \<Longrightarrow> int (size (apply_records M rs)) = int (size M) + net rs"
proof (induction rs arbitrary: M)
  case (Cons r rs)
  have "apply_records M (r # rs) = apply_records (if is_positive r then add_mset (rec r) M else M - {#rec r#}) rs"
    by (rule apply_records_Cons [OF Cons.prems])
  moreover have "int (size (M - {#row#})) = int (size M) - 1" if "row \<in># M" for row
    using size_Suc_Diff1 [OF that] by linarith
  ultimately show ?case using Cons by (cases r) (auto simp: net_def)
qed (simp add: net_def apply_records_def)

lemma in_order_filter: "in_order M rs \<Longrightarrow> in_order (filter_mset P M) (filter (\<lambda>r. P (rec r)) rs)"
proof (induction rs arbitrary: M)
  case (Cons r rs)
  then show ?case by (cases r) (fastforce simp: filter_diff_mset)+
qed simp

lemma positives_filter: "positives (filter (\<lambda>r. P (rec r)) rs) = filter_mset P (positives rs)"
  by (simp add: positives_def filter_mset_image_mset filter_filter_mset conj_commute flip: mset_filter)

lemma negatives_filter: "negatives (filter (\<lambda>r. P (rec r)) rs) = filter_mset P (negatives rs)"
  by (simp add: negatives_def filter_mset_image_mset filter_filter_mset conj_commute flip: mset_filter)

lemma apply_records_filter:
  "filter_mset P (apply_records M rs) = apply_records (filter_mset P M) (filter (\<lambda>r. P (rec r)) rs)"
  by (simp add: apply_records_def positives_filter negatives_filter filter_diff_mset)

lemma in_order_rows: "\<lbrakk>in_order M rs; r \<in> set rs\<rbrakk> \<Longrightarrow> rec r \<in># M + positives rs"
proof (induction rs arbitrary: M)
  case (Cons q rs)
  show ?case
  proof (cases q)
    case (Positive row)
    with Cons show ?thesis by fastforce
  next
    case (Negative row)
    with Cons.prems have row: "row \<in># M" "in_order (M - {#row#}) rs" by auto
    show ?thesis
    proof (cases "r = q")
      case False
      with Cons.prems(2) Cons.IH [OF row(2)] show ?thesis
        using Negative by (auto dest: in_diffD)
    qed (use row Negative in simp)
  qed
qed simp

lemma try_map_snoc:
  "try_map f (xs @ [x]) = try_bind (try_map f xs) (\<lambda>ys. try_bind (f x) (\<lambda>y. Inr (ys @ [y])))"
proof (induction xs)
  case Nil
  show ?case by (cases "f x") simp_all
next
  case (Cons a xs)
  show ?case
  proof (cases "f a")
    case (Inr b)
    with Cons show ?thesis by (cases "try_map f xs"; cases "f x") simp_all
  qed simp
qed

lemma balance_add:
  fixes a :: "'a::comm_monoid_add"
  assumes "a + b = c + d" "a' + b' = c' + d'"
  shows "(a + a') + (b + b') = (c + c') + (d + d')"
proof -
  have swap: "(x + x') + (y + y') = (x + y) + (x' + y')" for x x' y y' :: 'a by (simp add: ac_simps)
  show ?thesis using swap [of a a' b b'] swap [of c c' d d'] assms by simp
qed

lemma try_map_map: "try_map f (map g xs) = try_map (f \<circ> g) xs"
  by (induction xs) simp_all

lemma insertions [simp]:
  "positives (map Positive rows) = mset rows" "negatives (map Positive rows) = {#}" "in_order M (map Positive rows)"
  by (induction rows arbitrary: M) simp_all

end
