(* ===== verification/TopKProps.thy ===== *)
theory TopKProps
  imports TopK StateViews
begin

section \<open>Correctness of the top-k operator\<close>

text \<open>
  The specification: the rows kept for a group are \<open>k\<close> rows of the group, or all when there are
  fewer, and no other row of the group is greater than one of them. The proof follows one group
  through the loop over the batch: before its records, during them, and after the group is closed.
\<close>

definition top_k :: "('v row \<Rightarrow> 'v row \<Rightarrow> ordering) \<Rightarrow> nat \<Rightarrow> 'v row multiset \<Rightarrow> 'v row multiset \<Rightarrow> bool" where
  "top_k cmp k P T \<longleftrightarrow>
     T \<subseteq># P \<and> size T = min k (size P) \<and> (\<forall>x\<in>#P - T. \<forall>y\<in>#T. cmp x y \<noteq> Greater)"

definition in_group :: "topk \<Rightarrow> 'v list \<Rightarrow> 'v row \<Rightarrow> bool" where
  "in_group t g row \<longleftrightarrow> cloned_indices row (topk_group_by t) = Inr g"

definition grp :: "topk \<Rightarrow> 'v list \<Rightarrow> 'v row multiset \<Rightarrow> 'v row multiset" where
  "grp t g M = filter_mset (in_group t g) M"

definition hit :: "topk \<Rightarrow> 'v state_view \<Rightarrow> 'v list \<Rightarrow> bool" where
  "hit t db g \<longleftrightarrow> (\<exists>pk. point_key_from g = Inr pk \<and> state_lookup db (topk_group_by t) pk \<noteq> LookupMissing)"

definition fits :: "topk \<Rightarrow> 'v row \<Rightarrow> bool" where
  "fits t row \<longleftrightarrow> wide (topk_order t) row \<and> list_all (\<lambda>i. i < length row) (topk_group_by t)"

definition replay_fits :: "'v replay_context \<Rightarrow> 'v row \<Rightarrow> bool" where
  "replay_fits ctx row \<longleftrightarrow>
     (case ctx of ReplayPartial cols _ \<Rightarrow> list_all (\<lambda>i. i < length row) cols | _ \<Rightarrow> True)"

definition positives_first :: "topk \<Rightarrow> 'v records \<Rightarrow> bool" where
  "positives_first t rs \<longleftrightarrow>
     sorted_wrt (\<lambda>a b. group_or_empty t (rec a) = group_or_empty t (rec b) \<and> is_positive b \<longrightarrow> is_positive a) rs"

definition topk_env ::
    "(nat \<Rightarrow> 'v::linorder state_view option) \<Rightarrow> 'v heap_layout \<Rightarrow> 'v unstable_layout \<Rightarrow> topk \<Rightarrow>
     'v state_view \<Rightarrow> 'v row multiset \<Rightarrow> bool" where
  "topk_env states heap unstable t pst P \<longleftrightarrow>
     topk_group_by t \<noteq> [] \<and> (\<forall>cs. mset (heap cs) = mset cs) \<and> (\<forall>rows. mset (unstable rows) = mset rows) \<and>
     states (topk_src t) = Some pst \<and> answers pst (topk_group_by t) P \<and>
     (\<forall>pk. state_lookup pst (topk_group_by t) pk \<noteq> LookupMissing) \<and>
     (\<forall>row\<in>#P. wide (topk_order t) row)"

subsection \<open>Rows of a group under processing\<close>

definition rows_of :: "'v current_record list \<Rightarrow> 'v row multiset" where
  "rows_of cs = image_mset cur_row (mset cs)"

definition old_of :: "'v current_record list \<Rightarrow> 'v row multiset" where
  "old_of cs = image_mset cur_row (filter_mset (\<lambda>c. \<not> is_new c) (mset cs))"

definition new_of :: "'v current_record list \<Rightarrow> 'v row multiset" where
  "new_of cs = image_mset cur_row (filter_mset is_new (mset cs))"

lemmas of_defs = rows_of_def old_of_def new_of_def

lemma old_new_rows: "old_of cs + new_of cs = rows_of cs"
  unfolding of_defs by (metis image_mset_union multiset_partition add.commute)

lemma heap_from_wide: "\<forall>c\<in>set cs. wide ods (cur_row c) \<Longrightarrow> heap_from ods cs = Inr cs"
  by (simp add: heap_from_def list_all_iff)

lemma heap_peek_None: "heap_peek ods cs = None \<longleftrightarrow> cs = []"
  by (cases cs) (auto split: option.splits)

lemma heap_peek_least:
  "heap_peek ods cs = Some c \<Longrightarrow>
   c \<in> set cs \<and> (\<forall>d\<in>set cs. order_ord ods (cur_row c) (cur_row d) \<noteq> Greater)"
proof (induction cs arbitrary: c)
  case Nil
  then show ?case by simp
next
  case (Cons b cs)
  show ?case
  proof (cases "heap_peek ods cs")
    case None
    with Cons.prems have "cs = []" "c = b" by (auto simp: heap_peek_None)
    then show ?thesis using order_ord.cmp_refl [of ods "cur_row b"] by simp
  next
    case (Some d)
    note d = Cons.IH [OF Some]
    show ?thesis
    proof (cases "current_cmp ods b d = Less")
      case True
      with Some Cons.prems have "c = d" by simp
      with True d order_ord_sym [of ods "cur_row d" "cur_row b"] show ?thesis
        by (auto simp: current_cmp_def)
    next
      case False
      with Some Cons.prems have "c = b" by simp
      with False d order_ord.cmp_refl [of ods "cur_row b"] show ?thesis
        using order_ord_trans [of ods "cur_row b" "cur_row d"] by (auto simp: current_cmp_def)
    qed
  qed
qed

lemma remove_first_spec:
  "case remove_first r cs of
     (cs', None) \<Rightarrow> cs' = cs \<and> r \<notin># rows_of cs
   | (cs', Some b) \<Rightarrow> mset cs = add_mset \<lparr>cur_row = r, is_new = b\<rparr> (mset cs')"
  by (induction cs) (auto simp: of_defs split: prod.splits option.splits)

lemma swap_mset: "i < length xs \<Longrightarrow> j < length xs \<Longrightarrow> mset (swap i j xs) = mset xs"
  unfolding swap_def by (rule mset_swap)

lemma position_Some: "position P xs = Some i \<Longrightarrow> i < length xs \<and> P (xs ! i)"
  by (induction xs arbitrary: i) (auto split: if_splits)

definition same_order :: "order \<Rightarrow> 'v::linorder current_record list \<Rightarrow> 'v current_record list \<Rightarrow> bool" where
  "same_order ods xs ys \<longleftrightarrow>
     mset xs = mset ys \<and> list_all2 (\<lambda>x y. order_ord ods (cur_row x) (cur_row y) = Equal) xs ys"

lemma same_order_length: "same_order ods xs ys \<Longrightarrow> length xs = length ys"
  by (auto simp: same_order_def dest: list_all2_lengthD)

lemma same_order_refl: "same_order ods xs xs"
  by (simp add: same_order_def list_all2_conv_all_nth order_ord.cmp_refl)

lemma same_order_trans: "same_order ods xs ys \<Longrightarrow> same_order ods ys zs \<Longrightarrow> same_order ods xs zs"
  unfolding same_order_def
  by (auto intro: list_all2_trans [rotated 1] order_ord.cmp_equal_trans)

lemma same_order_swap:
  assumes "i < length xs" "j < length xs"
    and "order_ord ods (cur_row (xs ! j)) (cur_row (xs ! i)) = Equal"
  shows "same_order ods (swap i j xs) xs"
proof -
  have "order_ord ods (cur_row (xs ! i)) (cur_row (xs ! j)) = Equal"
    using assms(3) order_ord.cmp_swap by blast
  with assms swap_mset [OF assms(1,2)] show ?thesis
    by (auto simp: same_order_def list_all2_conv_all_nth swap_def nth_list_update order_ord.cmp_refl)
qed

lemma prefer_old_same_order:
  "\<forall>i\<in>set is. i < length cur \<Longrightarrow> gs \<le> length cur \<Longrightarrow> same_order ods (prefer_old ods gs is cur) cur"
proof (induction ods gs "is" cur rule: prefer_old.induct)
  case (1 ods gs cur)
  then show ?case by (simp add: same_order_refl)
next
  case (2 ods gs i "is" cur)
  let ?pos = "position (\<lambda>c. \<not> is_new c \<and> order_ord ods (cur_row c) (cur_row (cur ! i)) = Equal) (take gs cur)"
  let ?cur = "if is_new (cur ! i) then (case ?pos of Some ri \<Rightarrow> swap i ri cur | None \<Rightarrow> cur) else cur"
  have s: "same_order ods ?cur cur"
  proof (cases ?pos)
    case None
    then show ?thesis by (simp add: same_order_refl)
  next
    case (Some ri)
    from position_Some [OF Some] 2(2,3)
    have "same_order ods (swap i ri cur) cur" by (intro same_order_swap) auto
    with Some same_order_refl [of ods cur] show ?thesis by simp
  qed
  have "length ?cur = length cur" by (rule same_order_length [OF s])
  with "2.prems" have "same_order ods (prefer_old ods gs is ?cur) ?cur"
    using "2.IH" by (metis list.set_intros(2))
  from same_order_trans [OF this s] show ?case by simp
qed

lemma same_order_ordered:
  assumes "same_order ods ys xs" "sorted_wrt (\<lambda>a b. order_ord ods (cur_row a) (cur_row b) \<noteq> Greater) xs"
  shows "sorted_wrt (\<lambda>a b. order_ord ods (cur_row a) (cur_row b) \<noteq> Greater) ys"
proof -
  have l: "length ys = length xs" using assms(1) by (rule same_order_length)
  have e: "order_ord ods (cur_row (ys ! i)) (cur_row (xs ! i)) \<noteq> Greater"
      "order_ord ods (cur_row (xs ! i)) (cur_row (ys ! i)) \<noteq> Greater" if "i < length xs" for i
    using assms(1) that l order_ord_sym [of ods "cur_row (xs ! i)" "cur_row (ys ! i)"]
    by (auto simp: same_order_def list_all2_conv_all_nth)
  show ?thesis
    unfolding sorted_wrt_iff_nth_less
  proof (intro allI impI)
    fix i j
    assume "i < j" "j < length ys"
    with l have "i < length xs" "j < length xs" by simp_all
    moreover have "order_ord ods (cur_row (xs ! i)) (cur_row (xs ! j)) \<noteq> Greater"
      using assms(2) \<open>i < j\<close> \<open>j < length xs\<close> by (simp add: sorted_wrt_iff_nth_less)
    ultimately show "order_ord ods (cur_row (ys ! i)) (cur_row (ys ! j)) \<noteq> Greater"
      using e order_ord_trans by metis
  qed
qed

interpretation current_cmp: comparator "current_cmp ods" for ods
proof
  fix a b c :: "'a current_record"
  show "current_cmp ods b a = ord_reverse (current_cmp ods a b)"
    using order_ord_sym [of ods "cur_row b" "cur_row a"] by (simp add: current_cmp_def)
  show "\<lbrakk>current_cmp ods a b \<noteq> Greater; current_cmp ods b c \<noteq> Greater\<rbrakk> \<Longrightarrow> current_cmp ods a c \<noteq> Greater"
    using order_ord_trans [of ods "cur_row c" "cur_row b" "cur_row a"]
      order_ord_sym [of ods "cur_row a" "cur_row b"] order_ord_sym [of ods "cur_row b" "cur_row c"]
      order_ord_sym [of ods "cur_row a" "cur_row c"]
    by (simp add: current_cmp_def)
qed

lemma sorted_vec_ordered:
  "sorted_wrt (\<lambda>a b. order_ord ods (cur_row a) (cur_row b) \<noteq> Greater) (rev (into_sorted_vec heap ods cs))"
proof -
  have "current_cmp ods b a \<noteq> Greater \<Longrightarrow> order_ord ods (cur_row a) (cur_row b) \<noteq> Greater" for a b
    using order_ord_sym [of ods "cur_row a" "cur_row b"] by (auto simp: current_cmp_def)
  with current_cmp.sort_by_ascending [of ods "heap cs"] show ?thesis
    unfolding into_sorted_vec_def ascending_def sorted_wrt_rev
    by (rule sorted_wrt_mono_rel [rotated]) auto
qed

subsection \<open>Closing a group\<close>

lemma close_sorted:
  assumes "mset (heap cs) = mset cs" "gs \<le> length cs"
  shows "\<exists>taken dropped.
    prefer_old ods gs [gs..<length (rev (into_sorted_vec heap ods cs))] (rev (into_sorted_vec heap ods cs)) = dropped @ taken \<and>
    mset taken + mset dropped = mset cs \<and> length dropped = gs \<and>
    (\<forall>x\<in>set dropped. \<forall>y\<in>set taken. order_ord ods (cur_row x) (cur_row y) \<noteq> Greater)"
proof -
  let ?v = "rev (into_sorted_vec heap ods cs)"
  let ?w = "prefer_old ods gs [gs..<length ?v] ?v"
  have m: "mset ?v = mset cs" using assms(1) by (simp add: into_sorted_vec_def)
  then have l: "length ?v = length cs" by (metis size_mset)
  have so: "same_order ods ?w ?v" using assms(2) l by (intro prefer_old_same_order) auto
  have "mset ?w = mset cs" using so m by (simp add: same_order_def)
  moreover have "length ?w = length cs" using same_order_length [OF so] l by simp
  moreover have "sorted_wrt (\<lambda>a b. order_ord ods (cur_row a) (cur_row b) \<noteq> Greater) (take gs ?w @ drop gs ?w)"
    using same_order_ordered [OF so sorted_vec_ordered] by (metis append_take_drop_id)
  moreover have "mset (drop gs ?w) + mset (take gs ?w) = mset ?w"
    by (metis append_take_drop_id mset_append add.commute)
  ultimately show ?thesis
    using assms(2) unfolding sorted_wrt_append
    by (intro exI [of _ "drop gs ?w"] exI [of _ "take gs ?w"]) simp
qed

definition desc :: "order \<Rightarrow> 'v::linorder row \<Rightarrow> 'v row \<Rightarrow> ordering" where
  "desc ods a b = ord_reverse (order_ord ods a b)"

definition fetched ::
    "'v unstable_layout \<Rightarrow> topk \<Rightarrow> 'v::linorder current_record list \<Rightarrow> nat \<Rightarrow> 'v row list \<Rightarrow> 'v current_record list" where
  "fetched unstable t cur len rows =
     (if len = topk_k t \<and> length cur < topk_k t
      then map (\<lambda>r. \<lparr>cur_row = r, is_new = True\<rparr>)
             (take (topk_k t - length cur) (drop (length cur) (sort_by (desc (topk_order t)) (unstable rows))))
      else [])"

lemma fetched_set: "c \<in> set (fetched unstable t cur len rows) \<Longrightarrow> is_new c \<and> cur_row c \<in> set (unstable rows)"
  by (auto simp: fetched_def dest!: in_set_takeD in_set_dropD split: if_splits)

lemma parent_lookup:
  assumes "topk_env states heap unstable t pst P" "g \<noteq> []"
  obtains pk rows where "point_key_from g = Inr pk"
    "ingredient_lookup states through (topk_src t) (topk_group_by t) pk Strict = Inr (LookupRecords (map Inr rows))"
    "mset rows = grp t g P" "\<forall>r\<in>set rows. wide (topk_order t) r"
proof -
  obtain pk where pk: "point_key_from g = Inr pk" "pk_elements pk = g"
    using point_key_elements [OF assms(2)] by auto
  from assms(1) have st: "states (topk_src t) = Some pst" "answers pst (topk_group_by t) P"
    "state_lookup pst (topk_group_by t) pk \<noteq> LookupMissing" "\<forall>row\<in>#P. wide (topk_order t) row"
    by (auto simp: topk_env_def)
  obtain rows where r: "state_lookup pst (topk_group_by t) pk = LookupSome rows"
    using st(3) by (cases "state_lookup pst (topk_group_by t) pk") auto
  with st(2) pk(2) have m: "mset rows = grp t g P"
    by (auto simp: answers_def grp_def in_group_def cong: filter_mset_cong)
  moreover have "\<forall>r\<in>set rows. wide (topk_order t) r"
  proof
    fix r
    assume "r \<in> set rows"
    then have "r \<in># grp t g P" using m by (metis set_mset_mset)
    then show "wide (topk_order t) r" using st(4) by (simp add: grp_def)
  qed
  ultimately show thesis
    using that [OF pk(1)] st(1) r by (simp add: ingredient_lookup_def lookup_into_def lookup_records_def)
qed

lemma post_group_spec:
  assumes env: "topk_env states heap unstable t pst P" and g: "g \<noteq> []"
    and cur: "\<forall>c\<in>set cur. wide (topk_order t) (cur_row c)"
  shows "\<exists>taken dropped rows l.
    post_group states through heap unstable t out cur g len =
      Inr (out @ map (\<lambda>c. Positive (cur_row c)) (filter is_new taken)
               @ map (\<lambda>c. Negative (cur_row c)) (filter (\<lambda>c. \<not> is_new c) dropped), l) \<and>
    mset taken + mset dropped = mset cur + mset (fetched unstable t cur len rows) \<and>
    length dropped = length cur - topk_k t \<and>
    (\<forall>x\<in>set dropped. \<forall>y\<in>set taken. order_ord (topk_order t) (cur_row x) (cur_row y) \<noteq> Greater) \<and>
    mset rows = grp t g P"
proof -
  obtain pk rows where pk: "point_key_from g = Inr pk"
    "ingredient_lookup states through (topk_src t) (topk_group_by t) pk Strict = Inr (LookupRecords (map Inr rows))"
    "mset rows = grp t g P" "\<forall>r\<in>set rows. wide (topk_order t) r"
    by (rule parent_lookup [OF env g])
  let ?cur = "cur @ fetched unstable t cur len rows" and ?gs = "length cur - topk_k t"
  have perm: "mset (heap cs) = mset cs" "mset (unstable rws) = mset rws" for cs rws
    using env by (simp_all add: topk_env_def)
  obtain key where key: "kc_try_from g = Inr key"
    using g by (auto simp: kc_try_from_def vec1_try_from_def)
  have w: "heap_from (topk_order t) ?cur = Inr ?cur"
  proof (rule heap_from_wide, rule ballI)
    fix c
    assume "c \<in> set ?cur"
    then consider "c \<in> set cur" | "c \<in> set (fetched unstable t cur len rows)" by auto
    then show "wide (topk_order t) (cur_row c)"
    proof cases
      case 2
      then have "cur_row c \<in> set rows" using perm(2) fetched_set by (metis set_mset_mset)
      with pk(4) show ?thesis by blast
    qed (use cur in blast)
  qed
  have le: "?gs \<le> length ?cur" by simp
  obtain taken dropped where td:
    "prefer_old (topk_order t) ?gs [?gs..<length (rev (into_sorted_vec heap (topk_order t) ?cur))]
       (rev (into_sorted_vec heap (topk_order t) ?cur)) = dropped @ taken"
    "mset taken + mset dropped = mset ?cur" "length dropped = ?gs"
    "\<forall>x\<in>set dropped. \<forall>y\<in>set taken. order_ord (topk_order t) (cur_row x) (cur_row y) \<noteq> Greater"
    using close_sorted [of heap ?cur ?gs "topk_order t", OF perm(1) le] by blast
  have f: "cur @ fetched unstable t cur len rows = cur" if "\<not> (len = topk_k t \<and> len - length cur \<noteq> 0)"
    using that by (auto simp: fetched_def)
  have "list_all (wide (topk_order t)) rows" using pk(4) by (simp add: list_all_iff)
  have desc: "(\<lambda>a b. ord_reverse (order_ord (topk_order t) a b)) = desc (topk_order t)"
    by (simp add: desc_def fun_eq_iff)
  have "\<exists>l. post_group states through heap unstable t out cur g len =
      Inr (out @ map (\<lambda>c. Positive (cur_row c)) (filter is_new taken)
               @ map (\<lambda>c. Negative (cur_row c)) (filter (\<lambda>c. \<not> is_new c) dropped), l)"
  proof (cases "len = topk_k t \<and> len - length cur \<noteq> 0")
    case True
    then have fe: "cur @ take (topk_k t - length cur) (drop (length cur)
        (map (\<lambda>row. \<lparr>cur_row = row, is_new = True\<rparr>) (sort_by (desc (topk_order t)) (unstable rows)))) =
        cur @ fetched unstable t cur (topk_k t) rows"
      by (auto simp: fetched_def take_map drop_map)
    from True pk key w td(1,3) \<open>list_all _ rows\<close> show ?thesis
      unfolding post_group_def Let_def desc by (simp add: fe)
  next
    case False
    from td(1,3) show ?thesis
      unfolding post_group_def Let_def if_not_P [OF False] f [OF False] by simp
  qed
  with td pk(3) show ?thesis by auto
qed

subsection \<open>One group\<close>

definition group_records :: "topk \<Rightarrow> 'v list \<Rightarrow> 'v records \<Rightarrow> 'v records" where
  "group_records t g rs = filter (\<lambda>r. in_group t g (rec r)) rs"

definition dominated :: "order \<Rightarrow> 'v::linorder row multiset \<Rightarrow> 'v row multiset \<Rightarrow> bool" where
  "dominated ods R C \<longleftrightarrow> C \<subseteq># R \<and> (\<forall>x\<in>#R - C. \<forall>y\<in>#C. order_ord ods x y \<noteq> Greater)"

text \<open>The state while the records \<open>d\<close> of a group have been processed.\<close>

definition tracks ::
    "topk \<Rightarrow> 'v::linorder list \<Rightarrow> 'v row multiset \<Rightarrow> 'v row multiset \<Rightarrow> 'v records \<Rightarrow> 'v topk_state \<Rightarrow> bool" where
  "tracks t g S P d st \<longleftrightarrow>
     negatives (group_records t g (topk_out st)) + old_of (topk_group st) = S \<and>
     positives (group_records t g (topk_out st)) = {#} \<and> topk_original_len st = size S \<and>
     (if size S < topk_k t then rows_of (topk_group st) = P + positives d - negatives d
      else dominated (topk_order t) (P + positives d - negatives d) (rows_of (topk_group st)) \<and>
        (negatives d = {#} \<longrightarrow> topk_group st \<noteq> []))"

lemma of_simps [simp]:
  "rows_of [] = {#}" "old_of [] = {#}" "new_of [] = {#}"
  "rows_of (cs @ ds) = rows_of cs + rows_of ds" "old_of (cs @ ds) = old_of cs + old_of ds"
  "new_of (cs @ ds) = new_of cs + new_of ds"
  "rows_of [c] = {#cur_row c#}" "old_of [c] = (if is_new c then {#} else {#cur_row c#})"
  by (simp_all add: of_defs)

lemma of_mset_cong:
  "mset cs = mset ds \<Longrightarrow> rows_of cs = rows_of ds" "mset cs = mset ds \<Longrightarrow> old_of cs = old_of ds"
  "mset cs = mset ds \<Longrightarrow> new_of cs = new_of ds"
  by (simp_all add: of_defs)

lemma group_records_simps [simp]:
  "group_records t g [] = []"
  "group_records t g (rs @ rs') = group_records t g rs @ group_records t g rs'"
  "group_records t g (r # rs) = (if in_group t g (rec r) then r # group_records t g rs else group_records t g rs)"
  by (simp_all add: group_records_def)

lemma dominated_iff:
  "dominated ods R C \<longleftrightarrow> (\<exists>X. R = C + X \<and> (\<forall>x\<in>#X. \<forall>y\<in>#C. order_ord ods x y \<noteq> Greater))"
proof
  assume "dominated ods R C"
  then show "\<exists>X. R = C + X \<and> (\<forall>x\<in>#X. \<forall>y\<in>#C. order_ord ods x y \<noteq> Greater)"
    unfolding dominated_def by (intro exI [of _ "R - C"]) simp
qed (auto simp: dominated_def)

lemma dominated_skip:
  assumes "dominated ods R C" "\<forall>y\<in>#C. order_ord ods m y \<noteq> Greater" "order_ord ods m row = Greater"
  shows "dominated ods (add_mset row R) C"
proof -
  obtain X where X: "R = C + X" "\<forall>x\<in>#X. \<forall>y\<in>#C. order_ord ods x y \<noteq> Greater"
    using assms(1) unfolding dominated_iff by auto
  have "order_ord ods row y \<noteq> Greater" if "y \<in># C" for y
    using assms(2,3) that order_ord_sym [of ods row m] order_ord_trans [of ods row m y] by auto
  with X show ?thesis unfolding dominated_iff by (intro exI [of _ "add_mset row X"]) simp
qed

lemma dominated_push:
  assumes "dominated ods R C" "m \<in># C" "order_ord ods m row \<noteq> Greater"
  shows "dominated ods (add_mset row R) (add_mset row C)"
proof -
  obtain X where X: "R = C + X" "\<forall>x\<in>#X. \<forall>y\<in>#C. order_ord ods x y \<noteq> Greater"
    using assms(1) unfolding dominated_iff by auto
  then have "order_ord ods x row \<noteq> Greater" if "x \<in># X" for x
    using assms(2,3) that order_ord_trans [of ods x m row] by auto
  with X show ?thesis unfolding dominated_iff by (intro exI [of _ X]) simp
qed

lemma dominated_remove:
  "dominated ods R (add_mset row C) \<Longrightarrow> dominated ods (R - {#row#}) C"
  unfolding dominated_iff by auto

lemma dominated_remove_other:
  assumes "dominated ods R C" "row \<notin># C"
  shows "dominated ods (R - {#row#}) C"
proof -
  obtain X where X: "R = C + X" "\<forall>x\<in>#X. \<forall>y\<in>#C. order_ord ods x y \<noteq> Greater"
    using assms(1) unfolding dominated_iff by auto
  have "R - {#row#} = C + (X - {#row#})"
    using assms(2) by (intro multiset_eqI) (auto simp: X(1) not_in_iff)
  with X(2) show ?thesis unfolding dominated_iff by (auto dest: in_diffD)
qed

lemma topk_record_tracks:
  assumes tr: "tracks t g S P d st" and perm: "\<forall>cs. mset (heap cs) = mset cs"
    and wc: "\<forall>c\<in>set (topk_group st). wide (topk_order t) (cur_row c)"
    and r: "in_group t g (rec r)" "wide (topk_order t) (rec r)"
    and pos: "is_positive r \<Longrightarrow> negatives d = {#}"
    and neg: "\<not> is_positive r \<Longrightarrow> rec r \<in># P + positives d - negatives d"
  shows "\<exists>st'. topk_record heap t r st = Inr st' \<and> tracks t g S P (d @ [r]) st'"
proof (cases r)
  case (Positive row)
  note row = Positive
  with pos have nd: "negatives d = {#}" by simp
  have w: "heap_from (topk_order t) (topk_group st @ [\<lparr>cur_row = row, is_new = True\<rparr>]) =
      Inr (topk_group st @ [\<lparr>cur_row = row, is_new = True\<rparr>])"
    using wc r(2) row by (intro heap_from_wide) auto
  show ?thesis
  proof (cases "size S < topk_k t")
    case True
    with tr row nd w show ?thesis by (auto simp: topk_record_def tracks_def)
  next
    case False
    let ?R = "P + positives d - negatives d" and ?C = "topk_group st"
    from False tr nd have dom: "dominated (topk_order t) ?R (rows_of ?C)" "?C \<noteq> []"
      by (simp_all add: tracks_def)
    obtain m where m: "heap_peek (topk_order t) ?C = Some m"
      using dom(2) heap_peek_None [of "topk_order t" ?C] by auto
    note ml = heap_peek_least [OF m]
    have cmp: "order_cmp (topk_order t) (cur_row m) row = Inr (order_ord (topk_order t) (cur_row m) row)"
      using ml wc r(2) row by (intro order_cmp_wide) auto
    have R: "P + positives (d @ [r]) - negatives (d @ [r]) = add_mset row ?R" using nd row by simp
    show ?thesis
    proof (cases "order_ord (topk_order t) (cur_row m) row = Greater")
      case skip: True
      have "dominated (topk_order t) (add_mset row ?R) (rows_of ?C)"
        using dominated_skip [OF dom(1) _ skip] ml by (simp add: rows_of_def)
      with skip row False tr m cmp dom(2) R show ?thesis by (auto simp: topk_record_def tracks_def)
    next
      case push: False
      have "dominated (topk_order t) (add_mset row ?R) (add_mset row (rows_of ?C))"
        using dominated_push [OF dom(1) _ push] ml by (simp add: rows_of_def)
      with push row False tr m cmp w R show ?thesis by (auto simp: topk_record_def tracks_def)
    qed
  qed
next
  case (Negative row)
  let ?R = "P + positives d - negatives d" and ?C = "topk_group st"
  have R: "P + positives (d @ [r]) - negatives (d @ [r]) = ?R - {#row#}" using Negative by simp
  obtain cs found where rf: "remove_first row (heap ?C) = (cs, found)" by fastforce
  have hC: "rows_of (heap ?C) = rows_of ?C" "old_of (heap ?C) = old_of ?C"
    using perm by (auto intro: of_mset_cong)
  show ?thesis
  proof (cases found)
    case None
    with remove_first_spec [where r = row and cs = "heap ?C"] rf hC
    have cs: "rows_of cs = rows_of ?C" "old_of cs = old_of ?C" "row \<notin># rows_of ?C" by auto
    then have nt: "\<not> size S < topk_k t" using neg Negative tr by (auto simp: tracks_def)
    then have "dominated (topk_order t) (?R - {#row#}) (rows_of ?C)"
      using tr cs(3) by (intro dominated_remove_other) (simp_all add: tracks_def)
    with None rf cs tr R Negative nt show ?thesis by (auto simp: topk_record_def tracks_def)
  next
    case (Some b)
    with remove_first_spec [where r = row and cs = "heap ?C"] rf perm
    have cs: "mset ?C = add_mset \<lparr>cur_row = row, is_new = b\<rparr> (mset cs)" by auto
    then have rows: "rows_of ?C = add_mset row (rows_of cs)"
      "old_of ?C = (if b then old_of cs else add_mset row (old_of cs))"
      by (simp_all add: of_defs)
    have "if size S < topk_k t then rows_of cs = ?R - {#row#} else dominated (topk_order t) (?R - {#row#}) (rows_of cs)"
    proof (cases "size S < topk_k t")
      case True
      then have "?R = add_mset row (rows_of cs)" using tr rows by (simp add: tracks_def)
      with True show ?thesis by simp
    next
      case False
      then have "dominated (topk_order t) ?R (add_mset row (rows_of cs))"
        using tr rows by (simp add: tracks_def)
      from dominated_remove [OF this] False show ?thesis by presburger
    qed
    with Some rf rows tr R Negative r(1) show ?thesis
      by (cases b) (auto simp: topk_record_def tracks_def split: if_splits)
  qed
qed

interpretation desc: comparator "desc ods" for ods
proof
  fix a b c :: "'a row"
  show "desc ods b a = ord_reverse (desc ods a b)"
    using order_ord_sym [of ods b a] by (simp add: desc_def)
  show "\<lbrakk>desc ods a b \<noteq> Greater; desc ods b c \<noteq> Greater\<rbrakk> \<Longrightarrow> desc ods a c \<noteq> Greater"
    using order_ord_trans [of ods c b a] order_ord_sym [of ods a b] order_ord_sym [of ods b c] order_ord_sym [of ods a c]
    by (simp add: desc_def)
qed

lemma take_sorted_dominated: "dominated ods (mset rows) (mset (take n (sort_by (desc ods) rows)))"
proof -
  let ?s = "sort_by (desc ods) rows"
  have "ascending (desc ods) (take n ?s @ drop n ?s)" by (simp add: desc.sort_by_ascending)
  then have "order_ord ods x y \<noteq> Greater" if "x \<in> set (drop n ?s)" "y \<in> set (take n ?s)" for x y
    using that order_ord_sym [of ods x y] unfolding ascending_def sorted_wrt_append by (auto simp: desc_def)
  moreover have "mset rows = mset (take n ?s) + mset (drop n ?s)"
    by (metis append_take_drop_id mset_append mset_sort_by)
  ultimately show ?thesis unfolding dominated_iff by (intro exI [of _ "mset (drop n ?s)"]) auto
qed

lemma dominated_unique:
  assumes A: "dominated ods R A" and B: "dominated ods R B" and "size A = size B"
    and ties: "\<And>x y. \<lbrakk>x \<in># R; y \<in># R; order_ord ods x y = Equal\<rbrakk> \<Longrightarrow> x = y"
  shows "A = B"
proof (rule ccontr)
  assume "A \<noteq> B"
  have "A - B \<noteq> {#}" if "A \<noteq> B" "size A = size B" for A B :: "'a row multiset"
    using that by (metis Diff_eq_empty_iff_mset nonempty_has_size size_Diff_submset subset_mset.le_iff_add
        subset_mset.antisym_conv2 mset_subset_size nat_neq_iff)
  with \<open>A \<noteq> B\<close> assms(3) obtain a b where ab: "a \<in># A - B" "b \<in># B - A"
    by (metis multiset_nonemptyE)
  have sub: "A \<subseteq># R" "B \<subseteq># R" using A B by (simp_all add: dominated_def)
  have in_rest: "x \<in># R - C" if "x \<in># D - C" "D \<subseteq># R" for x and C D :: "'a row multiset"
    using that by (meson in_diff_count mset_subset_eq_count order_less_le_trans)
  have "order_ord ods b a \<noteq> Greater"
    using A ab(1) in_rest [OF ab(2) sub(2)] by (auto simp: dominated_def dest: in_diffD)
  moreover have "order_ord ods a b \<noteq> Greater"
    using B ab(2) in_rest [OF ab(1) sub(1)] by (auto simp: dominated_def dest: in_diffD)
  ultimately have "order_ord ods a b = Equal"
    using order_ord_sym [of ods b a] by (cases "order_ord ods a b") auto
  then have "a = b" using ties ab sub by (meson in_diffD mset_subset_eqD)
  with ab show False by (metis in_diff_count less_asym)
qed

lemma top_k_iff: "top_k (order_ord ods) k P T \<longleftrightarrow> dominated ods P T \<and> size T = min k (size P)"
  by (auto simp: top_k_def dominated_def)

lemma records_of_current:
  "positives (map (\<lambda>c. Positive (cur_row c)) (filter is_new cs)) = new_of cs"
  "negatives (map (\<lambda>c. Positive (cur_row c)) cs) = {#}"
  "negatives (map (\<lambda>c. Negative (cur_row c)) (filter (\<lambda>c. \<not> is_new c) cs)) = old_of cs"
  "positives (map (\<lambda>c. Negative (cur_row c)) cs) = {#}"
  by (induction cs) (auto simp: of_defs)

lemma old_of_new: "\<forall>c\<in>set cs. is_new c \<Longrightarrow> old_of cs = {#}"
  by (simp add: old_of_def filter_empty_conv flip: mset_filter)

lemma group_records_all: "\<forall>r\<in>set rs. in_group t g (rec r) \<Longrightarrow> group_records t g rs = rs"
  by (simp add: group_records_def filter_id_conv)

text \<open>The rows kept when a group is closed.\<close>

lemma taken_top_k:
  assumes tr: "tracks t g S P d st" and top: "top_k (order_ord (topk_order t)) (topk_k t) P S"
    and R: "P + positives d - negatives d = mset rows" and unst: "mset (unstable rows) = mset rows"
    and ties: "\<And>x y. \<lbrakk>x \<in> set rows; y \<in> set rows; order_ord (topk_order t) x y = Equal\<rbrakk> \<Longrightarrow> x = y"
    and td: "mset taken + mset dropped = mset (topk_group st) + mset (fetched unstable t (topk_group st) (topk_original_len st) rows)"
    and dl: "length dropped = length (topk_group st) - topk_k t"
    and ord: "\<forall>x\<in>set dropped. \<forall>y\<in>set taken. order_ord (topk_order t) (cur_row x) (cur_row y) \<noteq> Greater"
  shows "top_k (order_ord (topk_order t)) (topk_k t) (mset rows) (rows_of taken)"
proof -
  let ?C = "topk_group st" and ?k = "topk_k t" and ?o = "topk_order t"
  let ?F = "fetched unstable t ?C (topk_original_len st) rows"
  have td_rows: "rows_of taken + rows_of dropped = rows_of ?C + rows_of ?F"
    using td by (metis image_mset_union rows_of_def)
  have sz: "size (rows_of xs) = length xs" for xs :: "'a current_record list" by (simp add: rows_of_def)
  have dd: "\<forall>x\<in>#rows_of dropped. \<forall>y\<in>#rows_of taken. order_ord ?o x y \<noteq> Greater"
    using ord by (simp add: rows_of_def)
  have len: "topk_original_len st = size S" using tr by (simp add: tracks_def)
  show ?thesis
  proof (cases "size S < ?k")
    case True
    then have "?F = []" using len by (simp add: fetched_def)
    moreover have "rows_of ?C = mset rows" using tr True R by (simp add: tracks_def)
    ultimately have eq: "mset rows = rows_of taken + rows_of dropped" using td_rows by simp
    then have "length rows = length taken + length dropped" by (metis size_mset size_union sz)
    moreover have "length rows = length ?C" using \<open>rows_of ?C = mset rows\<close> sz by (metis size_mset)
    ultimately show ?thesis
      using eq dd dl sz unfolding top_k_iff dominated_iff by auto
  next
    case False
    then have dom: "dominated ?o (mset rows) (rows_of ?C)" using tr R by (simp add: tracks_def)
    then obtain X where X: "mset rows = rows_of ?C + X" "\<forall>x\<in>#X. \<forall>y\<in>#rows_of ?C. order_ord ?o x y \<noteq> Greater"
      unfolding dominated_iff by auto
    have k: "size S = ?k" using False top by (simp add: top_k_def)
    show ?thesis
    proof (cases "length ?C < ?k")
      case True
      let ?s = "sort_by (desc ?o) (unstable rows)" and ?n = "length ?C"
      have F: "rows_of ?F = mset (take (?k - ?n) (drop ?n ?s))"
        using True len k by (simp add: fetched_def rows_of_def multiset.map_comp comp_def)
      have le: "?n \<le> length rows" using X(1) sz by (metis size_mset size_union le_add1)
      have "length (unstable rows) = length rows" using unst by (metis size_mset)
      then have "rows_of ?C = mset (take ?n ?s)"
        using dom take_sorted_dominated [of ?o "unstable rows" ?n] le sz ties unst
        by (intro dominated_unique [of ?o "mset rows"]) auto
      moreover have "dropped = []" using dl True by simp
      ultimately have "rows_of taken = mset (take ?n ?s) + mset (take (?k - ?n) (drop ?n ?s))"
        using td_rows F by simp
      also have "\<dots> = mset (take ?k ?s)"
        using True by (metis le_add_diff_inverse less_imp_le mset_append take_add)
      finally show ?thesis
        using take_sorted_dominated [of ?o "unstable rows" ?k] unst \<open>length (unstable rows) = length rows\<close>
        unfolding top_k_iff by (simp add: min.commute)
    next
      case False
      then have eq: "rows_of ?C = rows_of taken + rows_of dropped" using td_rows by (simp add: fetched_def)
      then have "length taken + length dropped = length ?C" by (metis sz size_union)
      with False dl have "length taken = ?k" by simp
      moreover have "?k \<le> length rows" using X(1) sz False by (metis size_mset size_union le_add1 not_less order_trans)
      moreover have "dominated ?o (mset rows) (rows_of taken)"
        using X eq dd unfolding dominated_iff by (intro exI [of _ "rows_of dropped + X"]) (auto simp: add.assoc)
      ultimately show ?thesis using sz unfolding top_k_iff by simp
    qed
  qed
qed

definition finished ::
    "topk \<Rightarrow> 'v::linorder list \<Rightarrow> 'v row multiset \<Rightarrow> 'v row multiset \<Rightarrow> 'v records \<Rightarrow> bool" where
  "finished t g S R res \<longleftrightarrow>
     negatives (group_records t g res) \<subseteq># S \<and>
     top_k (order_ord (topk_order t)) (topk_k t) R
       (S - negatives (group_records t g res) + positives (group_records t g res))"

definition well_grouped :: "topk \<Rightarrow> 'v topk_state \<Rightarrow> bool" where
  "well_grouped t st \<longleftrightarrow>
     (\<forall>c\<in>set (topk_group st). in_group t (topk_group_key st) (cur_row c) \<and> wide (topk_order t) (cur_row c)) \<and>
     (topk_group_key st = [] \<longrightarrow> topk_group st = [])"

lemma closed_rows_in_group:
  assumes env: "topk_env states heap unstable t pst P" and wg: "\<forall>c\<in>set cur. in_group t h (cur_row c)"
    and rows: "mset rows = grp t h P"
    and td: "mset taken + mset dropped = mset cur + mset (fetched unstable t cur len rows)"
  shows "\<forall>c\<in>set taken \<union> set dropped. in_group t h (cur_row c)"
proof
  fix c
  assume "c \<in> set taken \<union> set dropped"
  then have "c \<in># mset taken + mset dropped" by auto
  then have "c \<in> set cur \<or> c \<in> set (fetched unstable t cur len rows)" unfolding td by simp
  then show "in_group t h (cur_row c)"
  proof
    assume "c \<in> set (fetched unstable t cur len rows)"
    then have "cur_row c \<in># mset (unstable rows)" using fetched_set by fastforce
    moreover have "mset (unstable rows) = mset rows" using env by (simp add: topk_env_def)
    ultimately show ?thesis using rows by (simp add: grp_def)
  qed (use wg in blast)
qed

lemma close_other:
  assumes env: "topk_env states heap unstable t pst P'" and wg: "well_grouped t st"
    and h: "topk_group_key st \<noteq> []" "topk_group_key st \<noteq> g"
  shows "\<exists>res l. post_group states through heap unstable t (topk_out st) (topk_group st) (topk_group_key st)
      (topk_original_len st) = Inr (res, l) \<and> group_records t g res = group_records t g (topk_out st)"
proof -
  let ?h = "topk_group_key st"
  have "\<forall>c\<in>set (topk_group st). wide (topk_order t) (cur_row c)" using wg by (simp add: well_grouped_def)
  from post_group_spec [OF env h(1) this, of through "topk_out st" "topk_original_len st"]
  obtain taken dropped rows l where pg:
    "post_group states through heap unstable t (topk_out st) (topk_group st) ?h (topk_original_len st) =
      Inr (topk_out st @ map (\<lambda>c. Positive (cur_row c)) (filter is_new taken)
               @ map (\<lambda>c. Negative (cur_row c)) (filter (\<lambda>c. \<not> is_new c) dropped), l)"
    "mset taken + mset dropped = mset (topk_group st) + mset (fetched unstable t (topk_group st) (topk_original_len st) rows)"
    "mset rows = grp t ?h P'" by auto
  have "\<forall>c\<in>set taken \<union> set dropped. in_group t ?h (cur_row c)"
    using wg by (intro closed_rows_in_group [OF env _ pg(3,2)]) (simp add: well_grouped_def)
  then have "\<forall>c\<in>set taken \<union> set dropped. \<not> in_group t g (cur_row c)"
    using h(2) by (auto simp: in_group_def)
  then have "group_records t g (map (\<lambda>c. Positive (cur_row c)) (filter is_new taken)) = []"
    "group_records t g (map (\<lambda>c. Negative (cur_row c)) (filter (\<lambda>c. \<not> is_new c) dropped)) = []"
    by (auto simp: group_records_def filter_empty_conv)
  with pg(1) show ?thesis by simp
qed

lemma close_tracked:
  assumes env: "topk_env states heap unstable t pst P'" and wg: "well_grouped t st"
    and g: "topk_group_key st = g" "g \<noteq> []"
    and tr: "tracks t g S P d st" and top: "top_k (order_ord (topk_order t)) (topk_k t) P S"
    and R: "P + positives d - negatives d = grp t g P'"
    and ties: "\<And>x y. \<lbrakk>x \<in># grp t g P'; y \<in># grp t g P'; order_ord (topk_order t) x y = Equal\<rbrakk> \<Longrightarrow> x = y"
  shows "\<exists>res l. post_group states through heap unstable t (topk_out st) (topk_group st) (topk_group_key st)
      (topk_original_len st) = Inr (res, l) \<and> finished t g S (grp t g P') res"
proof -
  have "\<forall>c\<in>set (topk_group st). wide (topk_order t) (cur_row c)" using wg by (simp add: well_grouped_def)
  from post_group_spec [OF env g(2) this, of through "topk_out st" "topk_original_len st"]
  obtain taken dropped rows l where pg:
    "post_group states through heap unstable t (topk_out st) (topk_group st) g (topk_original_len st) =
      Inr (topk_out st @ map (\<lambda>c. Positive (cur_row c)) (filter is_new taken)
               @ map (\<lambda>c. Negative (cur_row c)) (filter (\<lambda>c. \<not> is_new c) dropped), l)"
    "mset taken + mset dropped = mset (topk_group st) + mset (fetched unstable t (topk_group st) (topk_original_len st) rows)"
    "length dropped = length (topk_group st) - topk_k t"
    "\<forall>x\<in>set dropped. \<forall>y\<in>set taken. order_ord (topk_order t) (cur_row x) (cur_row y) \<noteq> Greater"
    "mset rows = grp t g P'" by auto
  have inr: "\<forall>c\<in>set taken \<union> set dropped. in_group t g (cur_row c)"
    using wg g(1) by (intro closed_rows_in_group [OF env _ pg(5,2)]) (simp add: well_grouped_def)
  have "top_k (order_ord (topk_order t)) (topk_k t) (mset rows) (rows_of taken)"
  proof (rule taken_top_k [OF tr top _ _ _ pg(2,3,4)])
    show "mset (unstable rows) = mset rows" using env by (simp add: topk_env_def)
    show "x = y" if "x \<in> set rows" "y \<in> set rows" "order_ord (topk_order t) x y = Equal" for x y
      using ties that pg(5) by (metis set_mset_mset)
  qed (use R pg(5) in simp)
  moreover have old: "old_of (topk_group st) = old_of taken + old_of dropped"
  proof -
    have "old_of (fetched unstable t (topk_group st) (topk_original_len st) rows) = {#}"
      using fetched_set by (intro old_of_new) blast
    then show ?thesis
      using of_mset_cong(2) [of "taken @ dropped" "topk_group st @ fetched unstable t (topk_group st) (topk_original_len st) rows"]
        pg(2) by simp
  qed
  moreover have gr: "group_records t g (map (\<lambda>c. Positive (cur_row c)) (filter is_new taken)) =
      map (\<lambda>c. Positive (cur_row c)) (filter is_new taken)"
    "group_records t g (map (\<lambda>c. Negative (cur_row c)) (filter (\<lambda>c. \<not> is_new c) dropped)) =
      map (\<lambda>c. Negative (cur_row c)) (filter (\<lambda>c. \<not> is_new c) dropped)"
    using inr by (auto intro!: group_records_all)
  moreover have "S = negatives (group_records t g (topk_out st)) + old_of dropped + old_of taken"
    using tr old by (simp add: tracks_def ac_simps)
  moreover have "positives (group_records t g (topk_out st)) = {#}" using tr by (simp add: tracks_def)
  ultimately show ?thesis
    using pg(1,5) g(1) old_new_rows [of taken] by (simp add: finished_def records_of_current)
qed

subsection \<open>The loop over a batch\<close>

definition topk_batch ::
    "topk \<Rightarrow> 'v::linorder state_view \<Rightarrow> 'v replay_context \<Rightarrow> 'v list \<Rightarrow> 'v row multiset \<Rightarrow> 'v row multiset \<Rightarrow>
     'v row multiset \<Rightarrow> 'v records \<Rightarrow> bool" where
  "topk_batch t db ctx g S P P' L \<longleftrightarrow>
     0 < topk_k t \<and> g \<noteq> [] \<and> hit t db g \<and> answers db (topk_group_by t) S \<and>
     (\<forall>row\<in>#S. wide (topk_order t) row) \<and>
     top_k (order_ord (topk_order t)) (topk_k t) (grp t g P) (grp t g S) \<and>
     sorted_wrt (\<lambda>a b. is_positive b \<longrightarrow> is_positive a) (group_records t g L) \<and>
     negatives (group_records t g L) \<subseteq># grp t g P + positives (group_records t g L) \<and>
     grp t g P' = grp t g P + positives (group_records t g L) - negatives (group_records t g L) \<and>
     (\<forall>x\<in>#grp t g P'. \<forall>y\<in>#grp t g P'. order_ord (topk_order t) x y = Equal \<longrightarrow> x = y) \<and>
     (\<forall>r\<in>set L. fits t (rec r) \<and> replay_fits ctx (rec r)) \<and>
     sorted_wrt (\<lambda>a b. group_or_empty t (rec a) \<le> group_or_empty t (rec b)) L"

definition phase ::
    "topk \<Rightarrow> 'v::linorder list \<Rightarrow> 'v row multiset \<Rightarrow> 'v row multiset \<Rightarrow> 'v row multiset \<Rightarrow> 'v records \<Rightarrow> 'v records \<Rightarrow>
     'v topk_state \<Rightarrow> bool" where
  "phase t g S P P' d e st \<longleftrightarrow>
     topk_group_key st \<noteq> g \<and> group_records t g d = [] \<and> group_records t g (topk_out st) = [] \<or>
     topk_group_key st = g \<and> \<not> topk_missed st \<and> tracks t g (grp t g S) (grp t g P) (group_records t g d) st \<or>
     topk_group_key st \<noteq> g \<and> group_records t g e = [] \<and> finished t g (grp t g S) (grp t g P') (topk_out st)"

definition idle ::
    "topk \<Rightarrow> 'v::linorder list \<Rightarrow> 'v row multiset \<Rightarrow> 'v row multiset \<Rightarrow> 'v records \<Rightarrow> 'v records \<Rightarrow> 'v records \<Rightarrow> bool" where
  "idle t g S P' d e res \<longleftrightarrow>
     group_records t g d = [] \<and> group_records t g res = [] \<or>
     group_records t g e = [] \<and> finished t g (grp t g S) (grp t g P') res"

lemma fits_project:
  "fits t row \<Longrightarrow> \<exists>key. project_group t row = Inr key \<and> in_group t key row \<and> group_or_empty t row = key"
  using cloned_indices_in_bounds [of "topk_group_by t" row]
  by (auto simp: fits_def project_group_def in_group_def group_or_empty_def list_all_iff)

lemma in_group_unique: "in_group t g row \<Longrightarrow> in_group t h row \<longleftrightarrow> g = h"
  by (auto simp: in_group_def)

lemma miss_build_fits: "replay_fits ctx row \<Longrightarrow> \<exists>m. miss_build on idx key ctx None row = Inr m"
proof (cases ctx)
  case (ReplayPartial cols keys)
  assume "replay_fits ctx row"
  with ReplayPartial have "cloned_indices row cols = Inr (map ((!) row) cols)"
    by (intro cloned_indices_in_bounds) (simp add: replay_fits_def list_all_iff)
  with ReplayPartial show ?thesis by (simp add: miss_build_def Let_def)
qed (simp_all add: miss_build_def)

lemma topk_record_keeps:
  assumes wg: "well_grouped t st" and perm: "\<forall>cs. mset (heap cs) = mset cs"
    and r: "in_group t (topk_group_key st) (rec r)" "wide (topk_order t) (rec r)" "topk_group_key st \<noteq> []"
  shows "\<exists>st'. topk_record heap t r st = Inr st' \<and> well_grouped t st' \<and>
    topk_group_key st' = topk_group_key st \<and> topk_missed st' = topk_missed st \<and>
    (\<forall>g. g \<noteq> topk_group_key st \<longrightarrow> group_records t g (topk_out st') = group_records t g (topk_out st))"
proof (cases r)
  case (Positive row)
  let ?C = "topk_group st" and ?c = "\<lparr>cur_row = row, is_new = True\<rparr>"
  have w: "heap_from (topk_order t) (?C @ [?c]) = Inr (?C @ [?c])"
    using wg r(2) Positive by (intro heap_from_wide) (auto simp: well_grouped_def)
  have "\<exists>skip. (if topk_k t \<le> topk_original_len st
      then (case heap_peek (topk_order t) ?C of
          Some least \<Rightarrow> try_bind (order_cmp (topk_order t) (cur_row least) row) (\<lambda>c. Inr (c = Greater))
        | None \<Rightarrow> Inr False)
      else Inr False) = Inr skip"
  proof (cases "heap_peek (topk_order t) ?C")
    case None
    then show ?thesis by (intro exI [of _ False]) simp
  next
    case (Some m)
    then have "wide (topk_order t) (cur_row m)"
      using heap_peek_least [OF Some] wg by (auto simp: well_grouped_def)
    then have "order_cmp (topk_order t) (cur_row m) row = Inr (order_ord (topk_order t) (cur_row m) row)"
      using r(2) Positive by (simp add: order_cmp_wide)
    with Some show ?thesis
      by (intro exI [of _ "topk_k t \<le> topk_original_len st \<and> order_ord (topk_order t) (cur_row m) row = Greater"]) simp
  qed
  then obtain skip where "(if topk_k t \<le> topk_original_len st
      then (case heap_peek (topk_order t) ?C of
          Some least \<Rightarrow> try_bind (order_cmp (topk_order t) (cur_row least) row) (\<lambda>c. Inr (c = Greater))
        | None \<Rightarrow> Inr False)
      else Inr False) = Inr skip" ..
  with w wg r Positive show ?thesis
    by (cases skip) (auto simp: topk_record_def well_grouped_def)
next
  case (Negative row)
  obtain cs found where rf: "remove_first row (heap (topk_group st)) = (cs, found)" by fastforce
  have "set cs \<subseteq> set (heap (topk_group st))"
    using remove_first_spec [where r = row and cs = "heap (topk_group st)"] rf
    by (cases found) (auto simp flip: set_mset_mset)
  also have "\<dots> = set (topk_group st)" using perm by (metis set_mset_mset)
  finally have "set cs \<subseteq> set (topk_group st)" .
  with wg rf r Negative show ?thesis
    by (auto simp: topk_record_def well_grouped_def in_group_unique)
qed

lemma batch_positive:
  assumes "topk_batch t db ctx g S P P' (d @ r # e)" "in_group t g (rec r)" "is_positive r"
  shows "negatives (group_records t g d) = {#}"
proof -
  have "\<forall>a\<in>set (group_records t g d). is_positive a"
    using assms by (auto simp: topk_batch_def sorted_wrt_append)
  then show ?thesis by (induction d) (auto simp: negatives_def)
qed

lemma batch_negative:
  assumes "topk_batch t db ctx g S P P' (d @ r # e)" "in_group t g (rec r)" "\<not> is_positive r"
  shows "rec r \<in># grp t g P + positives (group_records t g d) - negatives (group_records t g d)"
proof -
  obtain row where row: "r = Negative row" using assms(3) by (cases r) auto
  have "\<forall>b\<in>set (group_records t g e). \<not> is_positive b"
    using assms by (auto simp: topk_batch_def sorted_wrt_append)
  then have "positives (group_records t g e) = {#}" by (induction e) (auto simp: positives_def)
  moreover have "negatives (group_records t g (d @ r # e)) \<subseteq># grp t g P + positives (group_records t g (d @ r # e))"
    using assms(1) by (simp add: topk_batch_def)
  from mset_subset_eq_count [OF this, of row]
  have "count (negatives (group_records t g (d @ r # e))) row \<le> count (grp t g P + positives (group_records t g (d @ r # e))) row" .
  ultimately have "count (negatives (group_records t g d)) row < count (grp t g P + positives (group_records t g d)) row"
    using assms(2) row by simp
  then show ?thesis using row by (simp add: in_diff_count)
qed

lemma tidy_phase:
  assumes env: "topk_env states heap unstable t pst P'" and b: "topk_batch t db ctx g S P P' (d @ e)"
    and wg: "well_grouped t st" and ph: "phase t g S P P' d e st"
    and left: "topk_group_key st = g \<Longrightarrow> group_records t g e = []"
  shows "\<exists>st'. tidy_group states through heap unstable t ctx st = Inr st' \<and> topk_group st' = [] \<and>
    idle t g S P' d e (topk_out st')"
proof (cases "topk_group_key st = []")
  case True
  then have "topk_group_key st \<noteq> g" using b by (auto simp: topk_batch_def)
  with True wg ph show ?thesis by (auto simp: tidy_group_def well_grouped_def phase_def idle_def)
next
  case False
  show ?thesis
  proof (cases "topk_group_key st = g")
    case True
    have "\<exists>res l. post_group states through heap unstable t (topk_out st) (topk_group st) (topk_group_key st)
      (topk_original_len st) = Inr (res, l) \<and> finished t g (grp t g S) (grp t g P') res"
      using True ph left b
      by (intro close_tracked [OF env wg True, where P = "grp t g P" and d = "group_records t g d"])
        (auto simp: phase_def topk_batch_def)
    with False True left show ?thesis by (auto simp: tidy_group_def idle_def)
  next
    case other: False
    from close_other [OF env wg False other, of through] obtain res l where
      "post_group states through heap unstable t (topk_out st) (topk_group st) (topk_group_key st)
        (topk_original_len st) = Inr (res, l)" "group_records t g res = group_records t g (topk_out st)" by blast
    with False other ph show ?thesis by (auto simp: tidy_group_def phase_def idle_def finished_def)
  qed
qed

lemma top_k_small: "top_k cmp k P T \<Longrightarrow> size T < k \<Longrightarrow> T = P"
  unfolding top_k_def
  by (metis mset_subset_size subset_mset.le_neq_trans less_irrefl min_less_iff_conj min_def)

lemma start_phase:
  assumes b: "topk_batch t db ctx g S P P' (d @ r # e)" and key: "in_group t key (rec r)" "key \<noteq> []"
    and st: "topk_group st = []" "idle t g S P' d (r # e) (topk_out st)"
  shows "\<exists>st'. start_group t db ctx key st = Inr st' \<and> well_grouped t st' \<and> topk_group_key st' = key \<and>
    phase t g S P P' d (r # e) st'"
proof -
  obtain pk where pk: "point_key_from key = Inr pk" "pk_elements pk = key"
    using point_key_elements [OF key(2)] by auto
  obtain k where k: "kc_try_from key = Inr k" using key(2) by (auto simp: kc_try_from_def vec1_try_from_def)
  show ?thesis
  proof (cases "state_lookup db (topk_group_by t) pk")
    case LookupMissing
    then have "key \<noteq> g" using b pk(1) by (auto simp: topk_batch_def hit_def)
    with LookupMissing pk st show ?thesis
      by (auto simp: start_group_def Let_def well_grouped_def phase_def idle_def)
  next
    case (LookupSome rows)
    let ?cs = "map (\<lambda>row. \<lparr>cur_row = row, is_new = False\<rparr>) rows"
    have rows: "mset rows = grp t key S"
      using b LookupSome pk(2) by (auto simp: topk_batch_def answers_def grp_def in_group_def cong: filter_mset_cong)
    have in_rows: "in_group t key row \<and> wide (topk_order t) row" if "row \<in> set rows" for row
    proof -
      have "row \<in># grp t key S" using that rows by (metis set_mset_mset)
      then show ?thesis using b by (simp add: grp_def topk_batch_def)
    qed
    then have hp: "heap_from (topk_order t) ?cs = Inr ?cs" by (intro heap_from_wide) auto
    have of_cs: "rows_of ?cs = grp t key S" "old_of ?cs = grp t key S"
      using rows by (simp_all add: of_defs multiset.map_comp comp_def filter_mset_image_mset)
    define ls where "ls = (if is_partial ctx then topk_lookups st @ [\<lparr>lookup_on = topk_us t, lookup_cols = topk_group_by t, lookup_key = k\<rparr>]
      else topk_lookups st)"
    define st' where "st' = st\<lparr>topk_group_key := key, topk_lookups := ls, topk_missed := False,
      topk_original_len := length rows, topk_group := ?cs\<rparr>"
    have eq: "start_group t db ctx key st = Inr st'"
      using pk(1) LookupSome k hp st(1) by (auto simp: start_group_def Let_def st'_def ls_def)
    have wg: "well_grouped t st'" using in_rows key(2) by (auto simp: well_grouped_def st'_def)
    have "phase t g S P P' d (r # e) st'"
    proof (cases "key = g")
      case True
      then have empty: "group_records t g d = []" "group_records t g (topk_out st) = []"
        using st(2) key(1) by (auto simp: idle_def)
      have top: "top_k (order_ord (topk_order t)) (topk_k t) (grp t g P) (grp t g S)" "0 < topk_k t"
        using b by (simp_all add: topk_batch_def)
      have "grp t g S = grp t g P" if "size (grp t g S) < topk_k t"
        using top_k_small [OF top(1) that] .
      moreover have "?cs \<noteq> []" if "\<not> size (grp t g S) < topk_k t"
        using that top(2) rows True by (metis gr0I leI list.map_disc_iff mset_zero_iff size_empty less_le_trans)
      moreover have "length rows = size (grp t g S)" using rows True by (metis size_mset)
      ultimately have "tracks t g (grp t g S) (grp t g P) (group_records t g d) st'"
        using top(1) of_cs True empty unfolding top_k_iff tracks_def st'_def by auto
      with True show ?thesis by (simp add: phase_def st'_def)
    next
      case False
      with st(2) show ?thesis by (auto simp: phase_def idle_def st'_def)
    qed
    with eq wg show ?thesis by (auto simp: st'_def)
  qed
qed

lemma record_phase:
  assumes env: "topk_env states heap unstable t pst P'" and b: "topk_batch t db ctx g S P P' (d @ r # e)"
    and wg: "well_grouped t st" and key: "in_group t (topk_group_key st) (rec r)" "topk_group_key st \<noteq> []"
    and ph: "phase t g S P P' d (r # e) st"
  shows "\<exists>st'. (if topk_missed st
      then try_bind (miss_build (topk_us t) (topk_group_by t) (LookupRecordColumns (topk_group_by t)) ctx None (rec r))
             (\<lambda>m. Inr (st\<lparr>topk_misses := topk_misses st @ [m]\<rparr>))
      else topk_record heap t r st) = Inr st' \<and>
    well_grouped t st' \<and> topk_group_key st' = topk_group_key st \<and> phase t g S P P' (d @ [r]) e st'"
proof -
  have fit: "fits t (rec r)" "replay_fits ctx (rec r)" using b by (auto simp: topk_batch_def)
  have perm: "\<forall>cs. mset (heap cs) = mset cs" using env by (simp add: topk_env_def)
  show ?thesis
  proof (cases "topk_missed st")
    case True
    then have other: "topk_group_key st \<noteq> g" using ph by (auto simp: phase_def)
    then have "\<not> in_group t g (rec r)" using key(1) by (simp add: in_group_unique)
    moreover obtain m where
      "miss_build (topk_us t) (topk_group_by t) (LookupRecordColumns (topk_group_by t)) ctx None (rec r) = Inr m"
      using miss_build_fits [OF fit(2)] by blast
    ultimately show ?thesis
      using True ph other wg by (simp add: phase_def well_grouped_def)
  next
    case False
    have w: "wide (topk_order t) (rec r)" using fit by (simp add: fits_def)
    from topk_record_keeps [OF wg perm key(1) w key(2)] obtain st' where st':
      "topk_record heap t r st = Inr st'" "well_grouped t st'" "topk_group_key st' = topk_group_key st"
      "topk_missed st' = topk_missed st"
      "\<forall>g. g \<noteq> topk_group_key st \<longrightarrow> group_records t g (topk_out st') = group_records t g (topk_out st)" by blast
    have "phase t g S P P' (d @ [r]) e st'"
    proof (cases "topk_group_key st = g")
      case True
      then have tr: "tracks t g (grp t g S) (grp t g P) (group_records t g d) st" using ph by (simp add: phase_def)
      have "\<exists>st'. topk_record heap t r st = Inr st' \<and>
          tracks t g (grp t g S) (grp t g P) (group_records t g d @ [r]) st'"
        using wg key(1) True batch_positive [OF b] batch_negative [OF b]
        by (intro topk_record_tracks [OF tr perm _ _ w]) (auto simp: well_grouped_def)
      with st' True False key(1) show ?thesis by (auto simp: phase_def)
    next
      case other: False
      then have "\<not> in_group t g (rec r)" using key(1) by (simp add: in_group_unique)
      with ph st' other show ?thesis by (auto simp: phase_def finished_def split: if_splits)
    qed
    with False st' show ?thesis by simp
  qed
qed

definition at_key :: "topk \<Rightarrow> 'v records \<Rightarrow> 'v topk_state \<Rightarrow> bool" where
  "at_key t d st \<longleftrightarrow> topk_group_key st = (if d = [] then [] else group_or_empty t (rec (last d)))"

lemma in_group_or_empty: "in_group t g row \<Longrightarrow> group_or_empty t row = g"
  by (simp add: in_group_def group_or_empty_def project_group_def)

lemma group_left:
  assumes b: "topk_batch t db ctx g S P P' (d @ r # e)" and "at_key t d st" "topk_group_key st = g"
    and r: "\<not> in_group t g (rec r)"
  shows "group_records t g (r # e) = []"
proof -
  have "g \<noteq> []" using b by (simp add: topk_batch_def)
  with assms(2,3) have d: "d \<noteq> []" "group_or_empty t (rec (last d)) = g" by (auto simp: at_key_def split: if_splits)
  have le: "group_or_empty t (rec (last d)) \<le> group_or_empty t (rec r)"
      "\<forall>x\<in>set e. group_or_empty t (rec r) \<le> group_or_empty t (rec x)"
    using b d(1) by (auto simp: topk_batch_def sorted_wrt_append)
  obtain h where h: "group_or_empty t (rec r) = h" "in_group t h (rec r)"
    using b fits_project [of t "rec r"] by (auto simp: topk_batch_def)
  with r d(2) le(1) have "g < h" by (auto simp: less_le)
  with h(1) le(2) r show ?thesis
    by (auto simp: group_records_def filter_empty_conv dest!: in_group_or_empty)
qed

lemma step_phase:
  assumes env: "topk_env states heap unstable t pst P'" and b: "topk_batch t db ctx g S P P' (d @ r # e)"
    and wg: "well_grouped t st" and ph: "phase t g S P P' d (r # e) st" and key: "at_key t d st"
  shows "\<exists>st'. topk_step states through heap unstable t db ctx r st = Inr st' \<and>
    well_grouped t st' \<and> phase t g S P P' (d @ [r]) e st' \<and> at_key t (d @ [r]) st'"
proof -
  have "fits t (rec r)" using b by (simp add: topk_batch_def)
  from fits_project [OF this] obtain k where
    k: "project_group t (rec r) = Inr k" "in_group t k (rec r)" "group_or_empty t (rec r) = k" by blast
  have "length k = length (topk_group_by t)" using k(2) by (auto simp: in_group_def cloned_indices_Inr)
  then have kne: "k \<noteq> []" using env by (auto simp: topk_env_def)
  have "\<exists>st2. (if rs_cmp (topk_group_key st) k \<noteq> Equal
       then try_bind (tidy_group states through heap unstable t ctx st)
              (\<lambda>st. if topk_group st \<noteq> [] then Inl Internal else start_group t db ctx k st)
       else Inr st) = Inr st2 \<and>
      well_grouped t st2 \<and> topk_group_key st2 = k \<and> phase t g S P P' d (r # e) st2"
  proof (cases "topk_group_key st = k")
    case True
    with wg ph show ?thesis by simp
  next
    case False
    have "\<exists>st'. tidy_group states through heap unstable t ctx st = Inr st' \<and> topk_group st' = [] \<and>
        idle t g S P' d (r # e) (topk_out st')"
      using group_left [OF b key] k(2) False
      by (intro tidy_phase [OF env b wg ph]) (auto simp: in_group_unique)
    then obtain st1 where st1: "tidy_group states through heap unstable t ctx st = Inr st1" "topk_group st1 = []"
      "idle t g S P' d (r # e) (topk_out st1)" by blast
    from start_phase [OF b k(2) kne st1(2,3)] st1(1,2) False show ?thesis by simp
  qed
  then obtain st2 where st2: "(if rs_cmp (topk_group_key st) k \<noteq> Equal
       then try_bind (tidy_group states through heap unstable t ctx st)
              (\<lambda>st. if topk_group st \<noteq> [] then Inl Internal else start_group t db ctx k st)
       else Inr st) = Inr st2"
    "well_grouped t st2" "topk_group_key st2 = k" "phase t g S P P' d (r # e) st2" by blast
  have r2: "in_group t (topk_group_key st2) (rec r)" "topk_group_key st2 \<noteq> []" using st2(3) k(2) kne by simp_all
  from record_phase [OF env b st2(2) r2 st2(4)] obtain st' where st':
    "(if topk_missed st2
      then try_bind (miss_build (topk_us t) (topk_group_by t) (LookupRecordColumns (topk_group_by t)) ctx None (rec r))
             (\<lambda>m. Inr (st2\<lparr>topk_misses := topk_misses st2 @ [m]\<rparr>))
      else topk_record heap t r st2) = Inr st'"
    "well_grouped t st'" "topk_group_key st' = topk_group_key st2" "phase t g S P P' (d @ [r]) e st'" by blast
  have "topk_step states through heap unstable t db ctx r st = Inr st'"
    unfolding topk_step_def k(1) try_bind.simps st2(1) st'(1) ..
  with st' st2(3) k(3) show ?thesis by (auto simp: at_key_def)
qed

lemma loop_phase:
  assumes env: "topk_env states heap unstable t pst P'"
  shows "\<lbrakk>topk_batch t db ctx g S P P' (d @ e); well_grouped t st; phase t g S P P' d e st; at_key t d st\<rbrakk> \<Longrightarrow>
    \<exists>st'. topk_loop states through heap unstable t db ctx e st = Inr st' \<and>
      well_grouped t st' \<and> phase t g S P P' (d @ e) [] st'"
proof (induction e arbitrary: d st)
  case Nil
  then show ?case by simp
next
  case (Cons r e)
  from step_phase [OF env Cons.prems] obtain st1 where st1:
    "topk_step states through heap unstable t db ctx r st = Inr st1" "well_grouped t st1"
    "phase t g S P P' (d @ [r]) e st1" "at_key t (d @ [r]) st1" by blast
  from Cons.IH [OF _ st1(2-4)] Cons.prems(1) st1(1) show ?case by simp
qed

lemma grp_records: "grp t g (positives rs) = positives (group_records t g rs)"
    "grp t g (negatives rs) = negatives (group_records t g rs)"
proof -
  have "grp t g (positives rs) = positives (group_records t g rs) \<and> grp t g (negatives rs) = negatives (group_records t g rs)"
  proof (induction rs)
    case (Cons r rs)
    then show ?case by (cases r) (auto simp: grp_def)
  qed (simp add: grp_def)
  then show "grp t g (positives rs) = positives (group_records t g rs)"
    "grp t g (negatives rs) = negatives (group_records t g rs)" by auto
qed

lemma grp_apply_records:
  "grp t g (apply_records M rs) = grp t g M + positives (group_records t g rs) - negatives (group_records t g rs)"
  by (simp add: apply_records_def grp_def flip: grp_records)

subsection \<open>Results\<close>

lemma apply_group:
  assumes "finished t g (grp t g S) R res"
  shows "top_k (order_ord (topk_order t)) (topk_k t) R (grp t g (apply_records S res))"
proof -
  have "negatives (group_records t g res) \<subseteq># grp t g S" using assms by (simp add: finished_def)
  then have eq: "grp t g S + positives (group_records t g res) - negatives (group_records t g res) =
      grp t g S - negatives (group_records t g res) + positives (group_records t g res)"
    by (metis add.commute multiset_diff_union_assoc)
  show ?thesis unfolding grp_apply_records eq using assms unfolding finished_def by (elim conjE)
qed

text \<open>
  C4. The top-k operator maintains a group: when its own state holds the top \<open>k\<close> rows of a group
  before a batch, the batch inserts the rows of the group before it deletes any, and no two different rows of the
  group compare equal, then processing the batch succeeds, and the records it emits turn its state into the top
  \<open>k\<close> rows of the group after the batch.
\<close>

theorem topk_maintains_group:
  fixes g :: "'v::linorder list"
  assumes t: "0 < topk_k t" "topk_group_by t \<noteq> []"
    and layouts: "\<forall>cs. mset (heap cs) = mset cs" "\<forall>rows. mset (unstable rows) = mset rows"
    and own: "states (topk_us t) = Some db" "answers db (topk_group_by t) S" "hit t db g"
    and parent: "states (topk_src t) = Some pst" "answers pst (topk_group_by t) (apply_records P rs)"
      "\<forall>pk. state_lookup pst (topk_group_by t) pk \<noteq> LookupMissing"
    and batch: "negatives rs \<subseteq># P + positives rs" "positives_first t rs"
    and fit: "\<forall>row\<in>#S + P + positives rs. fits t row" "\<forall>r\<in>set rs. replay_fits ctx (rec r)"
    and ties: "\<forall>x\<in>#grp t g (apply_records P rs). \<forall>y\<in>#grp t g (apply_records P rs).
      order_ord (topk_order t) x y = Equal \<longrightarrow> x = y"
    and top: "top_k (order_ord (topk_order t)) (topk_k t) (grp t g P) (grp t g S)"
  shows "\<exists>res. topk_on_input states through heap unstable t ctx rs = Inr res \<and>
    top_k (order_ord (topk_order t)) (topk_k t) (grp t g (apply_records P rs)) (grp t g (apply_records S (results res)))"
proof (cases "rs = []")
  case True
  with top show ?thesis by (simp add: topk_on_input_def apply_records_def)
next
  case False
  let ?L = "sort_by (\<lambda>a b. rs_cmp (group_or_empty t (rec a)) (group_or_empty t (rec b))) rs"
  let ?P' = "apply_records P rs"
  let ?st0 = "\<lparr>topk_out = [], topk_group_key = [], topk_original_len = 0, topk_missed = False, topk_group = [],
    topk_misses = [], topk_lookups = []\<rparr>"
  have g: "g \<noteq> []" using own(3) by (auto simp: hit_def point_key_from_def)
  have "row \<in># P + positives rs" if "row \<in># apply_records P rs \<or> row \<in># negatives rs" for row
    using that batch(1) by (auto simp: apply_records_def dest: in_diffD mset_subset_eqD)
  then have fit_all: "\<forall>row\<in>#?P'. wide (topk_order t) row" "\<forall>row\<in>#negatives rs. fits t row"
    using fit(1) by (auto simp: fits_def)
  have fit_rs: "\<forall>r\<in>set rs. fits t (rec r)"
  proof
    fix r
    assume "r \<in> set rs"
    then have "rec r \<in># positives rs \<or> rec r \<in># negatives rs"
      by (cases r) (force simp: positives_def negatives_def)+
    then show "fits t (rec r)" using fit(1) fit_all(2) by auto
  qed
  have env: "topk_env states heap unstable t pst ?P'"
    using t layouts parent fit_all(1) by (simp add: topk_env_def)
  have stable: "group_records t g ?L = group_records t g rs"
    unfolding group_records_def by (rule key_cmp.sort_by_stable) (simp add: in_group_or_empty)
  have pf: "sorted_wrt (\<lambda>a b. is_positive b \<longrightarrow> is_positive a) (group_records t g rs)"
    using batch(2) unfolding positives_first_def group_records_def
    by (intro sorted_wrt_mono_rel [OF _ sorted_wrt_filter]) (auto simp: in_group_or_empty)
  have neg: "negatives (group_records t g rs) \<subseteq># grp t g P + positives (group_records t g rs)"
    using multiset_filter_mono [OF batch(1), of "in_group t g"] by (simp add: grp_def flip: grp_records)
  have asc: "sorted_wrt (\<lambda>a b. group_or_empty t (rec a) \<le> group_or_empty t (rec b)) ?L"
    using key_cmp.sort_by_ascending [of "\<lambda>r. group_or_empty t (rec r)" rs]
    by (auto simp: ascending_def not_less elim: sorted_wrt_mono_rel [rotated])
  have b: "topk_batch t db ctx g S P ?P' ([] @ ?L)"
    using t(1) g own top stable pf neg ties fit fit_rs asc
    by (auto simp: topk_batch_def grp_apply_records fits_def)
  have "\<exists>st. topk_loop states through heap unstable t db ctx ?L ?st0 = Inr st \<and>
      well_grouped t st \<and> phase t g S P ?P' ([] @ ?L) [] st"
    using g by (intro loop_phase [OF env b]) (auto simp: well_grouped_def phase_def at_key_def)
  then obtain st where st: "topk_loop states through heap unstable t db ctx ?L ?st0 = Inr st"
    "well_grouped t st" "phase t g S P ?P' ?L [] st" by auto
  have "\<exists>st'. tidy_group states through heap unstable t ctx st = Inr st' \<and> topk_group st' = [] \<and>
      idle t g S ?P' ?L [] (topk_out st')"
    using b by (intro tidy_phase [OF env _ st(2,3)]) simp_all
  then obtain st' where st': "tidy_group states through heap unstable t ctx st = Inr st'"
    "idle t g S ?P' ?L [] (topk_out st')" by blast
  have "finished t g (grp t g S) (grp t g ?P') (topk_out st')"
  proof (cases "group_records t g rs = [] \<and> group_records t g (topk_out st') = []")
    case True
    then have "grp t g ?P' = grp t g P" by (simp add: grp_apply_records)
    with True top show ?thesis by (simp add: finished_def)
  next
    case False
    with st'(2) stable show ?thesis by (auto simp: idle_def)
  qed
  from apply_group [OF this] False own(1) st(1) st'(1) show ?thesis
    by (simp add: topk_on_input_def Let_def)
qed

definition example_topk :: "nat \<Rightarrow> topk" where
  "example_topk k = \<lparr>topk_src = 0, topk_us = 1, topk_group_by = [0], topk_order = [(1, OrderAscending)], topk_k = k\<rparr>"

theorem topk_maintains_group_witness:
  "\<exists>res. topk_on_input (node_states [[1, 10], [1, 9]] [[1, 9], [1, 5], [1, 7::nat]]) no_query_through id id
      (example_topk 2) ReplayNone [Positive [1, 7], Negative [1, 10]] = Inr res \<and>
    top_k (order_ord [(1, OrderAscending)]) 2
      (grp (example_topk 2) [1] (apply_records {#[1, 10], [1, 9], [1, 5]#} [Positive [1, 7], Negative [1, 10]]))
      (grp (example_topk 2) [1] (apply_records {#[1, 10], [1, 9]#} (results res)))"
proof -
  let ?t = "example_topk 2" and ?own = "[[1, 10], [1, 9::nat]]" and ?par = "[[1, 9], [1, 5], [1, 7::nat]]"
  let ?rs = "[Positive [1, 7], Negative [1, 10::nat]]" and ?P = "{#[1, 10], [1, 9], [1, 5::nat]#}"
  have P': "apply_records ?P ?rs = mset ?par" by (simp add: apply_records_def)
  have gr: "grp ?t [1] (mset ?par) = mset ?par" "grp ?t [1] ?P = ?P" "grp ?t [1] (mset ?own) = mset ?own"
    by (simp_all add: grp_def in_group_def cloned_indices_def example_topk_def)
  have "\<exists>res. topk_on_input (node_states ?own ?par) no_query_through id id ?t ReplayNone ?rs = Inr res \<and>
      top_k (order_ord (topk_order ?t)) (topk_k ?t) (grp ?t [1] (apply_records ?P ?rs))
        (grp ?t [1] (apply_records (mset ?own) (results res)))"
  proof (rule topk_maintains_group [where db = "view_of ?own" and pst = "view_of ?par"])
    show "answers (view_of ?par) (topk_group_by ?t) (apply_records ?P ?rs)"
      unfolding P' by (rule answers_view_of)
    show "answers (view_of ?own) (topk_group_by ?t) (mset ?own)" by (rule answers_view_of)
    show "hit ?t (view_of ?own) [1]" by (simp add: hit_def point_key_from_def view_of_def)
    show "positives_first ?t ?rs" by (simp add: positives_first_def)
    show "\<forall>row\<in>#mset ?own + ?P + positives ?rs. fits ?t row" by (simp add: fits_def wide_def example_topk_def)
    show "\<forall>x\<in>#grp ?t [1] (apply_records ?P ?rs). \<forall>y\<in>#grp ?t [1] (apply_records ?P ?rs).
        order_ord (topk_order ?t) x y = Equal \<longrightarrow> x = y"
      unfolding P' gr by (simp add: example_topk_def get_element_def rs_cmp_def)
    show "top_k (order_ord (topk_order ?t)) (topk_k ?t) (grp ?t [1] ?P) (grp ?t [1] (mset ?own))"
      unfolding gr by (simp add: top_k_def example_topk_def get_element_def rs_cmp_def)
  qed (simp_all add: example_topk_def node_states_def view_of_def replay_fits_def)
  then show ?thesis by (simp add: example_topk_def)
qed


end
