(* ===== verification/FilterProject.thy ===== *)
theory FilterProject
  imports SortBy StateViews
begin

section \<open>Row-by-row operators: filter, project and identity\<close>

text \<open>
  \<open>src/readyset-dataflow/src/ops/filter.rs\<close>, \<open>project.rs\<close> and \<open>identity.rs\<close>. The evaluation of a
  dataflow expression on a row and the truth of a value are parameters: \<open>eval\<close> and \<open>is_truthy\<close>. Both
  operators also answer lookups through themselves, with the rows that their ancestor returns.
\<close>

subsection \<open>Filter\<close>

type_synonym ('v) evaluator = "'v row \<Rightarrow> df_error + 'v"

fun filter_on_input ::
    "'v evaluator \<Rightarrow> ('v \<Rightarrow> bool) \<Rightarrow> 'v records \<Rightarrow> df_error + 'v records" where
  "filter_on_input eval is_truthy [] = Inr []"
| "filter_on_input eval is_truthy (r # rs) =
     try_bind (eval (rec r))
       (\<lambda>v. try_bind (filter_on_input eval is_truthy rs)
          (\<lambda>out. Inr (if is_truthy v then r # out else out)))"

definition filter_row ::
    "'v evaluator \<Rightarrow> ('v \<Rightarrow> bool) \<Rightarrow> df_error + 'v row \<Rightarrow> (df_error + 'v row) option" where
  "filter_row eval is_truthy r =
     (case r of
        Inr row \<Rightarrow>
          (case eval row of
             Inr v \<Rightarrow> if is_truthy v then Some (Inr row) else None
           | Inl e \<Rightarrow> Some (Inl e))
      | Inl e \<Rightarrow> Some (Inl e))"

definition filter_query_through ::
    "'v evaluator \<Rightarrow> ('v \<Rightarrow> bool) \<Rightarrow> (nat \<Rightarrow> 'v state_view option) \<Rightarrow> 'v query_through \<Rightarrow> nat \<Rightarrow>
     nat list \<Rightarrow> 'v point_key \<Rightarrow> lookup_mode \<Rightarrow> df_error + 'v ingredient_lookup_result" where
  "filter_query_through eval is_truthy states through src columns key mode =
     try_bind (ingredient_lookup states through src columns key mode)
       (\<lambda>res. case res of
          LookupRecords rs \<Rightarrow> Inr (LookupRecords (List.map_filter (filter_row eval is_truthy) rs))
        | LookupMiss \<Rightarrow> Inr LookupMiss)"

definition filter_column_source :: "nat \<Rightarrow> nat list \<Rightarrow> df_error + column_source" where
  "filter_column_source src cols = exact_copy src cols"

subsection \<open>Project\<close>

record 'v project =
  project_emit :: "nat list option"
  project_additional :: "'v list option"
  project_expressions :: "'v evaluator list option"
  project_src :: nat
  project_cols :: nat

definition project_new ::
    "nat \<Rightarrow> nat list \<Rightarrow> 'v list option \<Rightarrow> 'v evaluator list option \<Rightarrow> 'v project" where
  "project_new src emit additional expressions =
     \<lparr>project_emit = Some emit, project_additional = additional, project_expressions = expressions,
      project_src = src, project_cols = 0\<rparr>"

definition project_on_connected :: "nat \<Rightarrow> 'v project \<Rightarrow> 'v project" where
  "project_on_connected parent_columns p = p\<lparr>project_cols := parent_columns\<rparr>"

definition project_on_commit :: "'v project \<Rightarrow> 'v project" where
  "project_on_commit p =
     p\<lparr>project_emit :=
         (case project_emit p of
            None \<Rightarrow> None
          | Some emit \<Rightarrow>
              let complete = (length emit = project_cols p \<and> project_additional p = None \<and> project_expressions p = None);
                  sequential = list_all (\<lambda>(i, j). i = j) (List.enumerate 0 emit)
              in if complete \<and> sequential then None else Some emit)\<rparr>"

definition can_query_through :: "'v project \<Rightarrow> bool" where
  "can_query_through p = (project_expressions p = None \<and> project_additional p = None)"

definition project_cells :: "'v row \<Rightarrow> nat list \<Rightarrow> df_error + 'v list" where
  "project_cells row emit = try_map (\<lambda>i. if i < length row then Inr (row ! i) else Inl Panic) emit"

text \<open>An expression that fails is logged and gives the null value \<open>null\<close>.\<close>

definition project_row :: "'v \<Rightarrow> 'v project \<Rightarrow> nat list \<Rightarrow> 'v row \<Rightarrow> df_error + 'v row" where
  "project_row null p emit row =
     try_bind (project_cells row emit)
       (\<lambda>cells. Inr (cells @
          (case project_expressions p of
             Some e \<Rightarrow> map (\<lambda>expr. case expr row of Inr val \<Rightarrow> val | Inl _ \<Rightarrow> null) e
           | None \<Rightarrow> []) @
          (case project_additional p of Some a \<Rightarrow> a | None \<Rightarrow> [])))"

definition project_on_input :: "'v \<Rightarrow> 'v project \<Rightarrow> 'v records \<Rightarrow> df_error + 'v records" where
  "project_on_input null p rs =
     (case project_emit p of
        None \<Rightarrow> Inr rs
      | Some emit \<Rightarrow>
          try_map (\<lambda>r. try_bind (project_row null p emit (rec r)) (\<lambda>row. Inr (map_row (\<lambda>_. row) r))) rs)"

text \<open>The row that a lookup through the operator returns.\<close>

definition project_through_row :: "'v project \<Rightarrow> nat list \<Rightarrow> df_error + 'v row \<Rightarrow> df_error + 'v row" where
  "project_through_row p emit r =
     try_bind r
       (\<lambda>row. try_bind
          (case project_expressions p of Some e \<Rightarrow> try_map (\<lambda>expr. expr row) e | None \<Rightarrow> Inr [])
          (\<lambda>expr. Inr (map snd (filter (\<lambda>(i, _). i \<in> set emit) (List.enumerate 0 row)) @ expr @
             (case project_additional p of Some a \<Rightarrow> a | None \<Rightarrow> []))))"

definition project_query_through ::
    "'v project \<Rightarrow> (nat \<Rightarrow> 'v state_view option) \<Rightarrow> 'v query_through \<Rightarrow>
     nat list \<Rightarrow> 'v point_key \<Rightarrow> lookup_mode \<Rightarrow> df_error + 'v ingredient_lookup_result" where
  "project_query_through p states through columns key mode =
     (case project_emit p of
        None \<Rightarrow> ingredient_lookup states through (project_src p) columns key mode
      | Some emit \<Rightarrow>
          (case try_map (\<lambda>outi. if outi \<ge> length emit then Inl Internal else Inr (emit ! outi)) columns of
             Inl e \<Rightarrow> Inr (LookupRecords [Inl e])
           | Inr in_cols \<Rightarrow>
               try_bind (ingredient_lookup states through (project_src p) in_cols key mode)
                 (\<lambda>res. Inr (lookup_map (project_through_row p emit) res))))"

definition project_column_source :: "'v project \<Rightarrow> nat list \<Rightarrow> df_error + column_source" where
  "project_column_source p cols =
     (let mapped_cols =
        List.map_filter
          (\<lambda>x. case project_emit p of
             Some emit \<Rightarrow> if x \<ge> length emit then None else Some (emit ! x)
           | None \<Rightarrow> Some x) cols
      in if length mapped_cols \<noteq> length cols then Inr (RequiresFullReplay [project_src p])
         else exact_copy (project_src p) mapped_cols)"

subsection \<open>Identity\<close>

definition identity_on_input :: "'v records \<Rightarrow> df_error + 'v processing_result" where
  "identity_on_input rs = Inr \<lparr>results = rs, misses = [], lookups = []\<rparr>"

definition identity_column_source :: "nat \<Rightarrow> nat list \<Rightarrow> df_error + column_source" where
  "identity_column_source src cols = exact_copy src cols"

subsection \<open>Facts\<close>

definition truthy_row :: "'v evaluator \<Rightarrow> ('v \<Rightarrow> bool) \<Rightarrow> 'v row \<Rightarrow> bool" where
  "truthy_row eval is_truthy row = (case eval row of Inr v \<Rightarrow> is_truthy v | Inl _ \<Rightarrow> False)"

lemma filter_on_input_iff:
  "filter_on_input eval is_truthy rs = Inr out \<longleftrightarrow>
   (\<forall>r\<in>set rs. \<exists>v. eval (rec r) = Inr v) \<and> out = filter (\<lambda>r. truthy_row eval is_truthy (rec r)) rs"
  by (induction rs arbitrary: out) (auto simp: result_simps truthy_row_def)

lemma filter_on_input_Inl:
  "filter_on_input eval is_truthy rs = Inl e \<Longrightarrow> \<exists>r\<in>set rs. eval (rec r) = Inl e"
  by (induction rs) (auto simp: result_simps)

lemma filter_rows_through:
  "\<forall>row\<in>set rows. \<exists>v. eval row = Inr v \<Longrightarrow>
   List.map_filter (filter_row eval is_truthy) (map Inr rows) = map Inr (filter (truthy_row eval is_truthy) rows)"
  by (induction rows) (auto simp: map_filter_simps filter_row_def truthy_row_def)


lemma project_cells_in_bounds:
  "\<forall>i\<in>set emit. i < length row \<Longrightarrow> project_cells row emit = Inr (map ((!) row) emit)"
  unfolding project_cells_def by (rule try_map_all_Inr) simp

lemma through_cells:
  "map snd (filter (\<lambda>(i, _). i \<in> A) (List.enumerate n row)) =
   map (\<lambda>i. row ! (i - n)) (filter (\<lambda>i. i \<in> A) [n..<n + length row])"
proof (induction row arbitrary: n)
  case Nil
  then show ?case by simp
next
  case (Cons v row)
  have "map (\<lambda>i. row ! (i - Suc n)) (filter (\<lambda>i. i \<in> A) [Suc n..<Suc n + length row]) =
      map (\<lambda>i. (v # row) ! (i - n)) (filter (\<lambda>i. i \<in> A) [Suc n..<Suc n + length row])"
    by (auto simp: nth_Cons')
  moreover have "[n..<n + length (v # row)] = n # [Suc n..<Suc n + length row]"
    by (simp add: upt_conv_Cons del: upt_Suc)
  ultimately show ?case using Cons [of "Suc n"] by (simp del: upt_Suc)
qed

lemma ascending_filter_eq:
  assumes "\<forall>i\<in>set emit. i < n"
  shows "sorted_wrt (<) emit \<longleftrightarrow> filter (\<lambda>i. i \<in> set emit) [0..<n] = emit"
proof
  assume s: "sorted_wrt (<) emit"
  have "sorted_wrt (<) (filter (\<lambda>i. i \<in> set emit) [0..<n])" by (rule sorted_wrt_filter) simp
  moreover have "set (filter (\<lambda>i. i \<in> set emit) [0..<n]) = set emit" using assms by auto
  ultimately show "filter (\<lambda>i. i \<in> set emit) [0..<n] = emit"
    using s by (simp add: sorted_distinct_set_unique strict_sorted_iff)
next
  assume "filter (\<lambda>i. i \<in> set emit) [0..<n] = emit"
  moreover have "sorted_wrt (<) (filter (\<lambda>i. i \<in> set emit) [0..<n])" by (rule sorted_wrt_filter) simp
  ultimately show "sorted_wrt (<) emit" by simp
qed



text \<open>
  The projection that \<open>on_commit\<close> drops is the identity: on rows with as many columns as the parent,
  the operator emits the same records before and after the commit.
\<close>

theorem project_commit_equivalent:
  assumes "list_all (\<lambda>r. length (rec r) = project_cols p) rs"
  shows "project_on_input null (project_on_commit p) rs = project_on_input null p rs"
proof (cases "\<exists>emit. project_emit p = Some emit \<and> length emit = project_cols p \<and> project_additional p = None \<and>
    project_expressions p = None \<and> list_all (\<lambda>(i, j). i = j) (List.enumerate 0 emit)")
  case True
  then obtain emit where emit: "project_emit p = Some emit" "length emit = project_cols p"
    "project_additional p = None" "project_expressions p = None"
    "list_all (\<lambda>(i, j). i = j) (List.enumerate 0 emit)" by blast
  have seq: "emit = [0..<project_cols p]"
    using emit(2,5) by (auto simp: list_all_iff in_set_enumerate_eq list_eq_iff_nth_eq)
  have "try_bind (project_row null p emit (rec r)) (\<lambda>row. Inr (map_row (\<lambda>_. row) r)) = Inr r" if "r \<in> set rs" for r
  proof -
    have "length (rec r) = project_cols p" using assms that by (simp add: list_all_iff)
    then have "project_cells (rec r) emit = Inr (rec r)"
      by (simp add: seq project_cells_in_bounds) (metis map_nth)
    with emit(3,4) show ?thesis by (cases r) (simp_all add: project_row_def map_row_def)
  qed
  then have "project_on_input null p rs = Inr (map (\<lambda>r. r) rs)"
    unfolding project_on_input_def emit(1) option.case by (rule try_map_all_Inr)
  moreover have "project_emit (project_on_commit p) = None"
    using emit by (simp add: project_on_commit_def)
  ultimately show ?thesis by (simp add: project_on_input_def)
next
  case False
  then have "project_on_commit p = p"
    by (cases "project_emit p") (auto simp: project_on_commit_def Let_def)
  then show ?thesis by simp
qed

theorem project_commit_equivalent_witness:
  "project_on_input 0 (project_on_commit (project_on_connected 2 (project_new 0 [0, 1] None None))) [Positive [7, 8::nat]] =
   project_on_input 0 (project_on_connected 2 (project_new 0 [0, 1] None None)) [Positive [7, 8]]"
  by (rule project_commit_equivalent) (simp add: project_on_connected_def project_new_def)

end
