(* ===== verification/Union.thy ===== *)
theory Union
  imports SortBy HashMap
begin

section \<open>The union operator\<close>

text \<open>
  \<open>src/readyset-dataflow/src/ops/union.rs\<close> and \<open>Side\<close> of \<open>ops/mod.rs\<close>: regular records, the duplicate
  removal of a bag union, the state machine for full replays and the buffering of partial replays.

  The hash of a row is the parameter \<open>hash\<close>. Parents are local node indices (for a shard merger, shard
  indices). A \<open>HashMap\<close> or \<open>HashSet\<close> is a list in some order; the buffered upquery responses, a \<open>BTreeMap\<close>
  in the code, are an association list searched with the equality of its keys.
\<close>

datatype side = SideLeft | SideRight

fun other_side :: "side \<Rightarrow> side" where
  "other_side SideLeft = SideRight"
| "other_side SideRight = SideLeft"

subsection \<open>Duplicates in a bag union\<close>

type_synonym bag_union_state = "(nat \<times> side \<times> nat) list"

definition bag_process ::
    "('v row \<Rightarrow> nat) \<Rightarrow> side \<Rightarrow> 'v df_record \<Rightarrow> bag_union_state \<Rightarrow> bag_union_state \<times> bool" where
  "bag_process hash from_side r state =
     (let row_hash = hash (rec r) in
      case hm_get state row_hash of
        Some (row_side, n) \<Rightarrow>
          let (n', res) =
            (if row_side = from_side
             then (if is_positive r then n + 1 else n - 1, True)
             else (if is_positive r then n - 1 else n + 1, False))
          in (if n' = 0 then hm_remove row_hash state else hm_insert row_hash (row_side, n') state, res)
      | None \<Rightarrow>
          if is_positive r then (hm_insert row_hash (from_side, 1) state, True)
          else (hm_insert row_hash (other_side from_side, 1) state, False))"

text \<open>\<open>results.retain(|rec| bus.process(parent, rec))\<close>\<close>

fun bag_retain ::
    "('v row \<Rightarrow> nat) \<Rightarrow> side \<Rightarrow> 'v records \<Rightarrow> bag_union_state \<Rightarrow> bag_union_state \<times> 'v records" where
  "bag_retain hash from_side [] state = (state, [])"
| "bag_retain hash from_side (r # rs) state =
     (case bag_process hash from_side r state of
        (state, keep) \<Rightarrow>
          (case bag_retain hash from_side rs state of
             (state, rs) \<Rightarrow> (state, if keep then r # rs else rs)))"

subsection \<open>State of the operator\<close>

datatype emit =
    AllFrom nat
  | EmitProject "(nat \<times> nat list) list" "(nat \<times> nat list) list" "(nat \<times> nat) list" "(nat \<times> nat) list"

datatype 'v full_wait =
    FullWaitNone
  | Ongoing "nat list" nat "'v records"

record 'v buffered_replay_key =
  brk_tag :: nat
  brk_key :: "'v key_comparison"
  brk_shard :: nat
  brk_replica :: nat

record 'v replay_pieces =
  buffered :: "(nat \<times> 'v records) list"
  evict :: bool

record 'v union =
  union_emit :: emit
  bag_state :: "bag_union_state option"
  replay_key :: "((nat \<times> nat) \<times> nat list) list"
  pieces :: "('v buffered_replay_key \<times> 'v replay_pieces) list"
  required :: nat
  full_wait_state :: "'v full_wait"

datatype duplicate_mode = BagUnion | UnionAll

fun ordered_columns :: "nat \<Rightarrow> nat list \<Rightarrow> bool" where
  "ordered_columns prev [] = True"
| "ordered_columns prev (i # is) = (prev \<le> i \<and> ordered_columns i is)"

text \<open>The parents of a union are given with their columns; an empty column list panics.\<close>

definition union_new :: "(nat \<times> nat list) list \<Rightarrow> duplicate_mode \<Rightarrow> df_error + 'v union" where
  "union_new emit mode =
     (if emit = [] then Inl Internal
      else
        try_bind
          (try_map (\<lambda>(_, cols). case cols of
               [] \<Rightarrow> Inl Panic
             | c # _ \<Rightarrow> if ordered_columns c cols then Inr () else Inl Internal) emit)
          (\<lambda>_. Inr \<lparr>union_emit = EmitProject emit [] [] [],
                    bag_state = (case mode of BagUnion \<Rightarrow> Some [] | UnionAll \<Rightarrow> None),
                    replay_key = [], pieces = [], required = length emit, full_wait_state = FullWaitNone\<rparr>))"

definition union_new_deshard :: "nat \<Rightarrow> nat \<Rightarrow> 'v union" where
  "union_new_deshard parent shards =
     \<lparr>union_emit = AllFrom parent, bag_state = None, replay_key = [], pieces = [], required = shards,
      full_wait_state = FullWaitNone\<rparr>"

definition is_shard_merger :: "'v union \<Rightarrow> bool" where
  "is_shard_merger u = (case union_emit u of AllFrom _ \<Rightarrow> True | EmitProject _ _ _ _ \<Rightarrow> False)"

text \<open>\<open>on_connected\<close> fills in the number of columns of every parent, \<open>columns\<close>.\<close>

definition union_on_connected :: "(nat \<Rightarrow> nat) \<Rightarrow> 'v union \<Rightarrow> 'v union" where
  "union_on_connected columns u =
     (case union_emit u of
        AllFrom _ \<Rightarrow> u
      | EmitProject emit emit_l cols cols_l \<Rightarrow>
          u\<lparr>union_emit := EmitProject emit emit_l (fold (\<lambda>n. hm_insert n (columns n)) (map fst emit) cols) cols_l\<rparr>)"

definition union_replace_sibling :: "nat \<Rightarrow> nat \<Rightarrow> 'v union \<Rightarrow> 'v union" where
  "union_replace_sibling from_idx to_idx u =
     u\<lparr>union_emit :=
         (case union_emit u of
            AllFrom p \<Rightarrow> AllFrom (if p = from_idx then to_idx else p)
          | EmitProject emit emit_l cols cols_l \<Rightarrow>
              EmitProject
                (case hm_get emit from_idx of Some val \<Rightarrow> hm_insert to_idx val (hm_remove from_idx emit) | None \<Rightarrow> emit)
                emit_l
                (case hm_get cols from_idx of Some val \<Rightarrow> hm_insert to_idx val (hm_remove from_idx cols) | None \<Rightarrow> cols)
                cols_l)\<rparr>"

text \<open>\<open>on_commit\<close> gives the parents their index in the domain, \<open>remap\<close>; records name the parents by that index.\<close>

definition union_on_commit :: "(nat \<Rightarrow> nat) \<Rightarrow> 'v union \<Rightarrow> 'v union" where
  "union_on_commit remap u =
     (case union_emit u of
        AllFrom _ \<Rightarrow> u
      | EmitProject emit emit_l cols cols_l \<Rightarrow>
          u\<lparr>union_emit := EmitProject emit (fold (\<lambda>(k, v). btm_insert (remap k) v) emit emit_l)
              cols (fold (\<lambda>(k, v). btm_insert (remap k) v) cols cols_l)\<rparr>)"

text \<open>A clone forgets the replays that are under way.\<close>

definition union_clone :: "'v union \<Rightarrow> 'v union" where
  "union_clone u = u\<lparr>replay_key := [], pieces := [], full_wait_state := FullWaitNone\<rparr>"

definition union_column_source :: "'v union \<Rightarrow> nat list \<Rightarrow> df_error + column_source" where
  "union_column_source u cols =
     (case union_emit u of
        AllFrom p \<Rightarrow> exact_copy p cols
      | EmitProject emit _ _ _ \<Rightarrow>
          try_bind
            (try_map (\<lambda>(src, emit). try_bind
                 (try_map (\<lambda>idx. if idx < length emit then Inr (emit ! idx) else Inl Panic) cols)
                 (\<lambda>cs. if cs = [] then Inl Panic else Inr (src, cs))) emit)
            (\<lambda>refs. if refs = [] then Inl Panic else Inr (UnionOf refs)))"

subsection \<open>Regular records\<close>

definition project_columns :: "nat list \<Rightarrow> 'v df_record \<Rightarrow> df_error + 'v df_record" where
  "project_columns cols r =
     try_bind (try_map (\<lambda>col. if col < length (rec r) then Inr (rec r ! col) else Inl Panic) cols)
       (\<lambda>res. Inr (if is_positive r then Positive res else Negative res))"

definition union_project :: "'v union \<Rightarrow> nat \<Rightarrow> 'v records \<Rightarrow> df_error + 'v records" where
  "union_project u from rs =
     (case union_emit u of
        AllFrom _ \<Rightarrow> Inr rs
      | EmitProject _ emit_l _ _ \<Rightarrow>
          if rs = [] then Inr []
          else
            (case map_of emit_l from of
               None \<Rightarrow> Inl Panic
             | Some cols \<Rightarrow> try_map (project_columns cols) rs))"

definition union_side :: "'v union \<Rightarrow> nat \<Rightarrow> df_error + side option" where
  "union_side u from =
     (case union_emit u of
        AllFrom _ \<Rightarrow> Inr None
      | EmitProject _ _ _ cols_l \<Rightarrow>
          (case cols_l of
             [] \<Rightarrow> Inl Internal
           | (first_parent, _) # _ \<Rightarrow> Inr (Some (if from = first_parent then SideLeft else SideRight))))"

definition union_on_input ::
    "('v row \<Rightarrow> nat) \<Rightarrow> nat \<Rightarrow> 'v records \<Rightarrow> 'v union \<Rightarrow> df_error + 'v records \<times> 'v union" where
  "union_on_input hash from rs u =
     try_bind (union_project u from rs)
       (\<lambda>res.
          case bag_state u of
            None \<Rightarrow> Inr (res, u)
          | Some bus \<Rightarrow>
              try_bind (union_side u from)
                (\<lambda>side. case side of
                   None \<Rightarrow> Inr (res, u)
                 | Some s \<Rightarrow>
                     (case bag_retain hash s res bus of
                        (bus, res) \<Rightarrow> Inr (res, u\<lparr>bag_state := Some bus\<rparr>))))"

subsection \<open>Results of raw input\<close>

datatype 'v raw_result =
    Regular "'v records"
  | FullReplay "'v records" bool
  | CapturedFull
  | ReplayPiece "'v records" "'v key_comparison list" "'v key_comparison list"

subsection \<open>Full replays\<close>

definition union_full ::
    "('v row \<Rightarrow> nat) \<Rightarrow> nat \<Rightarrow> 'v records \<Rightarrow> bool \<Rightarrow> 'v union \<Rightarrow> df_error + 'v raw_result \<times> 'v union" where
  "union_full hash from rs is_last u =
     try_bind (union_on_input hash from rs u)
       (\<lambda>(rs, u).
          case full_wait_state u of
            FullWaitNone \<Rightarrow>
              if required u = 1 then Inr (FullReplay rs is_last, u)
              else Inr (CapturedFull, u\<lparr>full_wait_state := Ongoing [from] (if is_last then 1 else 0) rs\<rparr>)
          | Ongoing started finished buf \<Rightarrow>
              let finished = (if is_last then finished + 1 else finished) in
              if finished = required u
              then Inr (FullReplay (buf @ rs) True, u\<lparr>full_wait_state := FullWaitNone\<rparr>)
              else if length started \<noteq> required u
              then
                let started' = (if from \<in> set started then started else from # started) in
                if from \<notin> set started \<and> length started' = required u
                then Inr (FullReplay (buf @ rs) False, u\<lparr>full_wait_state := Ongoing started' finished []\<rparr>)
                else Inr (CapturedFull, u\<lparr>full_wait_state := Ongoing started' finished (buf @ rs)\<rparr>)
              else Inr (FullReplay rs False, u\<lparr>full_wait_state := Ongoing started finished buf\<rparr>))"

subsection \<open>Buffered upquery responses\<close>

text \<open>\<open>Ord for BufferedReplayKey\<close>; the last arm names the bounds of the range in the wrong order.\<close>

definition brk_cmp :: "'v::linorder buffered_replay_key \<Rightarrow> 'v buffered_replay_key \<Rightarrow> ordering" where
  "brk_cmp a b =
     ord_then (rs_cmp (brk_tag a) (brk_tag b))
    (ord_then
       (case (brk_key a, brk_key b) of
          (KEqual k1, KEqual k2) \<Rightarrow> rs_cmp k1 k2
        | (KRange (l1, u1), KRange (l2, u2)) \<Rightarrow> ord_then (cmp_startbound l1 l2) (cmp_endbound u1 u2)
        | (KEqual k, KRange (l, u)) \<Rightarrow> ord_then (cmp_startbound (Included k) l) (cmp_endbound (Included k) u)
        | (KRange (u, l), KEqual k) \<Rightarrow> ord_then (cmp_startbound l (Included k)) (cmp_endbound u (Included k)))
    (ord_then (rs_cmp (brk_shard a) (brk_shard b)) (rs_cmp (brk_replica a) (brk_replica b))))"

definition brk_eq :: "'v buffered_replay_key \<Rightarrow> 'v buffered_replay_key \<Rightarrow> bool" where
  "brk_eq a b =
     (brk_tag a = brk_tag b \<and> kc_eq (brk_key a) (brk_key b) \<and> brk_shard a = brk_shard b \<and> brk_replica a = brk_replica b)"

fun pieces_get :: "('v buffered_replay_key \<times> 'p) list \<Rightarrow> 'v buffered_replay_key \<Rightarrow> 'p option" where
  "pieces_get [] k = None"
| "pieces_get ((k', p) # ps) k = (if brk_eq k' k then Some p else pieces_get ps k)"

fun pieces_put ::
    "'v buffered_replay_key \<Rightarrow> 'p \<Rightarrow> ('v buffered_replay_key \<times> 'p) list \<Rightarrow> ('v buffered_replay_key \<times> 'p) list" where
  "pieces_put k p [] = [(k, p)]"
| "pieces_put k p ((k', p') # ps) = (if brk_eq k' k then (k', p) # ps else (k', p') # pieces_put k p ps)"

definition pieces_remove ::
    "'v buffered_replay_key \<Rightarrow> ('v buffered_replay_key \<times> 'p) list \<Rightarrow> ('v buffered_replay_key \<times> 'p) list" where
  "pieces_remove k ps = filter (\<lambda>(k', _). \<not> brk_eq k' k) ps"

text \<open>The parent whose replay key is used: a shard merger has one entry for all shards.\<close>

definition rkey_from :: "'v union \<Rightarrow> nat \<Rightarrow> nat" where
  "rkey_from u from = (if is_shard_merger u then 0 else from)"

text \<open>Regular records that follow a buffered piece of the same parent are added to that piece.\<close>

definition absorb_records ::
    "nat list \<Rightarrow> 'v::linorder key_comparison \<Rightarrow> 'v records \<Rightarrow> 'v records \<Rightarrow> df_error + 'v records" where
  "absorb_records cols key buf rs =
     try_bind (try_map (\<lambda>r. case cloned_indices (rec r) cols of Inl _ \<Rightarrow> Inl Panic | Inr k \<Rightarrow> Inr (kc_contains key k, r)) rs)
       (\<lambda>rs. Inr (buf @ map snd (filter fst rs)))"

fun absorb_pieces ::
    "((nat \<times> nat) \<times> nat list) list \<Rightarrow> nat \<Rightarrow> nat \<Rightarrow> 'v::linorder records \<Rightarrow>
     ('v buffered_replay_key \<times> 'v replay_pieces) list \<Rightarrow> df_error + ('v buffered_replay_key \<times> 'v replay_pieces) list" where
  "absorb_pieces rk from rfrom rs [] = Inr []"
| "absorb_pieces rk from rfrom rs ((k, p) # ps) =
     try_bind
       (if buffered p = [] then Inl Internal
        else
          (case hm_get (buffered p) from of
             None \<Rightarrow> Inr p
           | Some buf \<Rightarrow>
               (case map_of rk (brk_tag k, rfrom) of
                  None \<Rightarrow> Inl Panic
                | Some cols \<Rightarrow>
                    try_bind (absorb_records cols (brk_key k) buf rs)
                      (\<lambda>buf. Inr (p\<lparr>buffered := hm_insert from buf (buffered p)\<rparr>)))))
       (\<lambda>p. try_bind (absorb_pieces rk from rfrom rs ps) (\<lambda>ps. Inr ((k, p) # ps)))"

definition union_none ::
    "('v::linorder row \<Rightarrow> nat) \<Rightarrow> nat \<Rightarrow> 'v records \<Rightarrow> 'v union \<Rightarrow> df_error + 'v raw_result \<times> 'v union" where
  "union_none hash from rs u =
     (case full_wait_state u of
        Ongoing started finished buf \<Rightarrow>
          if length started \<noteq> required u \<and> from \<in> set started
          then
            if replay_key u \<noteq> [] \<and> pieces u \<noteq> [] then Inl Internal
            else
              try_bind (union_on_input hash from rs u)
                (\<lambda>(rs, u). Inr (Regular rs, u\<lparr>full_wait_state := Ongoing started finished (buf @ rs)\<rparr>))
          else
            try_bind (absorb_pieces (replay_key u) from (rkey_from u from) rs (pieces u))
              (\<lambda>ps. try_bind (union_on_input hash from rs (u\<lparr>pieces := ps\<rparr>)) (\<lambda>(rs, u). Inr (Regular rs, u)))
      | FullWaitNone \<Rightarrow>
          try_bind (absorb_pieces (replay_key u) from (rkey_from u from) rs (pieces u))
            (\<lambda>ps. try_bind (union_on_input hash from rs (u\<lparr>pieces := ps\<rparr>)) (\<lambda>(rs, u). Inr (Regular rs, u))))"

subsection \<open>Partial replays\<close>

record 'v partial_replay =
  pr_key_cols :: "nat list"
  pr_keys :: "'v key_comparison list"
  pr_shard :: nat
  pr_replica :: nat
  pr_unishard :: bool
  pr_tag :: nat

definition map_columns :: "nat list \<Rightarrow> nat list \<Rightarrow> df_error + nat list" where
  "map_columns emit cols = try_map (\<lambda>c. if c < length emit then Inr (emit ! c) else Inl Panic) cols"

fun insert_replay_keys ::
    "nat \<Rightarrow> nat list \<Rightarrow> nat \<Rightarrow> (nat \<times> nat list) list \<Rightarrow> ((nat \<times> nat) \<times> nat list) list \<Rightarrow>
     df_error + ((nat \<times> nat) \<times> nat list) list" where
  "insert_replay_keys tag cols from [] rk = Inr rk"
| "insert_replay_keys tag cols from ((src, emit) # es) rk =
     (if src \<noteq> from
      then try_bind (map_columns emit cols) (\<lambda>cs. insert_replay_keys tag cols from es (hm_insert (tag, src) cs rk))
      else insert_replay_keys tag cols from es rk)"

definition note_replay_key :: "nat \<Rightarrow> nat list \<Rightarrow> nat \<Rightarrow> 'v union \<Rightarrow> df_error + 'v union" where
  "note_replay_key tag cols from u =
     (case hm_get (replay_key u) (tag, rkey_from u from) of
        Some _ \<Rightarrow> Inr u
      | None \<Rightarrow>
          (case union_emit u of
             AllFrom _ \<Rightarrow> Inr (u\<lparr>replay_key := hm_insert (tag, rkey_from u from) cols (replay_key u)\<rparr>)
           | EmitProject _ emit_l _ _ \<Rightarrow>
               (case map_of emit_l from of
                  None \<Rightarrow> Inl Panic
                | Some emit \<Rightarrow>
                    try_bind (map_columns emit cols)
                      (\<lambda>cs. try_bind (insert_replay_keys tag cols from emit_l (hm_insert (tag, from) cs (replay_key u)))
                         (\<lambda>rk. Inr (u\<lparr>replay_key := rk\<rparr>))))))"

text \<open>The records of a piece by key, in key order; the batch order is kept within a key.\<close>

definition records_by_key :: "nat list \<Rightarrow> 'v::linorder records \<Rightarrow> df_error + ('v list \<times> 'v df_record) list" where
  "records_by_key cols rs =
     try_bind (try_map (\<lambda>r. case cloned_indices (rec r) cols of
            Inl _ \<Rightarrow> Inl Panic
          | Inr key \<Rightarrow> if key = [] then Inl Panic else Inr (key, r)) rs)
       (\<lambda>krs. Inr (sort_by (\<lambda>a b. rs_cmp (fst a) (fst b)) krs))"

text \<open>\<open>BTreeMap::range_mut\<close> on a map with entries panics when the range is inverted.\<close>

fun range_panics :: "'a::linorder bound \<Rightarrow> 'a bound \<Rightarrow> bool" where
  "range_panics (Excluded s) (Excluded e) = (e \<le> s)"
| "range_panics (Included s) (Included e) = (e < s)"
| "range_panics (Included s) (Excluded e) = (e < s)"
| "range_panics (Excluded s) (Included e) = (e < s)"
| "range_panics _ _ = False"

text \<open>Store the piece of a parent for a key: the pieces of all parents when it was the last one.\<close>

definition store_piece ::
    "nat \<Rightarrow> nat \<Rightarrow> 'v buffered_replay_key \<Rightarrow> 'v records \<Rightarrow> ('v buffered_replay_key \<times> 'v replay_pieces) list \<Rightarrow>
     df_error + ('v buffered_replay_key \<times> 'v replay_pieces) list \<times> 'v replay_pieces option" where
  "store_piece req from k rs ps =
     (case pieces_get ps k of
        Some e \<Rightarrow>
          if hm_get (buffered e) from \<noteq> None then Inl Panic
          else if length (buffered e) = req - 1
          then Inr (pieces_remove k ps, Some (e\<lparr>buffered := hm_insert from rs (buffered e)\<rparr>))
          else Inr (pieces_put k (e\<lparr>buffered := hm_insert from rs (buffered e)\<rparr>) ps, None)
      | None \<Rightarrow>
          let m = \<lparr>buffered = [(from, rs)], evict = False\<rparr> in
          if req = 1 then Inr (ps, Some m) else Inr (pieces_put k m ps, None))"

fun union_release ::
    "('v row \<Rightarrow> nat) \<Rightarrow> (nat \<times> 'v records) list \<Rightarrow> 'v union \<Rightarrow> df_error + 'v records \<times> 'v union" where
  "union_release hash [] u = Inr ([], u)"
| "union_release hash ((from, rs) # ps) u =
     try_bind (union_on_input hash from rs u)
       (\<lambda>(res, u). try_bind (union_release hash ps u) (\<lambda>(ress, u). Inr (res @ ress, u)))"

fun partial_keys ::
    "('v::linorder row \<Rightarrow> nat) \<Rightarrow> nat \<Rightarrow> 'v partial_replay \<Rightarrow> bool \<Rightarrow> 'v key_comparison list \<Rightarrow> ('v list \<times> 'v df_record) list \<Rightarrow>
     ('v buffered_replay_key \<times> 'v replay_pieces) list \<Rightarrow> 'v union \<Rightarrow>
     df_error + 'v records \<times> 'v key_comparison list \<times> 'v key_comparison list \<times>
       ('v buffered_replay_key \<times> 'v replay_pieces) list \<times> 'v union" where
  "partial_keys hash from pr has_rows [] krs ps u = Inr ([], [], [], ps, u)"
| "partial_keys hash from pr has_rows (key # keys) krs ps u =
     (if has_rows \<and> range_panics (start_bound key) (end_bound key) then Inl Panic
      else
        let rs = map snd (filter (\<lambda>(k, _). kc_contains key k) krs);
            krs' = filter (\<lambda>(k, _). \<not> kc_contains key k) krs;
            bk = \<lparr>brk_tag = pr_tag pr, brk_key = key, brk_shard = pr_shard pr, brk_replica = pr_replica pr\<rparr>
        in
        try_bind (store_piece (required u) from bk rs ps)
          (\<lambda>(ps, released).
             case released of
               None \<Rightarrow>
                 try_bind (partial_keys hash from pr has_rows keys krs' ps u)
                   (\<lambda>(out, rel, cap, ps, u). Inr (out, rel, key # cap, ps, u))
             | Some m \<Rightarrow>
                 try_bind (union_release hash (buffered m) u)
                   (\<lambda>(res, u). try_bind (partial_keys hash from pr has_rows keys krs' ps u)
                      (\<lambda>(out, rel, cap, ps, u). Inr (res @ out, key # rel, cap, ps, u)))))"

definition union_partial ::
    "('v::linorder row \<Rightarrow> nat) \<Rightarrow> nat \<Rightarrow> 'v records \<Rightarrow> 'v partial_replay \<Rightarrow> 'v union \<Rightarrow> df_error + 'v raw_result \<times> 'v union" where
  "union_partial hash from rs pr u =
     (if is_shard_merger u \<and> pr_unishard pr
      then (if pieces u \<noteq> [] then Inl Internal else Inr (ReplayPiece rs (pr_keys pr) [], u))
      else
        try_bind (note_replay_key (pr_tag pr) (pr_key_cols pr) from u)
          (\<lambda>u. try_bind (records_by_key (pr_key_cols pr) rs)
             (\<lambda>krs. try_bind (partial_keys hash from pr (krs \<noteq> []) (pr_keys pr) krs (pieces u) (u\<lparr>pieces := []\<rparr>))
                (\<lambda>(out, released, captured, ps, u). Inr (ReplayPiece out released captured, u\<lparr>pieces := ps\<rparr>)))))"

subsection \<open>Evictions and columns\<close>

definition union_on_eviction :: "nat \<Rightarrow> nat \<Rightarrow> 'v key_comparison list \<Rightarrow> 'v union \<Rightarrow> 'v union" where
  "union_on_eviction from tag keys u =
     u\<lparr>pieces := map (\<lambda>(k, p).
         (k, if brk_tag k = tag \<and> list_ex (kc_eq (brk_key k)) keys \<and> hm_get (buffered p) from \<noteq> None
             then p\<lparr>evict := True\<rparr> else p)) (pieces u)\<rparr>"

end
