(* ===== verification/UnionProps.thy ===== *)
theory UnionProps
  imports Union
begin

section \<open>Correctness of the union operator\<close>

text \<open>
  A bag union emits each row as often as the parent that has more copies of it; a full replay comes out
  once and completely, only after every parent has started; and where replays go wrong.
\<close>

subsection \<open>Bag union\<close>

text \<open>The rows of the two sides under a stream of records; a side can delete only rows that it has.\<close>

fun bag_sides :: "(side \<times> 'v df_record) list \<Rightarrow> (side \<Rightarrow> 'v row multiset) \<Rightarrow> (side \<Rightarrow> 'v row multiset) option" where
  "bag_sides [] C = Some C"
| "bag_sides ((s, Positive row) # rs) C = bag_sides rs (C(s := add_mset row (C s)))"
| "bag_sides ((s, Negative row) # rs) C =
     (if row \<in># C s then bag_sides rs (C(s := C s - {#row#})) else None)"

definition diff_entry :: "nat \<Rightarrow> nat \<Rightarrow> (side \<times> nat) option" where
  "diff_entry l r = (if r < l then Some (SideLeft, l - r) else if l < r then Some (SideRight, r - l) else None)"

definition bag_inv :: "('v row \<Rightarrow> nat) \<Rightarrow> (side \<Rightarrow> 'v row multiset) \<Rightarrow> bag_union_state \<Rightarrow> bool" where
  "bag_inv hash C st \<longleftrightarrow>
     hm_inv st \<and> (\<forall>row. hm_get st (hash row) = diff_entry (count (C SideLeft) row) (count (C SideRight) row))"

definition bag_union :: "(side \<Rightarrow> 'v row multiset) \<Rightarrow> 'v row multiset" where
  "bag_union C = C SideLeft \<union># C SideRight"

lemma other_side_simps [simp]: "other_side (other_side s) = s" "other_side s \<noteq> s" "s \<noteq> other_side s"
  by (cases s; simp)+

lemma not_right [simp]: "s \<noteq> SideRight \<longleftrightarrow> s = SideLeft"
  by (cases s) simp_all

lemma bag_process_positive:
  assumes inj: "inj hash" and inv: "bag_inv hash C st" and p: "bag_process hash s (Positive row) st = (st', keep)"
  shows "bag_inv hash (C(s := add_mset row (C s))) st' \<and>
    bag_union (C(s := add_mset row (C s))) = (if keep then add_mset row (bag_union C) else bag_union C)"
proof -
  have st: "hm_inv st" "\<And>row. hm_get st (hash row) = diff_entry (count (C SideLeft) row) (count (C SideRight) row)"
    using inv by (auto simp: bag_inv_def)
  have h: "hash a = hash b \<longleftrightarrow> a = b" for a b using inj by (auto dest: injD)
  have "bag_inv hash (C(s := add_mset row (C s))) st'"
    using p st h unfolding bag_inv_def
    by (cases s) (auto simp: bag_process_def diff_entry_def hm.get_put hm.get_del hm.inv_put hm.inv_del Let_def
        split: if_splits option.splits prod.splits)
  moreover have "bag_union (C(s := add_mset row (C s))) = (if keep then add_mset row (bag_union C) else bag_union C)"
    using p st(2) [of row]
    by (cases s; intro multiset_eqI) (auto simp: bag_union_def bag_process_def diff_entry_def Let_def max_def
        split: if_splits option.splits prod.splits)
  ultimately show ?thesis by simp
qed

lemma bag_process_negative:
  assumes inj: "inj hash" and inv: "bag_inv hash C st" and row: "row \<in># C s"
    and p: "bag_process hash s (Negative row) st = (st', keep)"
  shows "bag_inv hash (C(s := C s - {#row#})) st' \<and>
    bag_union C = (if keep then add_mset row (bag_union (C(s := C s - {#row#}))) else bag_union (C(s := C s - {#row#})))"
proof -
  have st: "hm_inv st" "\<And>row. hm_get st (hash row) = diff_entry (count (C SideLeft) row) (count (C SideRight) row)"
    using inv by (auto simp: bag_inv_def)
  have h: "hash a = hash b \<longleftrightarrow> a = b" for a b using inj by (auto dest: injD)
  obtain n where c: "count (C s) row = Suc n" using row by (metis count_greater_zero_iff gr0_conv_Suc)
  have "bag_inv hash (C(s := C s - {#row#})) st'"
    using p st h c unfolding bag_inv_def
    by (cases s) (auto simp: bag_process_def diff_entry_def hm.get_put hm.get_del hm.inv_put hm.inv_del Let_def
        split: if_splits option.splits prod.splits)
  moreover have "bag_union C = (if keep then add_mset row (bag_union (C(s := C s - {#row#}))) else bag_union (C(s := C s - {#row#})))"
    using p st(2) [of row] c
    by (cases s; intro multiset_eqI) (auto simp: bag_union_def bag_process_def diff_entry_def Let_def max_def
        split: if_splits option.splits prod.splits)
  ultimately show ?thesis by simp
qed

lemma bag_sides_append:
  "bag_sides (xs @ ys) C = (case bag_sides xs C of None \<Rightarrow> None | Some C' \<Rightarrow> bag_sides ys C')"
  by (induction xs C rule: bag_sides.induct) (auto simp: fun_upd_def)

lemma bag_retain_emits:
  assumes "inj hash"
  shows "\<lbrakk>bag_inv hash C st; bag_sides (map (Pair s) rs) C = Some C'; bag_retain hash s rs st = (st', res)\<rbrakk> \<Longrightarrow>
    bag_inv hash C' st' \<and> bag_union C + positives res = bag_union C' + negatives res"
proof (induction rs arbitrary: C st res)
  case Nil
  then show ?case by simp
next
  case (Cons r rs)
  obtain st1 keep where p: "bag_process hash s r st = (st1, keep)" by fastforce
  obtain st2 res' where q: "bag_retain hash s rs st1 = (st2, res')" by fastforce
  from Cons.prems(3) p q have res: "st' = st2" "res = (if keep then r # res' else res')" by auto
  show ?case
  proof (cases r)
    case (Positive row)
    with Cons.prems(2) have "bag_sides (map (Pair s) rs) (C(s := add_mset row (C s))) = Some C'" by simp
    moreover from bag_process_positive [OF assms Cons.prems(1), of s row st1 keep] p Positive
    have u: "bag_inv hash (C(s := add_mset row (C s))) st1"
      "bag_union (C(s := add_mset row (C s))) = (if keep then add_mset row (bag_union C) else bag_union C)" by auto
    ultimately have "bag_inv hash C' st' \<and>
        bag_union (C(s := add_mset row (C s))) + positives res' = bag_union C' + negatives res'"
      using Cons.IH q res(1) by blast
    with u(2) res Positive show ?thesis by (auto split: if_splits)
  next
    case (Negative row)
    with Cons.prems(2) have row: "row \<in># C s" "bag_sides (map (Pair s) rs) (C(s := C s - {#row#})) = Some C'"
      by (auto split: if_splits)
    moreover from bag_process_negative [OF assms Cons.prems(1) row(1), of st1 keep] p Negative
    have u: "bag_inv hash (C(s := C s - {#row#})) st1"
      "bag_union C = (if keep then add_mset row (bag_union (C(s := C s - {#row#}))) else bag_union (C(s := C s - {#row#})))"
      by auto
    ultimately have "bag_inv hash C' st' \<and>
        bag_union (C(s := C s - {#row#})) + positives res' = bag_union C' + negatives res'"
      using Cons.IH q res(1) by blast
    with u(2) res Negative show ?thesis by (auto split: if_splits)
  qed
qed

text \<open>The records that reach the duplicate removal, with the side they come from.\<close>

fun union_stream :: "'v union \<Rightarrow> (nat \<times> 'v records) list \<Rightarrow> df_error + (side \<times> 'v df_record) list" where
  "union_stream u [] = Inr []"
| "union_stream u ((from, rs) # ms) =
     try_bind (union_project u from rs)
       (\<lambda>rs. try_bind (union_side u from)
          (\<lambda>side. try_bind (union_stream u ms)
             (\<lambda>ss. Inr ((case side of Some s \<Rightarrow> map (Pair s) rs | None \<Rightarrow> []) @ ss))))"

lemma union_stream_bag [simp]: "union_stream (u\<lparr>bag_state := b\<rparr>) ms = union_stream u ms"
  by (induction u ms rule: union_stream.induct) (simp_all add: union_project_def union_side_def)

lemma bag_union_run:
  assumes "inj hash"
  shows "\<lbrakk>bag_state u = Some st; bag_inv hash C st; union_emit u = EmitProject emit emit_l cols cols_l; union_stream u ms = Inr ss;
    bag_sides ss C = Some C'; union_release hash ms u = Inr (res, u')\<rbrakk> \<Longrightarrow>
    bag_union C + positives res = bag_union C' + negatives res"
proof (induction ms arbitrary: u st C ss res)
  case Nil
  then show ?case by simp
next
  case (Cons m ms)
  obtain fr rs where m: "m = (fr, rs)" by fastforce
  from Cons.prems(4) m obtain prs side ss' where s: "union_project u fr rs = Inr prs" "union_side u fr = Inr side"
    "union_stream u ms = Inr ss'" "ss = (case side of Some s \<Rightarrow> map (Pair s) prs | None \<Rightarrow> []) @ ss'"
    by (auto simp: result_simps)
  obtain s where side: "side = Some s"
    using s(2) Cons.prems(3) by (auto simp: union_side_def split: list.splits)
  obtain st1 res1 where b: "bag_retain hash s prs st = (st1, res1)" by fastforce
  from Cons.prems(5) s(4) side obtain C1 where C1: "bag_sides (map (Pair s) prs) C = Some C1" "bag_sides ss' C1 = Some C'"
    by (auto simp: bag_sides_append split: option.splits)
  have step: "union_on_input hash fr rs u = Inr (res1, u\<lparr>bag_state := Some st1\<rparr>)"
    using Cons.prems(1) s side b by (simp add: union_on_input_def)
  with Cons.prems(6) m obtain res2 where r: "union_release hash ms (u\<lparr>bag_state := Some st1\<rparr>) = Inr (res2, u')" "res = res1 @ res2"
    by (auto simp: result_simps)
  from bag_retain_emits [OF assms Cons.prems(2) C1(1) b]
  have i: "bag_inv hash C1 st1" "bag_union C + positives res1 = bag_union C1 + negatives res1" by auto
  have "bag_union C1 + positives res2 = bag_union C' + negatives res2"
    using Cons.IH [OF _ i(1) _ _ C1(2) r(1)] Cons.prems(3) s(3) by simp
  with i(2) r(2) show ?case by (simp add: add.assoc [symmetric])
qed


definition example_union :: "duplicate_mode \<Rightarrow> 'v union" where
  "example_union mode =
     \<lparr>union_emit = EmitProject [(0, [0]), (1, [0])] [(0, [0]), (1, [0])] [(0, 1), (1, 1)] [(0, 1), (1, 1)],
      bag_state = (case mode of BagUnion \<Rightarrow> Some [] | UnionAll \<Rightarrow> None),
      replay_key = [], pieces = [], required = 2, full_wait_state = FullWaitNone\<rparr>"

fun unary_hash :: "unit row \<Rightarrow> nat" where
  "unary_hash row = length row"


subsection \<open>Full replays\<close>

datatype 'v message = FullMsg nat "'v records" bool | RegularMsg nat "'v records"

fun raw_step :: "('v::linorder row \<Rightarrow> nat) \<Rightarrow> 'v message \<Rightarrow> 'v union \<Rightarrow> df_error + 'v raw_result \<times> 'v union" where
  "raw_step hash (FullMsg from rs is_last) u = union_full hash from rs is_last u"
| "raw_step hash (RegularMsg from rs) u = union_none hash from rs u"

fun raw_run :: "('v::linorder row \<Rightarrow> nat) \<Rightarrow> 'v message list \<Rightarrow> 'v union \<Rightarrow> df_error + 'v raw_result list \<times> 'v union" where
  "raw_run hash [] u = Inr ([], u)"
| "raw_run hash (m # ms) u =
     try_bind (raw_step hash m u)
       (\<lambda>(r, u). try_bind (raw_run hash ms u) (\<lambda>(rs, u). Inr (r # rs, u)))"

fun full_rows :: "'v raw_result list \<Rightarrow> 'v records" where
  "full_rows [] = []"
| "full_rows (FullReplay rs _ # res) = rs @ full_rows res"
| "full_rows (_ # res) = full_rows res"

fun released :: "'v raw_result \<Rightarrow> bool" where
  "released (FullReplay _ _) = True"
| "released _ = False"

fun ends_replay :: "'v raw_result \<Rightarrow> bool" where
  "ends_replay (FullReplay _ is_last) = is_last"
| "ends_replay _ = False"

fun sender :: "'v message \<Rightarrow> nat option" where
  "sender (FullMsg from _ _) = Some from"
| "sender (RegularMsg _ _) = None"

fun is_final :: "'v message \<Rightarrow> bool" where
  "is_final (FullMsg _ _ is_last) = is_last"
| "is_final (RegularMsg _ _) = False"

definition senders :: "'v message list \<Rightarrow> nat set" where
  "senders ms = {from. Some from \<in> sender ` set ms}"

definition finals :: "'v message list \<Rightarrow> nat" where
  "finals ms = length (filter is_final ms)"

text \<open>
  What a full replay has to contain: the records of its messages, and the regular records that a parent sends
  after its own first replay message and before every parent has sent one.
\<close>

fun replay_outputs ::
    "('v row \<Rightarrow> nat) \<Rightarrow> nat \<Rightarrow> nat set \<Rightarrow> 'v message list \<Rightarrow> 'v union \<Rightarrow> df_error + 'v records \<times> 'v union" where
  "replay_outputs hash n started [] u = Inr ([], u)"
| "replay_outputs hash n started (FullMsg from rs is_last # ms) u =
     try_bind (union_on_input hash from rs u)
       (\<lambda>(res, u). try_bind (replay_outputs hash n (insert from started) ms u)
          (\<lambda>(ress, u). Inr (res @ ress, u)))"
| "replay_outputs hash n started (RegularMsg from rs # ms) u =
     try_bind (union_on_input hash from rs u)
       (\<lambda>(res, u). try_bind (replay_outputs hash n started ms u)
          (\<lambda>(ress, u). Inr ((if from \<in> started \<and> card started \<noteq> n then res else []) @ ress, u)))"

lemma on_input_frame:
  "union_on_input hash fr rs (u\<lparr>full_wait_state := w\<rparr>) =
   map_sum id (\<lambda>(res, u). (res, u\<lparr>full_wait_state := w\<rparr>)) (union_on_input hash fr rs u)"
proof -
  have "union_project (u\<lparr>full_wait_state := w\<rparr>) fr rs = union_project u fr rs"
    "union_side (u\<lparr>full_wait_state := w\<rparr>) fr = union_side u fr"
    by (simp_all add: union_project_def union_side_def)
  then show ?thesis
    by (cases "union_project u fr rs"; cases "bag_state u"; cases "union_side u fr")
      (auto simp: union_on_input_def split: option.splits prod.splits)
qed

lemma on_input_keeps:
  "union_on_input hash fr rs u = Inr (res, u') \<Longrightarrow>
   required u' = required u \<and> pieces u' = pieces u \<and> full_wait_state u' = full_wait_state u"
  by (cases "union_project u fr rs"; cases "bag_state u"; cases "union_side u fr")
    (auto simp: union_on_input_def split: option.splits prod.splits)

lemma raw_run_append:
  "raw_run hash (ms @ ns) u =
   try_bind (raw_run hash ms u) (\<lambda>(rs, u). try_bind (raw_run hash ns u) (\<lambda>(rs', u). Inr (rs @ rs', u)))"
proof (induction ms arbitrary: u)
  case Nil
  then show ?case by (cases "raw_run hash ns u") auto
next
  case (Cons m ms)
  show ?case
  proof (cases "raw_step hash m u")
    case (Inr x)
    obtain r u1 where "x = (r, u1)" by fastforce
    show ?thesis
    proof (cases "raw_run hash ms u1")
      case run: (Inr y)
      obtain rs u2 where "y = (rs, u2)" by fastforce
      with Inr run \<open>x = (r, u1)\<close> Cons [of u1] show ?thesis
        by (cases "raw_run hash ns u2") auto
    qed (simp add: Inr \<open>x = (r, u1)\<close> Cons [of u1])
  qed simp
qed

definition wait_inv :: "nat \<Rightarrow> nat set \<Rightarrow> nat \<Rightarrow> 'v records \<Rightarrow> 'v full_wait \<Rightarrow> bool" where
  "wait_inv n S k buf fw \<longleftrightarrow>
     (if S = {} then fw = FullWaitNone \<and> buf = [] \<and> k = 0
      else \<exists>started. fw = Ongoing started k buf \<and> distinct started \<and> set started = S \<and> (card S = n \<longrightarrow> buf = []))"

fun counted :: "nat \<Rightarrow> nat set \<Rightarrow> 'v message \<Rightarrow> bool" where
  "counted n S (FullMsg _ _ _) = True"
| "counted n S (RegularMsg from _) = (from \<in> S \<and> card S \<noteq> n)"

fun msg_from :: "'v message \<Rightarrow> nat" where
  "msg_from (FullMsg from _ _) = from"
| "msg_from (RegularMsg from _) = from"

fun msg_records :: "'v message \<Rightarrow> 'v records" where
  "msg_records (FullMsg _ rs _) = rs"
| "msg_records (RegularMsg _ rs) = rs"

lemma senders_simps [simp]:
  "senders [] = {}"
  "senders (m # ms) = set_option (sender m) \<union> senders ms"
  by (auto simp: senders_def elem_set)

lemma finals_simps [simp]:
  "finals [] = 0"
  "finals (m # ms) = (if is_final m then 1 else 0) + finals ms"
  by (auto simp: finals_def)

lemma finite_senders [simp]: "finite (senders ms)"
  by (induction ms) simp_all

lemma replay_outputs_Cons:
  "replay_outputs hash n S (m # ms) u =
     try_bind (union_on_input hash (msg_from m) (msg_records m) u)
       (\<lambda>(res, u). try_bind (replay_outputs hash n (S \<union> set_option (sender m)) ms u)
          (\<lambda>(ress, u). Inr ((if counted n S m then res else []) @ ress, u)))"
  by (cases m) simp_all

lemma regular_step:
  assumes inp: "union_on_input hash fr rs u = Inr (out, v)"
    and "pieces u = []" "required u = n" and inv: "wait_inv n S k buf (full_wait_state u)"
  shows "\<exists>fw' buf'. union_none hash fr rs u = Inr (Regular out, v\<lparr>full_wait_state := fw'\<rparr>)
    \<and> wait_inv n S k buf' fw' \<and> buf' = (if fr \<in> S \<and> card S \<noteq> n then buf @ out else buf)"
proof -
  have id: "v\<lparr>full_wait_state := full_wait_state u\<rparr> = v" "u\<lparr>pieces := []\<rparr> = u"
    using on_input_keeps [OF inp] \<open>pieces u = []\<close> by (cases v; cases u; simp)+
  show ?thesis
  proof (cases "S = {}")
    case True
    then have "full_wait_state u = FullWaitNone" "buf = []"
      using inv by (simp_all add: wait_inv_def)
    then show ?thesis
      using id(1) True inv
      by (intro exI [of _ FullWaitNone] exI [of _ "[]"]) (simp add: union_none_def assms(2,3) id(2) inp)
  next
    case False
    then obtain st where st: "full_wait_state u = Ongoing st k buf" "distinct st" "set st = S" "card S = n \<longrightarrow> buf = []"
      using inv by (auto simp: wait_inv_def)
    then have "length st = card S" using distinct_card by metis
    then show ?thesis
      using st False id(1)
      by (intro exI [of _ "Ongoing st k (if fr \<in> S \<and> card S \<noteq> n then buf @ out else buf)"]
          exI [of _ "if fr \<in> S \<and> card S \<noteq> n then buf @ out else buf"])
        (auto simp: union_none_def wait_inv_def assms(2,3) id(2) inp)
  qed
qed

lemma full_step:
  assumes inp: "union_on_input hash fr rs u = Inr (out, v)"
    and n: "required u = n" "1 < n" and inv: "wait_inv n S k buf (full_wait_state u)"
    and fin: "finite S" and le: "card (insert fr S) \<le> n" and more: "k + (if l then 1 else 0) < n"
  shows "\<exists>r fw' buf'. union_full hash fr rs l u = Inr (r, v\<lparr>full_wait_state := fw'\<rparr>)
    \<and> wait_inv n (insert fr S) (k + (if l then 1 else 0)) buf' fw'
    \<and> full_rows [r] @ buf' = buf @ out \<and> \<not> ends_replay r \<and> (released r \<longrightarrow> card (insert fr S) = n)"
proof (cases "S = {}")
  case True
  then have "full_wait_state v = FullWaitNone" "buf = []" "k = 0"
    using inv on_input_keeps [OF inp] by (simp_all add: wait_inv_def)
  then show ?thesis
    using n inp True on_input_keeps [OF inp] by (auto simp: union_full_def wait_inv_def)
next
  case False
  then obtain st where st: "full_wait_state u = Ongoing st k buf" "distinct st" "set st = S" "card S = n \<longrightarrow> buf = []"
    using inv by (auto simp: wait_inv_def)
  then have len: "length st = card S" using distinct_card by metis
  let ?k = "k + (if l then 1 else 0)"
  have v: "required v = n" "full_wait_state v = Ongoing st k buf"
    using on_input_keeps [OF inp] n st by simp_all
  have k: "?k \<noteq> n" using more by simp
  show ?thesis
  proof (cases "fr \<in> S")
    case True
    then have ins: "insert fr S = S" by auto
    show ?thesis
    proof (cases "card S = n")
      case all: True
      then have "union_full hash fr rs l u = Inr (FullReplay out False, v\<lparr>full_wait_state := Ongoing st ?k buf\<rparr>)"
        using len v k by (cases l) (simp_all add: union_full_def inp)
      moreover have "wait_inv n (insert fr S) ?k [] (Ongoing st ?k buf)"
        using st all False ins by (simp add: wait_inv_def)
      ultimately show ?thesis using all st(4) ins by fastforce
    next
      case some: False
      then have "union_full hash fr rs l u = Inr (CapturedFull, v\<lparr>full_wait_state := Ongoing st ?k (buf @ out)\<rparr>)"
        using len v k True st by (cases l) (simp_all add: union_full_def inp)
      moreover have "wait_inv n (insert fr S) ?k (buf @ out) (Ongoing st ?k (buf @ out))"
        using st some False ins by (simp add: wait_inv_def)
      ultimately show ?thesis by fastforce
    qed
  next
    case new: False
    then have ins: "card (insert fr S) = Suc (card S)" using fin by simp
    then have "card S \<noteq> n" using le by simp
    show ?thesis
    proof (cases "Suc (card S) = n")
      case all: True
      then have "union_full hash fr rs l u
        = Inr (FullReplay (buf @ out) False, v\<lparr>full_wait_state := Ongoing (fr # st) ?k []\<rparr>)"
        using len v k new st by (cases l) (simp_all add: union_full_def inp)
      moreover have "wait_inv n (insert fr S) ?k [] (Ongoing (fr # st) ?k [])"
        using st all new by (simp add: wait_inv_def)
      ultimately show ?thesis using all ins by fastforce
    next
      case some: False
      then have "union_full hash fr rs l u
        = Inr (CapturedFull, v\<lparr>full_wait_state := Ongoing (fr # st) ?k (buf @ out)\<rparr>)"
        using len v k new st \<open>card S \<noteq> n\<close> by (cases l) (simp_all add: union_full_def inp)
      moreover have "wait_inv n (insert fr S) ?k (buf @ out) (Ongoing (fr # st) ?k (buf @ out))"
        using st some new ins by (simp add: wait_inv_def)
      ultimately show ?thesis by fastforce
    qed
  qed
qed

lemma message_step:
  assumes inp: "union_on_input hash (msg_from m) (msg_records m) u = Inr (out, v)"
    and u: "pieces u = []" "required u = n" "1 < n" and inv: "wait_inv n S k buf (full_wait_state u)"
    and fin: "finite S" and le: "card (S \<union> set_option (sender m)) \<le> n"
    and more: "k + (if is_final m then 1 else 0) < n"
  shows "\<exists>r fw' buf'. raw_step hash m u = Inr (r, v\<lparr>full_wait_state := fw'\<rparr>)
    \<and> wait_inv n (S \<union> set_option (sender m)) (k + (if is_final m then 1 else 0)) buf' fw'
    \<and> full_rows [r] @ buf' = buf @ (if counted n S m then out else []) \<and> \<not> ends_replay r
    \<and> (released r \<longrightarrow> card (S \<union> set_option (sender m)) = n)"
proof (cases m)
  case (FullMsg fr rs l)
  then show ?thesis
    using full_step [of hash fr rs u out v n S k buf l] assms by simp
next
  case (RegularMsg fr rs)
  then show ?thesis
    using regular_step [of hash fr rs u out v n S k buf] assms
    by (auto intro!: exI [of _ "Regular out"])
qed

lemma replay_outputs_frame:
  "replay_outputs hash n S ms (u\<lparr>full_wait_state := w\<rparr>) =
   map_sum id (\<lambda>(res, u). (res, u\<lparr>full_wait_state := w\<rparr>)) (replay_outputs hash n S ms u)"
proof (induction ms arbitrary: S u)
  case (Cons m ms)
  show ?case
  proof (cases "union_on_input hash (msg_from m) (msg_records m) u")
    case (Inr x)
    obtain res u1 where "x = (res, u1)" by fastforce
    with Inr Cons [of "S \<union> set_option (sender m)" u1] show ?thesis
      unfolding replay_outputs_Cons on_input_frame
      by (cases "replay_outputs hash n (S \<union> set_option (sender m)) ms u1") auto
  qed (simp add: replay_outputs_Cons on_input_frame)
qed simp

lemma replay_outputs_snoc:
  "replay_outputs hash n S (ms @ [m]) u =
   try_bind (replay_outputs hash n S ms u) (\<lambda>(out, u).
     try_bind (replay_outputs hash n (S \<union> senders ms) [m] u) (\<lambda>(out', u). Inr (out @ out', u)))"
proof (induction ms arbitrary: S u)
  case Nil
  then show ?case
    by (cases "replay_outputs hash n S [m] u") (auto simp del: replay_outputs.simps(2,3))
next
  case (Cons m' ms)
  let ?S = "S \<union> set_option (sender m')"
  show ?case
  proof (cases "union_on_input hash (msg_from m') (msg_records m') u")
    case (Inr x)
    obtain res u1 where x: "x = (res, u1)" by fastforce
    have S: "?S \<union> senders ms = S \<union> senders (m' # ms)" by auto
    show ?thesis
    proof (cases "replay_outputs hash n ?S ms u1")
      case out: (Inr y)
      obtain o1 u2 where "y = (o1, u2)" by fastforce
      with Inr x out Cons [of ?S u1] show ?thesis
        unfolding append_Cons replay_outputs_Cons [of _ _ _ m'] S
        by (cases "replay_outputs hash n (S \<union> senders (m' # ms)) [m] u2")
          (auto simp del: replay_outputs.simps(2,3) senders_simps)
    qed (use Cons [of ?S u1] in \<open>simp add: replay_outputs_Cons [of _ _ _ m'] Inr x\<close>)
  qed (simp add: replay_outputs_Cons [of _ _ _ m'])
qed

lemma replay_outputs_keeps:
  "replay_outputs hash n S ms u = Inr (out, v) \<Longrightarrow> required v = required u"
proof (induction ms arbitrary: S u out)
  case (Cons m ms)
  then obtain o1 u1 o2 where "union_on_input hash (msg_from m) (msg_records m) u = Inr (o1, u1)"
      "replay_outputs hash n (S \<union> set_option (sender m)) ms u1 = Inr (o2, v)"
    unfolding replay_outputs_Cons by (auto simp: result_simps)
  then show ?case using Cons.IH on_input_keeps by metis
qed simp

lemma replay_prefix:
  assumes "replay_outputs hash n S ms u = Inr (out, v)"
    and "pieces u = []" "required u = n" "1 < n" "wait_inv n S k buf (full_wait_state u)"
    and "finite S" "card (S \<union> senders ms) \<le> n" "k + finals ms < n"
  shows "\<exists>res fw' buf'. raw_run hash ms u = Inr (res, v\<lparr>full_wait_state := fw'\<rparr>)
    \<and> wait_inv n (S \<union> senders ms) (k + finals ms) buf' fw' \<and> full_rows res @ buf' = buf @ out
    \<and> length res = length ms \<and> list_all (\<lambda>r. \<not> ends_replay r) res
    \<and> (\<forall>i < length res. released (res ! i) \<longrightarrow> card (S \<union> senders (take (Suc i) ms)) = n)"
  using assms
proof (induction ms arbitrary: S u k buf out v)
  case Nil
  then show ?case by (cases v) auto
next
  case (Cons m ms)
  let ?S = "S \<union> set_option (sender m)" and ?k = "k + (if is_final m then 1 else 0)"
  obtain o1 u1 o2 where o: "union_on_input hash (msg_from m) (msg_records m) u = Inr (o1, u1)"
      "replay_outputs hash n ?S ms u1 = Inr (o2, v)" "out = (if counted n S m then o1 else []) @ o2"
    using Cons.prems(1) unfolding replay_outputs_Cons by (auto simp: result_simps)
  have S: "?S \<union> senders ms = S \<union> senders (m # ms)" by auto
  have "card ?S \<le> card (?S \<union> senders ms)"
    by (rule card_mono) (use Cons.prems(6) in simp_all)
  then have le: "card ?S \<le> n" using Cons.prems(7) unfolding S by simp
  have "?k < n" using Cons.prems(8) by simp
  then obtain r fw' buf' where r: "raw_step hash m u = Inr (r, u1\<lparr>full_wait_state := fw'\<rparr>)"
      "wait_inv n ?S ?k buf' fw'" "full_rows [r] @ buf' = buf @ (if counted n S m then o1 else [])"
      "\<not> ends_replay r" "released r \<longrightarrow> card ?S = n"
    using message_step [OF o(1) Cons.prems(2-6) le] by blast
  have "replay_outputs hash n ?S ms (u1\<lparr>full_wait_state := fw'\<rparr>) = Inr (o2, v\<lparr>full_wait_state := fw'\<rparr>)"
    using o(2) by (simp add: replay_outputs_frame)
  then obtain res fw'' buf'' where res:
      "raw_run hash ms (u1\<lparr>full_wait_state := fw'\<rparr>) = Inr (res, v\<lparr>full_wait_state := fw''\<rparr>)"
      "wait_inv n (?S \<union> senders ms) (?k + finals ms) buf'' fw''" "full_rows res @ buf'' = buf' @ o2"
      "length res = length ms" "list_all (\<lambda>r. \<not> ends_replay r) res"
      "\<forall>i < length res. released (res ! i) \<longrightarrow> card (?S \<union> senders (take (Suc i) ms)) = n"
    using Cons.IH [of ?S "u1\<lparr>full_wait_state := fw'\<rparr>" o2 "v\<lparr>full_wait_state := fw'\<rparr>" ?k buf', simplified] Cons.prems on_input_keeps [OF o(1)]
      r(2) by (auto simp: ac_simps)
  have "full_rows (r # res) = full_rows [r] @ full_rows res" by (cases r) simp_all
  with r res o(3) S show ?case
    by (intro exI [of _ "r # res"] exI [of _ fw''] exI [of _ buf''])
      (auto simp: nth_Cons ac_simps simp del: full_rows.simps split: nat.split)
qed

lemma full_last_step:
  assumes inp: "union_on_input hash fr rs u = Inr (out, v)"
    and n: "required u = n" "1 < n" and inv: "wait_inv n S k buf (full_wait_state u)" and "Suc k = n"
  shows "union_full hash fr rs True u = Inr (FullReplay (buf @ out) True, v\<lparr>full_wait_state := FullWaitNone\<rparr>)"
proof -
  have "S \<noteq> {}" using inv n \<open>Suc k = n\<close> by (auto simp: wait_inv_def)
  then obtain st where "full_wait_state u = Ongoing st k buf"
    using inv by (auto simp: wait_inv_def)
  then show ?thesis
    using on_input_keeps [OF inp] n \<open>Suc k = n\<close> by (simp add: union_full_def inp)
qed

text \<open>
  C6. A full replay through a union that waits for \<open>n > 1\<close> parents ends. When every parent has sent replay messages
  and \<open>n\<close> of the messages, the final one among them, carry \<open>last\<close>, interleaved with any regular messages: exactly
  the last result carries \<open>last\<close>; no replay rows leave before every parent has sent its first replay message; the rows
  that leave are, in order, the outputs of the replay messages and of the regular records that had to be kept for the
  replay; and the union is back in the state of no replay.
\<close>

theorem full_replay_completes:
  assumes "ms = p @ [FullMsg fr rs True]" and "pieces u = []" "required u = n" "1 < n"
    and "full_wait_state u = FullWaitNone" and "card (senders ms) = n" "finals ms = n"
    and "replay_outputs hash n {} ms u = Inr (out, v)"
  shows "\<exists>res rows. raw_run hash ms u = Inr (res @ [FullReplay rows True], v\<lparr>full_wait_state := FullWaitNone\<rparr>)
    \<and> full_rows res @ rows = out \<and> list_all (\<lambda>r. \<not> ends_replay r) res
    \<and> (\<forall>i < length res. released (res ! i) \<longrightarrow> card (senders (take (Suc i) ms)) = n)"
proof -
  have fin: "finals (p @ ns) = finals p + finals ns" for ns :: "'a message list"
    by (simp add: finals_def)
  have ms: "senders ms = insert fr (senders p)" "finals ms = Suc (finals p)"
    using assms(1) by (auto simp: fin senders_def)
  obtain o1 u1 o2 where o: "replay_outputs hash n {} p u = Inr (o1, u1)"
      "union_on_input hash fr rs u1 = Inr (o2, v)" "out = o1 @ o2"
    using assms(8) unfolding assms(1) replay_outputs_snoc by (auto simp: result_simps)
  have "card ({} \<union> senders p) \<le> n" "0 + finals p < n"
    using ms assms(6,7) card_mono [of "senders ms" "senders p"] by (auto simp: insert_absorb)
  moreover have "wait_inv n {} 0 [] (full_wait_state u)" using assms(5) by (simp add: wait_inv_def)
  ultimately obtain res fw buf where r: "raw_run hash p u = Inr (res, u1\<lparr>full_wait_state := fw\<rparr>)"
      "wait_inv n (senders p) (finals p) buf fw" "full_rows res @ buf = o1" "length res = length p"
      "list_all (\<lambda>r. \<not> ends_replay r) res"
      "\<forall>i < length res. released (res ! i) \<longrightarrow> card (senders (take (Suc i) p)) = n"
    using replay_prefix [OF o(1) assms(2-4), of 0 "[]"] by auto
  have "required (u1\<lparr>full_wait_state := fw\<rparr>) = n"
    using replay_outputs_keeps [OF o(1)] assms(3) by simp
  then have "union_full hash fr rs True (u1\<lparr>full_wait_state := fw\<rparr>)
      = Inr (FullReplay (buf @ o2) True, v\<lparr>full_wait_state := FullWaitNone\<rparr>)"
    using full_last_step [of hash fr rs "u1\<lparr>full_wait_state := fw\<rparr>" o2 "v\<lparr>full_wait_state := fw\<rparr>" n "senders p" "finals p" buf]
      o(2) r(2) assms(4,7) ms(2) by (simp add: on_input_frame)
  then show ?thesis
    using r o(3) by (intro exI [of _ res] exI [of _ "buf @ o2"]) (simp add: assms(1) raw_run_append)
qed

theorem full_replay_completes_witness:
  "let u = (example_union UnionAll :: nat union);
       ms = [FullMsg 0 [Positive [1]] True, RegularMsg 0 [Positive [2]], FullMsg 1 [Positive [3]] True]
   in \<exists>res rows. raw_run length ms u = Inr (res @ [FullReplay rows True], u)
        \<and> full_rows res @ rows = [Positive [1], Positive [2], Positive [3]]"
proof -
  let ?u = "example_union UnionAll :: nat union"
  let ?p = "[FullMsg 0 [Positive [1]] True, RegularMsg 0 [Positive [2::nat]]]"
  let ?ms = "?p @ [FullMsg 1 [Positive [3]] True]"
  have out: "replay_outputs length 2 {} ?ms ?u = Inr ([Positive [1], Positive [2], Positive [3]], ?u)"
    by (simp add: example_union_def union_on_input_def union_project_def project_columns_def)
  have "?u\<lparr>full_wait_state := FullWaitNone\<rparr> = ?u" by (simp add: example_union_def)
  then show ?thesis
    using full_replay_completes [OF refl _ _ _ _ _ _ out]
    by (auto simp: example_union_def)
qed

subsection \<open>Buffered pieces of partial replays\<close>

definition point_and_range :: "nat buffered_replay_key \<times> nat buffered_replay_key" where
  "point_and_range =
     (\<lparr>brk_tag = 0, brk_key = KEqual [5], brk_shard = 0, brk_replica = 0\<rparr>,
      \<lparr>brk_tag = 0, brk_key = KRange (Included [3], Included [10]), brk_shard = 0, brk_replica = 0\<rparr>)"

definition tail_union :: "nat union" where
  "tail_union =
     \<lparr>union_emit = EmitProject [(0, [1, 2])] [(0, [1, 2])] [(0, 3)] [(0, 3)], bag_state = None, replay_key = [], pieces = [],
      required = 1, full_wait_state = FullWaitNone\<rparr>"


end
