(* ===== verification/Grouped.thy ===== *)
theory Grouped
  imports SortBy HashMap StateViews
begin

section \<open>Grouped operators\<close>

text \<open>
  \<open>src/readyset-dataflow/src/ops/grouped/mod.rs\<close> with the operations \<open>aggregate.rs\<close>, \<open>extremum.rs\<close> and
  \<open>concat.rs\<close>: operators that keep one row for every group of rows, the columns of the group followed by the value
  of the operation and the number of rows of the group. The trait \<open>GroupedOperation\<close> is a record; \<open>'s\<close> is the type
  of what an operation keeps in a \<open>RefCell\<close>, which \<open>apply\<close> takes and returns. Values are of any linearly ordered
  type \<open>'v\<close> with the operations of \<open>DfValue\<close> that the code calls in a record \<open>value_ops\<close>.
\<close>

record 'v value_ops =
  null :: 'v
  of_i64 :: "int \<Rightarrow> 'v"
  to_i64 :: "'v \<Rightarrow> int option"
  v_add :: "'v \<Rightarrow> 'v \<Rightarrow> df_error + 'v"
  v_sub :: "'v \<Rightarrow> 'v \<Rightarrow> df_error + 'v"
  v_div :: "'v \<Rightarrow> 'v \<Rightarrow> df_error + 'v"
  double_zero :: 'v
  numeric_zero :: 'v
  of_text :: "string \<Rightarrow> 'v"
  as_text :: "'v \<Rightarrow> string option"
  display :: "'v \<Rightarrow> string"

record ('v, 'd, 's) grouped_operation =
  op_group_by :: "nat list"
  op_to_diff :: "'v row \<Rightarrow> bool \<Rightarrow> df_error + 'd"
  op_apply :: "'s \<Rightarrow> 'v option \<Rightarrow> 'd list \<Rightarrow> df_error + 'v option \<times> 's"
  op_empty_value :: "'v option"
  op_emit_empty :: bool

record ('v, 'd, 's) grouped_operator =
  grouped_src :: nat
  grouped_inner :: "('v, 'd, 's) grouped_operation"
  grouped_us :: nat
  grouped_group_by :: "nat list"
  out_key :: "nat list"

definition grouped_new :: "nat \<Rightarrow> ('v, 'd, 's) grouped_operation \<Rightarrow> ('v, 'd, 's) grouped_operator" where
  "grouped_new src op =
     \<lparr>grouped_src = src, grouped_inner = op, grouped_us = 0, grouped_group_by = [], out_key = []\<rparr>"

definition grouped_on_connected :: "('v, 'd, 's) grouped_operator \<Rightarrow> ('v, 'd, 's) grouped_operator" where
  "grouped_on_connected g =
     (let gb = grouped_group_by g @ op_group_by (grouped_inner g)
      in g\<lparr>grouped_group_by := gb, out_key := [0..<length gb]\<rparr>)"

definition grouped_on_commit :: "nat \<Rightarrow> (nat \<Rightarrow> nat) \<Rightarrow> ('v, 'd, 's) grouped_operator \<Rightarrow> ('v, 'd, 's) grouped_operator" where
  "grouped_on_commit us remap g = g\<lparr>grouped_src := remap (grouped_src g), grouped_us := remap us\<rparr>"

definition grouped_column_source :: "('v, 'd, 's) grouped_operator \<Rightarrow> nat list \<Rightarrow> df_error + column_source" where
  "grouped_column_source g cols =
     (let mapped_cols =
        List.map_filter (\<lambda>x. if x < length (grouped_group_by g) then Some (grouped_group_by g ! x) else None) cols
      in if length mapped_cols \<noteq> length cols then Inr (RequiresFullReplay [grouped_src g])
         else exact_copy (grouped_src g) mapped_cols)"

subsection \<open>Processing a batch\<close>

definition get_group_values :: "nat list \<Rightarrow> 'v df_record \<Rightarrow> 'v list" where
  "get_group_values group_by r = map (\<lambda>i. rec r ! i) group_by"

record ('v, 's) grouped_state =
  g_misses :: "'v miss list"
  g_lookups :: "'v lookup list"
  g_out :: "'v records"
  g_cache :: 's

definition missed_group ::
    "nat \<Rightarrow> nat list \<Rightarrow> nat list \<Rightarrow> 'v::linorder replay_context \<Rightarrow> 'v records \<Rightarrow> ('v, 's) grouped_state \<Rightarrow>
     df_error + ('v, 's) grouped_state" where
  "missed_group on idx group_by ctx group_rs st =
     try_bind (try_map (\<lambda>r. miss_build on idx (LookupRecordColumns group_by) ctx None (rec r)) group_rs)
       (\<lambda>ms. Inr (st\<lparr>g_misses := g_misses st @ ms\<rparr>))"

definition note_lookup ::
    "nat \<Rightarrow> nat list \<Rightarrow> 'v replay_context \<Rightarrow> 'v list \<Rightarrow> ('v, 's) grouped_state \<Rightarrow> df_error + ('v, 's) grouped_state" where
  "note_lookup on cols ctx gkey st =
     (if is_partial ctx
      then
        (case kc_try_from gkey of
           Inl _ \<Rightarrow> Inl Internal
         | Inr key \<Rightarrow>
             Inr (st\<lparr>g_lookups := g_lookups st @ [\<lparr>lookup_on = on, lookup_cols = cols, lookup_key = key\<rparr>]\<rparr>))
      else Inr st)"

text \<open>The value of a group from all rows that the parent has for it; \<open>None\<close> for a miss in the parent.\<close>

definition recompute_group ::
    "(nat \<Rightarrow> 'v::linorder state_view option) \<Rightarrow> 'v query_through \<Rightarrow> 'v value_ops \<Rightarrow> ('v, 'd, 's) grouped_operator \<Rightarrow>
     'v replay_context \<Rightarrow> 'v list \<Rightarrow> 'v point_key \<Rightarrow> ('v, 's) grouped_state \<Rightarrow>
     df_error + 'v option \<times> ('v, 's) grouped_state" where
  "recompute_group states through ops g ctx gkey pk st =
     try_bind (ingredient_lookup states through (grouped_src g) (grouped_group_by g) pk Strict)
       (\<lambda>res. case res of
          LookupMiss \<Rightarrow> Inr (None, st)
        | LookupRecords rs \<Rightarrow>
            try_bind (note_lookup (grouped_src g) (grouped_group_by g) ctx gkey st)
              (\<lambda>st. try_bind (collect_rows rs)
                 (\<lambda>rows. try_bind (try_map (\<lambda>x. op_to_diff (grouped_inner g) x True) rows)
                    (\<lambda>diffs. try_bind (op_apply (grouped_inner g) (g_cache st) None diffs)
                       (\<lambda>(res, cache).
                          Inr (Some (case res of
                                 Some v \<Rightarrow> v
                               | None \<Rightarrow> (case op_empty_value (grouped_inner g) of Some v \<Rightarrow> v | None \<Rightarrow> null ops)),
                               st\<lparr>g_cache := cache\<rparr>))))))"

definition emit_group ::
    "'v value_ops \<Rightarrow> ('v, 'd, 's) grouped_operator \<Rightarrow> 'v list \<Rightarrow> 'v row option \<Rightarrow> 'v option \<Rightarrow> int \<Rightarrow> int \<Rightarrow> 'v \<Rightarrow> 'v records" where
  "emit_group ops g gkey old cur rows_in_group delta new =
     (let rows_in_group_new = rows_in_group + delta in
      if cur = Some new \<and> rows_in_group_new = rows_in_group then []
      else
        (case old of Some row \<Rightarrow> [Negative row] | None \<Rightarrow> []) @
        (if rows_in_group_new > 0 \<or> op_emit_empty (grouped_inner g)
         then [Positive (gkey @ [new, of_i64 ops rows_in_group_new])] else []))"

definition handle_group ::
    "(nat \<Rightarrow> 'v::linorder state_view option) \<Rightarrow> 'v query_through \<Rightarrow> 'v value_ops \<Rightarrow> ('v, 'd, 's) grouped_operator \<Rightarrow>
     'v state_view \<Rightarrow> 'v replay_context \<Rightarrow> 'v records \<Rightarrow> 'd list \<Rightarrow> int \<Rightarrow> ('v, 's) grouped_state \<Rightarrow>
     df_error + ('v, 's) grouped_state" where
  "handle_group states through ops g db ctx group_rs diffs delta st =
     (case group_rs of
        [] \<Rightarrow> Inl Panic
      | first # _ \<Rightarrow>
          let gkey = get_group_values (grouped_group_by g) first in
          try_bind (point_key_from gkey)
            (\<lambda>pk. case state_lookup db (out_key g) pk of
               LookupMissing \<Rightarrow> missed_group (grouped_us g) (out_key g) (grouped_group_by g) ctx group_rs st
             | LookupSome rs \<Rightarrow>
                 try_bind (note_lookup (grouped_us g) (out_key g) ctx gkey st)
                   (\<lambda>st.
                      let old = (case rs of [] \<Rightarrow> None | row # _ \<Rightarrow> Some row) in
                      if (case old of Some row \<Rightarrow> length row < 2 | None \<Rightarrow> False) then Inl Panic
                      else
                        let cur = map_option (\<lambda>row. row ! (length row - 2)) old;
                            rows_in_group =
                              (case old of
                                 None \<Rightarrow> 0
                               | Some row \<Rightarrow> (case to_i64 ops (last row) of Some n \<Rightarrow> n | None \<Rightarrow> 0))
                        in
                        try_bind (op_apply (grouped_inner g) (g_cache st) cur diffs)
                          (\<lambda>(res, cache).
                             let st = st\<lparr>g_cache := cache\<rparr> in
                             case res of
                               Some new \<Rightarrow>
                                 Inr (st\<lparr>g_out := g_out st @ emit_group ops g gkey old cur rows_in_group delta new\<rparr>)
                             | None \<Rightarrow>
                                 try_bind (recompute_group states through ops g ctx gkey pk st)
                                   (\<lambda>(res, st). case res of
                                      None \<Rightarrow> missed_group (grouped_src g) (grouped_group_by g) (grouped_group_by g) ctx group_rs st
                                    | Some new \<Rightarrow>
                                        Inr (st\<lparr>g_out := g_out st @ emit_group ops g gkey old cur rows_in_group delta new\<rparr>))))))"

fun grouped_loop ::
    "(nat \<Rightarrow> 'v::linorder state_view option) \<Rightarrow> 'v query_through \<Rightarrow> 'v value_ops \<Rightarrow> ('v, 'd, 's) grouped_operator \<Rightarrow>
     'v state_view \<Rightarrow> 'v replay_context \<Rightarrow> 'v records \<Rightarrow> 'v records \<Rightarrow> 'd list \<Rightarrow> int \<Rightarrow> ('v, 's) grouped_state \<Rightarrow>
     df_error + ('v, 's) grouped_state" where
  "grouped_loop states through ops g db ctx [] group_rs diffs delta st =
     handle_group states through ops g db ctx group_rs diffs delta st"
| "grouped_loop states through ops g db ctx (r # rs) group_rs diffs delta st =
     try_bind
       (if group_rs \<noteq> [] \<and>
           rs_cmp (get_group_values (grouped_group_by g) (hd group_rs)) (get_group_values (grouped_group_by g) r) \<noteq> Equal
        then try_bind (handle_group states through ops g db ctx group_rs diffs delta st) (\<lambda>st. Inr ([], [], 0, st))
        else Inr (group_rs, diffs, delta, st))
       (\<lambda>(group_rs, diffs, delta, st).
          try_bind (op_to_diff (grouped_inner g) (rec r) (is_positive r))
            (\<lambda>d. grouped_loop states through ops g db ctx rs (group_rs @ [r]) (diffs @ [d])
               (delta + (if is_positive r then 1 else - 1)) st))"

text \<open>A row without one of the group columns panics, in the sort or when its group is closed.\<close>

definition grouped_on_input ::
    "(nat \<Rightarrow> 'v::linorder state_view option) \<Rightarrow> 'v query_through \<Rightarrow> 'v value_ops \<Rightarrow> ('v, 'd, 's) grouped_operator \<Rightarrow>
     'v replay_context \<Rightarrow> 'v records \<Rightarrow> 's \<Rightarrow> df_error + 'v processing_result \<times> 's" where
  "grouped_on_input states through ops g ctx rs cache =
     (if rs = [] then Inr (\<lparr>results = rs, misses = [], lookups = []\<rparr>, cache)
      else if \<not> list_all (\<lambda>r. list_all (\<lambda>i. i < length (rec r)) (grouped_group_by g)) rs then Inl Panic
      else
        let rs = sort_by (\<lambda>a b. rs_cmp (get_group_values (grouped_group_by g) a)
                                       (get_group_values (grouped_group_by g) b)) rs
        in case states (grouped_us g) of
             None \<Rightarrow> Inl Internal
           | Some db \<Rightarrow>
               try_bind
                 (grouped_loop states through ops g db ctx rs [] [] 0
                    \<lparr>g_misses = [], g_lookups = [], g_out = [], g_cache = cache\<rparr>)
                 (\<lambda>st. Inr (\<lparr>results = g_out st, misses = g_misses st, lookups = g_lookups st\<rparr>, g_cache st)))"

subsection \<open>Counts, sums and averages\<close>

datatype aggregation = Count | Sum | Avg | GroupConcatAgg string

datatype out_type = BigInt | DoubleType | NumericType | TextType | OtherType

record aggregator =
  agg_op :: aggregation
  agg_over :: nat
  agg_group :: "nat list"
  agg_out_ty :: out_type

record 'v numerical_diff =
  diff_value :: 'v
  diff_positive :: bool
  diff_group_hash :: nat

record 'v average_data_pair =
  avg_count :: 'v
  avg_sum :: 'v

definition agg_over_type :: "aggregation \<Rightarrow> bool \<Rightarrow> out_type" where
  "agg_over_type op is_any_float =
     (case op of
        Count \<Rightarrow> BigInt
      | Sum \<Rightarrow> if is_any_float then DoubleType else NumericType
      | Avg \<Rightarrow> if is_any_float then DoubleType else NumericType
      | GroupConcatAgg _ \<Rightarrow> TextType)"

definition aggregation_over :: "aggregation \<Rightarrow> nat \<Rightarrow> nat list \<Rightarrow> bool \<Rightarrow> aggregator" where
  "aggregation_over op over group_by is_any_float =
     \<lparr>agg_op = op, agg_over = over, agg_group = group_by, agg_out_ty = agg_over_type op is_any_float\<rparr>"

definition agg_setup :: "nat \<Rightarrow> aggregator \<Rightarrow> df_error + unit" where
  "agg_setup parent_columns a = (if agg_over a < parent_columns then Inr () else Inl Internal)"

definition pair_apply_diff ::
    "'v::linorder value_ops \<Rightarrow> 'v numerical_diff \<Rightarrow> 'v average_data_pair \<Rightarrow> df_error + 'v \<times> 'v average_data_pair" where
  "pair_apply_diff ops d p =
     (let f = (if diff_positive d then v_add ops else v_sub ops) in
      try_bind (f (avg_sum p) (diff_value d))
        (\<lambda>sum. try_bind (f (avg_count p) (of_i64 ops 1))
           (\<lambda>count. let p = \<lparr>avg_count = count, avg_sum = sum\<rparr> in
              if count > of_i64 ops 0 then try_bind (v_div ops sum count) (\<lambda>v. Inr (v, p))
              else Inr (double_zero ops, p))))"

definition new_data :: "'v value_ops \<Rightarrow> aggregator \<Rightarrow> df_error + 'v" where
  "new_data ops a =
     (case agg_out_ty a of
        BigInt \<Rightarrow> Inr (of_i64 ops 0)
      | DoubleType \<Rightarrow> Inr (double_zero ops)
      | NumericType \<Rightarrow> Inr (numeric_zero ops)
      | TextType \<Rightarrow> Inr (of_text ops '''')
      | OtherType \<Rightarrow> Inl Internal)"

text \<open>The hash of the group columns, \<open>hash\<close>, is a parameter.\<close>

definition agg_to_diff :: "('v list \<Rightarrow> nat) \<Rightarrow> aggregator \<Rightarrow> 'v row \<Rightarrow> bool \<Rightarrow> df_error + 'v numerical_diff" where
  "agg_to_diff hash a row pos =
     (if agg_over a < length row \<and> list_all (\<lambda>i. i < length row) (agg_group a)
      then Inr \<lparr>diff_value = row ! agg_over a, diff_positive = pos, diff_group_hash = hash (map ((!) row) (agg_group a))\<rparr>
      else Inl Panic)"

type_synonym 'v count_sum_map = "(nat \<times> 'v average_data_pair) list"

definition apply_diff ::
    "'v::linorder value_ops \<Rightarrow> aggregator \<Rightarrow> 'v numerical_diff \<Rightarrow> 'v \<times> 'v count_sum_map \<Rightarrow> df_error + 'v \<times> 'v count_sum_map" where
  "apply_diff ops a d = (\<lambda>(curr, cache).
     if diff_value d = null ops then Inr (curr, cache)
     else
       (case agg_op a of
          Count \<Rightarrow>
            try_bind ((if diff_positive d then v_add ops else v_sub ops) curr (of_i64 ops 1)) (\<lambda>v. Inr (v, cache))
        | Sum \<Rightarrow>
            try_bind ((if diff_positive d then v_add ops else v_sub ops) curr (diff_value d)) (\<lambda>v. Inr (v, cache))
        | Avg \<Rightarrow>
            let p = (case hm_get cache (diff_group_hash d) of
                       Some p \<Rightarrow> p
                     | None \<Rightarrow> \<lparr>avg_count = of_i64 ops 0, avg_sum = double_zero ops\<rparr>)
            in try_bind (pair_apply_diff ops d p) (\<lambda>(v, p). Inr (v, hm_insert (diff_group_hash d) p cache))
        | GroupConcatAgg _ \<Rightarrow> Inl Internal))"

fun apply_diffs ::
    "'v::linorder value_ops \<Rightarrow> aggregator \<Rightarrow> 'v numerical_diff list \<Rightarrow> 'v \<times> 'v count_sum_map \<Rightarrow> df_error + 'v \<times> 'v count_sum_map" where
  "apply_diffs ops a [] st = Inr st"
| "apply_diffs ops a (d # ds) st = try_bind (apply_diff ops a d st) (apply_diffs ops a ds)"

definition agg_apply ::
    "'v::linorder value_ops \<Rightarrow> aggregator \<Rightarrow> 'v count_sum_map \<Rightarrow> 'v option \<Rightarrow> 'v numerical_diff list \<Rightarrow>
     df_error + 'v option \<times> 'v count_sum_map" where
  "agg_apply ops a cache cur diffs =
     try_bind (new_data ops a)
       (\<lambda>zero. try_bind (apply_diffs ops a diffs (case cur of Some v \<Rightarrow> v | None \<Rightarrow> zero, cache))
          (\<lambda>(v, cache). Inr (Some v, cache)))"

definition agg_empty_value :: "'v value_ops \<Rightarrow> aggregator \<Rightarrow> 'v option" where
  "agg_empty_value ops a = (case agg_op a of Count \<Rightarrow> Some (of_i64 ops 0) | _ \<Rightarrow> None)"

definition agg_emit_empty :: "aggregator \<Rightarrow> bool" where
  "agg_emit_empty a = (case agg_op a of Count \<Rightarrow> agg_group a = [] | GroupConcatAgg _ \<Rightarrow> agg_group a = [] | _ \<Rightarrow> False)"

definition aggregator_operation ::
    "('v::linorder list \<Rightarrow> nat) \<Rightarrow> 'v value_ops \<Rightarrow> aggregator \<Rightarrow> ('v, 'v numerical_diff, 'v count_sum_map) grouped_operation" where
  "aggregator_operation hash ops a =
     \<lparr>op_group_by = agg_group a, op_to_diff = agg_to_diff hash a, op_apply = agg_apply ops a,
      op_empty_value = agg_empty_value ops a, op_emit_empty = agg_emit_empty a\<rparr>"

subsection \<open>Minimum and maximum\<close>

datatype extremum = ExtMin | ExtMax

record extremum_operator =
  ext_op :: extremum
  ext_over :: nat
  ext_group :: "nat list"

datatype 'v diff_type = DiffInsert 'v | DiffRemove 'v | DiffNone

definition ext_to_diff :: "'v value_ops \<Rightarrow> extremum_operator \<Rightarrow> 'v row \<Rightarrow> bool \<Rightarrow> df_error + 'v diff_type" where
  "ext_to_diff ops e row pos =
     (if ext_over e < length row
      then
        let v = row ! ext_over e in
        Inr (if v = null ops then DiffNone else if pos then DiffInsert v else DiffRemove v)
      else Inl Panic)"

definition is_extreme_value :: "extremum \<Rightarrow> 'v::linorder option \<Rightarrow> 'v \<Rightarrow> bool" where
  "is_extreme_value op cur x =
     (case cur of
        Some n \<Rightarrow> (case op of ExtMax \<Rightarrow> n \<le> x | ExtMin \<Rightarrow> x \<le> n)
      | None \<Rightarrow> True)"

definition swap_remove :: "nat \<Rightarrow> 'a list \<Rightarrow> 'a list" where
  "swap_remove i xs = butlast (xs[i := last xs])"

fun position_of :: "'a \<Rightarrow> 'a list \<Rightarrow> nat option" where
  "position_of x [] = None"
| "position_of x (y # ys) = (if y = x then Some 0 else map_option Suc (position_of x ys))"

fun extreme_step :: "extremum \<Rightarrow> 'v::linorder option \<Rightarrow> 'v diff_type \<Rightarrow> 'v list \<Rightarrow> 'v list" where
  "extreme_step op cur (DiffInsert v) vs = (if is_extreme_value op cur v then vs @ [v] else vs)"
| "extreme_step op cur (DiffRemove v) vs =
     (if is_extreme_value op cur v
      then (case position_of v vs of Some i \<Rightarrow> swap_remove i vs | None \<Rightarrow> vs)
      else vs)"
| "extreme_step op cur DiffNone vs = vs"

definition ext_apply ::
    "extremum_operator \<Rightarrow> unit \<Rightarrow> 'v::linorder option \<Rightarrow> 'v diff_type list \<Rightarrow> df_error + 'v option \<times> unit" where
  "ext_apply e cache cur diffs =
     (let vs = fold (extreme_step (ext_op e) cur) diffs (case cur of Some d \<Rightarrow> [d] | None \<Rightarrow> []) in
      Inr (if vs = [] then None
           else Some (case ext_op e of ExtMin \<Rightarrow> fold min (tl vs) (hd vs) | ExtMax \<Rightarrow> fold max (tl vs) (hd vs)), ()))"

definition extremum_operation ::
    "'v::linorder value_ops \<Rightarrow> extremum_operator \<Rightarrow> ('v, 'v diff_type, unit) grouped_operation" where
  "extremum_operation ops e =
     \<lparr>op_group_by = ext_group e, op_to_diff = ext_to_diff ops e, op_apply = ext_apply e,
      op_empty_value = None, op_emit_empty = False\<rparr>"

subsection \<open>Concatenation\<close>

record 'v last_state =
  string_repr :: string
  ls_data :: "'v list"

record group_concat =
  gc_source_col :: nat
  gc_group_by :: "nat list"
  gc_separator :: string

record 'v concat_diff =
  cd_value :: 'v
  cd_positive :: bool
  cd_group_by :: "'v list"

type_synonym 'v concat_cache = "('v list \<times> 'v last_state) list"

definition concat_fmt :: "'v value_ops \<Rightarrow> 'v \<Rightarrow> string" where
  "concat_fmt ops v = (case as_text ops v of Some t \<Rightarrow> t | None \<Rightarrow> display ops v)"

definition concat_to_diff :: "group_concat \<Rightarrow> 'v row \<Rightarrow> bool \<Rightarrow> df_error + 'v concat_diff" where
  "concat_to_diff c row pos =
     (if gc_source_col c < length row
      then
        (case cloned_indices row (gc_group_by c) of
           Inl _ \<Rightarrow> Inl InvalidRecordLength
         | Inr g \<Rightarrow> Inr \<lparr>cd_value = row ! gc_source_col c, cd_positive = pos, cd_group_by = g\<rparr>)
      else Inl InvalidRecordLength)"

text \<open>\<open>rposition\<close> and \<open>remove\<close>: drop the last occurrence of a value, if there is one.\<close>

definition remove_last :: "'a \<Rightarrow> 'a list \<Rightarrow> 'a list option" where
  "remove_last x xs = (if x \<in> set xs then Some (rev (remove1 x (rev xs))) else None)"

fun concat_diffs :: "'v list \<Rightarrow> 'v concat_diff list \<Rightarrow> 'v list \<Rightarrow> df_error + 'v list" where
  "concat_diffs gkey [] vs = Inr vs"
| "concat_diffs gkey (d # ds) vs =
     (if cd_group_by d \<noteq> gkey then Inl Internal
      else if cd_positive d then concat_diffs gkey ds (vs @ [cd_value d])
      else
        (case remove_last (cd_value d) vs of
           Some vs \<Rightarrow> concat_diffs gkey ds vs
         | None \<Rightarrow> Inl Internal))"

fun join_strings :: "string \<Rightarrow> string list \<Rightarrow> string" where
  "join_strings sep [] = ''''"
| "join_strings sep [s] = s"
| "join_strings sep (s # ss) = s @ sep @ join_strings sep ss"

definition concat_apply ::
    "'v value_ops \<Rightarrow> group_concat \<Rightarrow> 'v concat_cache \<Rightarrow> 'v option \<Rightarrow> 'v concat_diff list \<Rightarrow>
     df_error + 'v option \<times> 'v concat_cache" where
  "concat_apply ops c cache cur diffs =
     (let cur_text = (case cur of Some v \<Rightarrow> as_text ops v | None \<Rightarrow> None) in
      case diffs of
        [] \<Rightarrow> Inl Internal
      | first # _ \<Rightarrow>
          let gkey = cd_group_by first;
              ls = hm_get cache gkey;
              cache = hm_remove gkey cache;
              continue = (\<lambda>prev. try_bind (concat_diffs gkey diffs (ls_data prev))
                (\<lambda>vs. let out_str = join_strings (gc_separator c) (map (concat_fmt ops) vs)
                      in Inr (Some (of_text ops out_str),
                              hm_insert gkey \<lparr>string_repr = out_str, ls_data = vs\<rparr> cache)))
          in
          (case cur_text of
             Some text \<Rightarrow>
               (case ls of
                  Some prev \<Rightarrow> if text = string_repr prev then continue prev else Inr (None, cache)
                | None \<Rightarrow> Inr (None, cache))
           | None \<Rightarrow> continue \<lparr>string_repr = '''', ls_data = []\<rparr>))"

definition concat_operation ::
    "'v value_ops \<Rightarrow> group_concat \<Rightarrow> ('v, 'v concat_diff, 'v concat_cache) grouped_operation" where
  "concat_operation ops c =
     \<lparr>op_group_by = gc_group_by c, op_to_diff = concat_to_diff c, op_apply = concat_apply ops c,
      op_empty_value = Some (of_text ops ''''), op_emit_empty = False\<rparr>"

end
