(* ===== verification/GroupedProps.thy ===== *)
theory GroupedProps
  imports Grouped
begin

section \<open>Correctness of the grouped operators\<close>

text \<open>
  The specification of a grouped operator over a multiset of input rows has one row for every group of rows: the group
  columns, the aggregate of the rows, and their number. The locale \<open>group_aggregate\<close> is the contract between
  \<open>GroupedOperator\<close> and an operation: whatever \<open>apply\<close> returns for the changes of a group is the aggregate of the
  changed rows, or the operation asks for all rows. The operator is proved once in the locale; the operations are
  instances of it.
\<close>

definition columns :: "nat list \<Rightarrow> 'v row \<Rightarrow> 'v list" where
  "columns gb row = map ((!) row) gb"

definition rows_of :: "nat list \<Rightarrow> 'v list \<Rightarrow> 'v row multiset \<Rightarrow> 'v row multiset" where
  "rows_of gb h M = filter_mset (\<lambda>row. columns gb row = h) M"

definition group_view :: "'v value_ops \<Rightarrow> ('v row multiset \<Rightarrow> 'v) \<Rightarrow> 'v row multiset \<Rightarrow> 'v list \<Rightarrow> 'v row multiset" where
  "group_view ops agg N h = (if N = {#} then {#} else {#h @ [agg N, of_i64 ops (int (size N))]#})"

definition grouped_view ::
    "'v value_ops \<Rightarrow> ('v row multiset \<Rightarrow> 'v) \<Rightarrow> nat list \<Rightarrow> ('v list \<Rightarrow> bool) \<Rightarrow> 'v row multiset \<Rightarrow> 'v row multiset" where
  "grouped_view ops agg gb P M = (\<Sum>h\<in>{h \<in> columns gb ` set_mset M. P h}. group_view ops agg (rows_of gb h M) h)"

lemma get_group_values_columns: "get_group_values gb r = columns gb (rec r)"
  by (simp add: get_group_values_def columns_def)

abbreviation of_group :: "nat list \<Rightarrow> 'v list \<Rightarrow> 'v records \<Rightarrow> 'v records" where
  "of_group gb h rs \<equiv> filter (\<lambda>r. columns gb (rec r) = h) rs"

abbreviation group_keys :: "nat list \<Rightarrow> 'v records \<Rightarrow> 'v list set" where
  "group_keys gb rs \<equiv> (\<lambda>r. columns gb (rec r)) ` set rs"

subsection \<open>The view of all groups\<close>

lemma filter_mset_sum: "filter_mset Q (\<Sum>x\<in>A. f x) = (\<Sum>x\<in>A. filter_mset Q (f x))"
  by (induction A rule: infinite_finite_induct) simp_all

lemma group_view_empty [simp]: "group_view ops agg {#} h = {#}"
  by (simp add: group_view_def)

lemma rows_of_empty: "h \<notin> columns gb ` set_mset M \<Longrightarrow> rows_of gb h M = {#}"
  by (auto simp: rows_of_def multiset_eq_iff count_eq_zero_iff)

lemma grouped_view_superset:
  assumes "finite G" "columns gb ` set_mset M \<subseteq> G"
  shows "grouped_view ops agg gb P M = (\<Sum>h\<in>{h \<in> G. P h}. group_view ops agg (rows_of gb h M) h)"
  unfolding grouped_view_def
proof (rule sum.mono_neutral_left)
  show "\<forall>h\<in>{h \<in> G. P h} - {h \<in> columns gb ` set_mset M. P h}. group_view ops agg (rows_of gb h M) h = {#}"
  proof
    fix h assume "h \<in> {h \<in> G. P h} - {h \<in> columns gb ` set_mset M. P h}"
    then have "h \<notin> columns gb ` set_mset M" by blast
    then show "group_view ops agg (rows_of gb h M) h = {#}" by (simp add: rows_of_empty)
  qed
qed (use assms in auto)

lemma cloned_indices_prefix: "cloned_indices (h @ xs) [0..<length h] = Inr h"
proof -
  have "try_map (\<lambda>i. if i < length (h @ xs) then Inr ((h @ xs) ! i) else Inl i) [0..<length h] = Inr (map (\<lambda>i. (h @ xs) ! i) [0..<length h])"
    by (rule try_map_all_Inr) simp
  moreover have "map (\<lambda>i. (h @ xs) ! i) [0..<length h] = h" by (intro nth_equalityI) (simp_all add: nth_append)
  ultimately show ?thesis unfolding cloned_indices_def by metis
qed

lemma cloned_indices_columns:
  "\<forall>i\<in>set gb. i < length row \<Longrightarrow> cloned_indices row gb = Inr (columns gb row)"
  unfolding cloned_indices_def columns_def by (rule try_map_all_Inr) simp

lemma grouped_view_lookup:
  assumes "length h = length gb"
  shows "filter_mset (\<lambda>row. cloned_indices row [0..<length gb] = Inr h) (grouped_view ops agg gb (\<lambda>_. True) M) =
    group_view ops agg (rows_of gb h M) h"
proof -
  have "filter_mset (\<lambda>row. cloned_indices row [0..<length gb] = Inr h) (group_view ops agg (rows_of gb h' M) h') =
      (if h' = h then group_view ops agg (rows_of gb h M) h else {#})" if "h' \<in> columns gb ` set_mset M" for h'
  proof -
    have "length h' = length gb" using that by (auto simp: columns_def)
    then show ?thesis using cloned_indices_prefix [of h'] by (auto simp: group_view_def)
  qed
  then have "filter_mset (\<lambda>row. cloned_indices row [0..<length gb] = Inr h) (grouped_view ops agg gb (\<lambda>_. True) M) =
      (\<Sum>h'\<in>columns gb ` set_mset M. if h' = h then group_view ops agg (rows_of gb h M) h else {#})"
    by (simp add: grouped_view_def filter_mset_sum cong: sum.cong)
  also have "\<dots> = group_view ops agg (rows_of gb h M) h" by (auto simp: rows_of_empty)
  finally show ?thesis .
qed

lemma rows_of_apply: "rows_of gb h (apply_records M rs) = apply_records (rows_of gb h M) (of_group gb h rs)"
  unfolding rows_of_def by (rule apply_records_filter)

text \<open>
  The environment of a group \<open>h\<close> that holds the rows \<open>N\<close>, while the batch changes it by \<open>rs\<close>: a present group is
  answered with its row by the state of the operator and with the changed rows by the parent.
\<close>

definition group_ready ::
    "(nat \<Rightarrow> 'v state_view option) \<Rightarrow> 'v query_through \<Rightarrow> 'v value_ops \<Rightarrow> ('v row multiset \<Rightarrow> 'v) \<Rightarrow>
     ('v, 'd, 's) grouped_operator \<Rightarrow> 'v state_view \<Rightarrow> ('v list \<Rightarrow> bool) \<Rightarrow> 'v row multiset \<Rightarrow> 'v records \<Rightarrow> 'v list \<Rightarrow> bool" where
  "group_ready states through ops agg g db P N rs h \<longleftrightarrow>
     (\<exists>pk. point_key_from h = Inr pk \<and>
        (if P h
         then \<exists>old rows. state_lookup db (out_key g) pk = LookupSome old \<and> mset old = group_view ops agg N h \<and>
           ingredient_lookup states through (grouped_src g) (grouped_group_by g) pk Strict = Inr (lookup_records rows) \<and>
           mset rows = apply_records N rs
         else state_lookup db (out_key g) pk = LookupMissing))"

subsection \<open>The contract of an operation\<close>

locale group_aggregate =
  fixes ops :: "'v::linorder value_ops"
    and op :: "('v, 'd, 's) grouped_operation"
    and agg :: "'v row multiset \<Rightarrow> 'v"
    and good :: "'v row multiset \<Rightarrow> bool"
  assumes good_mono: "\<lbrakk>good M; N \<subseteq># M\<rbrakk> \<Longrightarrow> good N"
    and to_diff_ok: "\<lbrakk>good M; row \<in># M\<rbrakk> \<Longrightarrow> \<exists>d. op_to_diff op row pos = Inr d"
    and apply_ok: "\<lbrakk>good (M + positives rs); in_order M rs; try_map (\<lambda>r. op_to_diff op (rec r) (is_positive r)) rs = Inr ds\<rbrakk>
      \<Longrightarrow> \<exists>res s'. op_apply op s (if M = {#} then None else Some (agg M)) ds = Inr (res, s') \<and>
          (\<forall>v. res = Some v \<longrightarrow> apply_records M rs \<noteq> {#} \<longrightarrow> v = agg (apply_records M rs))"
    and recompute_ok: "\<lbrakk>good (mset rows); try_map (\<lambda>row. op_to_diff op row True) rows = Inr ds\<rbrakk>
      \<Longrightarrow> \<exists>res s'. op_apply op s None ds = Inr (res, s') \<and>
          (rows \<noteq> [] \<longrightarrow>
             (case res of Some v \<Rightarrow> v | None \<Rightarrow> (case op_empty_value op of Some v \<Rightarrow> v | None \<Rightarrow> null ops)) = agg (mset rows))"
    and no_empty: "op_emit_empty op = False"
    and counts: "\<lbrakk>good M; n \<le> size M\<rbrakk> \<Longrightarrow> to_i64 ops (of_i64 ops (int n)) = Some (int n)"
begin

lemma emit_group_effect:
  assumes g: "grouped_inner g = op" and ord: "in_order N grs" and new: "apply_records N grs \<noteq> {#} \<longrightarrow> v = agg (apply_records N grs)"
    and old: "old = (if N = {#} then None else Some (h @ [agg N, of_i64 ops (int (size N))]))"
    and cur: "cur = (if N = {#} then None else Some (agg N))" and "grs \<noteq> []" "n = int (size N)"
  defines "em \<equiv> emit_group ops g h old cur n (net grs) v"
  shows "group_view ops agg N h + positives em = group_view ops agg (apply_records N grs) h + negatives em"
proof -
  let ?N' = "apply_records N grs"
  have size: "int (size ?N') = n + net grs" using in_order_size [OF ord] \<open>n = int (size N)\<close> by simp
  then have empty: "n + net grs > 0 \<longleftrightarrow> ?N' \<noteq> {#}"
    by (metis of_nat_0_less_iff size_eq_0_iff_empty gr0I less_irrefl size_empty of_nat_0)
  show ?thesis
  proof (cases "cur = Some v \<and> n + net grs = n")
    case True
    then have "N \<noteq> {#}" "v = agg N" "size ?N' = size N" using cur size \<open>n = int (size N)\<close> by (auto split: if_splits)
    then have "?N' \<noteq> {#}" by (metis size_eq_0_iff_empty)
    with True new \<open>N \<noteq> {#}\<close> \<open>v = agg N\<close> \<open>size ?N' = size N\<close> show ?thesis
      by (simp add: em_def emit_group_def Let_def group_view_def)
  next
    case False
    then show ?thesis
      using new old cur empty size no_empty g
      by (auto simp: em_def emit_group_def Let_def group_view_def)
  qed
qed

lemma apply_records_sub: "apply_records M rs \<subseteq># M + positives rs"
  by (simp add: apply_records_def)

lemma note_lookup_regular [simp]: "\<not> is_partial ctx \<Longrightarrow> note_lookup on cols ctx h st = Inr st"
  by (simp add: note_lookup_def)

lemma to_diffs_ok: "good (mset rows) \<Longrightarrow> \<exists>ds. try_map (\<lambda>row. op_to_diff op row True) rows = Inr ds"
proof (induction rows)
  case (Cons row rows)
  then have "good (mset rows)" using good_mono by (metis mset.simps(2) mset_subset_eq_add_right add_mset_add_single union_commute)
  with Cons to_diff_ok [OF Cons.prems, of row True] show ?case by fastforce
qed simp

lemma recompute_group_value:
  assumes "grouped_inner g = op" "\<not> is_partial ctx"
    and "ingredient_lookup states through (grouped_src g) (grouped_group_by g) pk Strict = Inr (lookup_records rows)"
    and good: "good (mset rows)"
  shows "\<exists>v s'. recompute_group states through ops g ctx h pk st = Inr (Some v, st\<lparr>g_cache := s'\<rparr>) \<and>
    (rows \<noteq> [] \<longrightarrow> v = agg (mset rows))"
proof -
  obtain ds where ds: "try_map (\<lambda>row. op_to_diff op row True) rows = Inr ds" using to_diffs_ok [OF good] by blast
  obtain res s' where "op_apply op (g_cache st) None ds = Inr (res, s')"
    "rows \<noteq> [] \<longrightarrow> (case res of Some v \<Rightarrow> v | None \<Rightarrow> (case op_empty_value op of Some v \<Rightarrow> v | None \<Rightarrow> null ops)) = agg (mset rows)"
    using recompute_ok [OF good ds] by blast
  with ds assms(1-3) show ?thesis by (auto simp: recompute_group_def lookup_records_def)
qed

lemma handle_group_present:
  assumes g: "grouped_inner g = op" and ctx: "\<not> is_partial ctx"
    and grs: "grs \<noteq> []" "columns (grouped_group_by g) (rec (hd grs)) = h"
    and pk: "point_key_from h = Inr pk"
    and db: "state_lookup db (out_key g) pk = LookupSome rs" "mset rs = group_view ops agg N h"
    and good: "good (N + positives grs)" and ord: "in_order N grs"
    and ds: "try_map (\<lambda>r. op_to_diff op (rec r) (is_positive r)) grs = Inr ds"
    and parent: "ingredient_lookup states through (grouped_src g) (grouped_group_by g) pk Strict = Inr (lookup_records rows)"
      "mset rows = apply_records N grs"
  shows "\<exists>em s'. handle_group states through ops g db ctx grs ds (net grs) st = Inr (st\<lparr>g_out := g_out st @ em, g_cache := s'\<rparr>)
    \<and> group_view ops agg N h + positives em = group_view ops agg (apply_records N grs) h + negatives em"
proof -
  let ?old = "if N = {#} then None else Some (h @ [agg N, of_i64 ops (int (size N))])"
  let ?cur = "if N = {#} then None else Some (agg N)"
  let ?em = "\<lambda>v. emit_group ops g h ?old ?cur (int (size N)) (net grs) v"
  have rs: "rs = (case ?old of None \<Rightarrow> [] | Some row \<Rightarrow> [row])"
    using db(2) by (auto simp: group_view_def split: if_splits)
  have goodN: "good N" using good_mono [OF good] by simp
  have count: "N \<noteq> {#} \<Longrightarrow> to_i64 ops (of_i64 ops (int (size N))) = Some (int (size N))"
    using counts [OF goodN] by simp
  obtain res s' where res: "op_apply op (g_cache st) ?cur ds = Inr (res, s')"
      "\<And>v. \<lbrakk>res = Some v; apply_records N grs \<noteq> {#}\<rbrakk> \<Longrightarrow> v = agg (apply_records N grs)"
    using apply_ok [OF good ord ds] by blast
  have handle: "handle_group states through ops g db ctx grs ds (net grs) st =
      (let st = st\<lparr>g_cache := s'\<rparr>; emit = (\<lambda>st v. Inr (st\<lparr>g_out := g_out st @ emit_group ops g h ?old ?cur (int (size N)) (net grs) v\<rparr>))
       in case res of
            Some v \<Rightarrow> emit st v
          | None \<Rightarrow> try_bind (recompute_group states through ops g ctx h pk st)
              (\<lambda>(res, st). case res of
                 None \<Rightarrow> missed_group (grouped_src g) (grouped_group_by g) (grouped_group_by g) ctx grs st
               | Some v \<Rightarrow> emit st v))"
  proof (cases "N = {#}")
    case True
    with rs have "rs = []" by simp
    with True show ?thesis
      using grs pk db(1) ctx res(1) g
      by (cases grs) (auto simp: handle_group_def get_group_values_columns Let_def)
  next
    case False
    with rs have "rs = [h @ [agg N, of_i64 ops (int (size N))]]" by simp
    with False show ?thesis
      using grs pk db(1) ctx res(1) g count
      by (cases grs) (auto simp: handle_group_def get_group_values_columns nth_append Let_def)
  qed
  show ?thesis
  proof (cases res)
    case (Some v)
    have "group_view ops agg N h + positives (?em v) = group_view ops agg (apply_records N grs) h + negatives (?em v)"
      by (rule emit_group_effect [OF g ord _ refl refl grs(1) refl]) (use res(2) [OF Some] in simp)
    moreover have "handle_group states through ops g db ctx grs ds (net grs) st = Inr (st\<lparr>g_out := g_out st @ ?em v, g_cache := s'\<rparr>)"
      using handle Some by (simp add: Let_def)
    ultimately show ?thesis by blast
  next
    case None
    have "good (mset rows)" unfolding parent(2) by (rule good_mono [OF good apply_records_sub])
    then obtain v s'' where v: "recompute_group states through ops g ctx h pk (st\<lparr>g_cache := s'\<rparr>) = Inr (Some v, st\<lparr>g_cache := s''\<rparr>)"
        "rows \<noteq> [] \<longrightarrow> v = agg (mset rows)"
      using recompute_group_value [OF g ctx parent(1), of h "st\<lparr>g_cache := s'\<rparr>"] by auto
    have "apply_records N grs \<noteq> {#} \<longrightarrow> v = agg (apply_records N grs)"
      using v(2) parent(2) by auto
    then have "group_view ops agg N h + positives (?em v) = group_view ops agg (apply_records N grs) h + negatives (?em v)"
      by (rule emit_group_effect [OF g ord _ refl refl grs(1) refl])
    moreover have "handle_group states through ops g db ctx grs ds (net grs) st = Inr (st\<lparr>g_out := g_out st @ ?em v, g_cache := s''\<rparr>)"
      using handle None v(1) by (simp add: Let_def)
    ultimately show ?thesis by blast
  qed
qed

lemma handle_group_missing:
  assumes "\<not> is_partial ctx" "grs \<noteq> []" "columns (grouped_group_by g) (rec (hd grs)) = h"
    and "point_key_from h = Inr pk" "state_lookup db (out_key g) pk = LookupMissing"
  shows "\<exists>ms. handle_group states through ops g db ctx grs ds n st = Inr (st\<lparr>g_misses := g_misses st @ ms\<rparr>)
    \<and> map miss_record ms = map rec grs"
proof -
  let ?miss = "\<lambda>r. \<lparr>miss_on = grouped_us g, miss_lookup_idx = out_key g,
    miss_lookup_key = LookupRecordColumns (grouped_group_by g), miss_replay_key = None, miss_record = rec r\<rparr>"
  have "miss_build (grouped_us g) (out_key g) (LookupRecordColumns (grouped_group_by g)) ctx None (rec r) = Inr (?miss r)" for r
    using assms(1) by (cases ctx) (simp_all add: miss_build_def)
  then have "try_map (\<lambda>r. miss_build (grouped_us g) (out_key g) (LookupRecordColumns (grouped_group_by g)) ctx None (rec r)) grs
      = Inr (map ?miss grs)"
    by (intro try_map_all_Inr)
  then show ?thesis
    using assms(2-5) by (cases grs) (auto simp: handle_group_def get_group_values_columns missed_group_def)
qed

lemma handle_group_effect:
  assumes g: "grouped_inner g = op" "grouped_group_by g = gb" and ctx: "\<not> is_partial ctx"
    and env: "group_ready states through ops agg g db P N grs k"
    and good: "good (N + positives grs)" "in_order N grs"
    and grs: "grs \<noteq> []" "\<forall>r\<in>set grs. columns gb (rec r) = k"
    and ds: "try_map (\<lambda>r. op_to_diff op (rec r) (is_positive r)) grs = Inr ds"
  shows "\<exists>st' em ms. handle_group states through ops g db ctx grs ds (net grs) st = Inr st' \<and>
    g_out st' = g_out st @ em \<and> g_misses st' = g_misses st @ ms \<and>
    (if P k then group_view ops agg N k else {#}) + positives em =
    (if P k then group_view ops agg (apply_records N grs) k else {#}) + negatives em \<and>
    map miss_record ms = map rec (filter (\<lambda>r. \<not> P (columns gb (rec r))) grs)"
proof -
  have hd: "columns (grouped_group_by g) (rec (hd grs)) = k" using grs g(2) by simp
  show ?thesis
  proof (cases "P k")
    case True
    then obtain pk rs rows where pk: "point_key_from k = Inr pk"
        "state_lookup db (out_key g) pk = LookupSome rs" "mset rs = group_view ops agg N k"
        "ingredient_lookup states through (grouped_src g) (grouped_group_by g) pk Strict = Inr (lookup_records rows)"
        "mset rows = apply_records N grs"
      using env by (auto simp: group_ready_def)
    then obtain em s' where "handle_group states through ops g db ctx grs ds (net grs) st = Inr (st\<lparr>g_out := g_out st @ em, g_cache := s'\<rparr>)"
        "group_view ops agg N k + positives em = group_view ops agg (apply_records N grs) k + negatives em"
      using handle_group_present [OF g(1) ctx grs(1) hd pk(1-3) good ds pk(4,5)] by blast
    moreover have "filter (\<lambda>r. \<not> P (columns gb (rec r))) grs = []" using grs(2) True by (auto simp: filter_empty_conv)
    ultimately show ?thesis using True by (auto intro!: exI [of _ em] exI [of _ "[]"])
  next
    case False
    then obtain pk where "point_key_from k = Inr pk" "state_lookup db (out_key g) pk = LookupMissing"
      using env by (auto simp: group_ready_def)
    then obtain ms where "handle_group states through ops g db ctx grs ds (net grs) st = Inr (st\<lparr>g_misses := g_misses st @ ms\<rparr>)"
        "map miss_record ms = map rec grs"
      using handle_group_missing [OF ctx grs(1) hd] by blast
    moreover have "filter (\<lambda>r. \<not> P (columns gb (rec r))) grs = grs" using grs(2) False by (auto simp: filter_id_conv)
    ultimately show ?thesis using False by (auto intro!: exI [of _ "[]"] exI [of _ ms])
  qed
qed

lemma grouped_loop_effect:
  fixes N :: "'v list \<Rightarrow> 'v row multiset"
  assumes g: "grouped_inner g = op" "grouped_group_by g = gb" and ctx: "\<not> is_partial ctx"
    and env: "\<And>h. h \<in> group_keys gb (grs @ rest) \<Longrightarrow>
      group_ready states through ops agg g db P (N h) (of_group gb h (grs @ rest)) h"
    and good: "\<And>h. h \<in> group_keys gb (grs @ rest) \<Longrightarrow>
      good (N h + positives (of_group gb h (grs @ rest))) \<and> in_order (N h) (of_group gb h (grs @ rest))"
    and grs: "grs \<noteq> []" "\<forall>r\<in>set grs. columns gb (rec r) = k"
    and asc: "ascending (\<lambda>a b. rs_cmp (columns gb (rec a)) (columns gb (rec b))) (grs @ rest)"
    and ds: "try_map (\<lambda>r. op_to_diff op (rec r) (is_positive r)) grs = Inr ds"
  shows "\<exists>st' em ms. grouped_loop states through ops g db ctx rest grs ds (net grs) st = Inr st' \<and>
    g_out st' = g_out st @ em \<and> g_misses st' = g_misses st @ ms \<and>
    (\<Sum>h\<in>{h \<in> group_keys gb (grs @ rest). P h}. group_view ops agg (N h) h) + positives em =
    (\<Sum>h\<in>{h \<in> group_keys gb (grs @ rest). P h}. group_view ops agg (apply_records (N h) (of_group gb h (grs @ rest))) h) + negatives em \<and>
    map miss_record ms = map rec (filter (\<lambda>r. \<not> P (columns gb (rec r))) (grs @ rest))"
  using env good grs asc ds
proof (induction rest arbitrary: grs ds st k)
  case Nil
  have keys: "group_keys gb grs = {k}" using Nil.prems(3,4) by (cases grs) auto
  have F: "of_group gb k grs = grs" using Nil.prems(4) by (simp add: filter_id_conv)
  have sing: "{h \<in> {k}. P h} = (if P k then {k} else {})" by auto
  have "group_ready states through ops agg g db P (N k) grs k" using Nil.prems(1) [of k] keys F by simp
  moreover have "good (N k + positives grs)" "in_order (N k) grs" using Nil.prems(2) [of k] keys F by auto
  ultimately show ?case
    using handle_group_effect [OF g ctx, of states through db P "N k" grs k ds st] Nil.prems(3,4,6) F
    unfolding append_Nil2 keys sing by (cases "P k") auto
next
  case (Cons r rest)
  let ?F = "of_group gb (columns gb (rec r)) (grs @ r # rest)"
  have "columns gb (rec r) \<in> group_keys gb (grs @ r # rest)" by simp
  from Cons.prems(2) [OF this] have ok: "good (N (columns gb (rec r)) + positives ?F)" "in_order (N (columns gb (rec r))) ?F"
    by (rule conjunct1, rule conjunct2)
  have "r \<in> set ?F" by simp
  then obtain d where d: "op_to_diff op (rec r) (is_positive r) = Inr d"
    using to_diff_ok [OF ok(1) in_order_rows [OF ok(2)]] by blast
  show ?case
  proof (cases "columns gb (rec r) = k")
    case True
    have ds': "try_map (\<lambda>r. op_to_diff op (rec r) (is_positive r)) (grs @ [r]) = Inr (ds @ [d])"
      using Cons.prems(6) d by (simp add: try_map_snoc)
    have loop: "grouped_loop states through ops g db ctx (r # rest) grs ds (net grs) st =
      grouped_loop states through ops g db ctx rest (grs @ [r]) (ds @ [d]) (net (grs @ [r])) st"
      using True Cons.prems(3,4) d g by (simp add: get_group_values_columns net_def rs_cmp_def)
    show ?thesis
      using Cons.IH [of "grs @ [r]" k "ds @ [d]" st, unfolded append_assoc append_Cons append_Nil, OF Cons.prems(1,2) _ _ Cons.prems(5) ds']
        Cons.prems(4) True unfolding loop by simp
  next
    case False
    let ?le = "\<lambda>a b. rs_cmp (columns gb (rec a)) (columns gb (rec b)) \<noteq> Greater"
    have "columns gb (rec (hd grs)) = k" "hd grs \<in> set grs" using Cons.prems(3,4) by auto
    then have "k \<le> columns gb (rec r)" and "\<And>b. b \<in> set rest \<Longrightarrow> columns gb (rec r) \<le> columns gb (rec b)"
      using Cons.prems(5) by (auto simp: ascending_def sorted_wrt_append rs_cmp_def split: if_splits)
    then have other: "columns gb (rec b) \<noteq> k" if "b \<in> set (r # rest)" for b
      using False that by (metis antisym set_ConsD)
    then have F: "of_group gb k (grs @ r # rest) = grs"
      using Cons.prems(4) by (auto simp: filter_id_conv filter_empty_conv)
    have F': "of_group gb h (grs @ r # rest) = of_group gb h ([r] @ rest)" if "h \<noteq> k" for h
      using Cons.prems(4) that by (auto simp: filter_empty_conv)
    have keys: "group_keys gb (grs @ r # rest) = insert k (group_keys gb ([r] @ rest))"
      using Cons.prems(3,4) by (cases grs) auto
    have new: "k \<notin> group_keys gb ([r] @ rest)" using other by auto
    have ready: "group_ready states through ops agg g db P (N k) grs k" using Cons.prems(1) [of k] unfolding keys F by simp
    have "good (N k + positives grs)" "in_order (N k) grs" using Cons.prems(2) [of k] unfolding keys F by simp_all
    then obtain st1 em1 ms1 where h: "handle_group states through ops g db ctx grs ds (net grs) st = Inr st1"
        "g_out st1 = g_out st @ em1" "g_misses st1 = g_misses st @ ms1"
        "(if P k then group_view ops agg (N k) k else {#}) + positives em1 =
         (if P k then group_view ops agg (apply_records (N k) grs) k else {#}) + negatives em1"
        "map miss_record ms1 = map rec (filter (\<lambda>r. \<not> P (columns gb (rec r))) grs)"
      using handle_group_effect [OF g ctx ready _ _ Cons.prems(3,4,6)] by blast
    have loop: "grouped_loop states through ops g db ctx (r # rest) grs ds (net grs) st =
      grouped_loop states through ops g db ctx rest [r] [d] (net [r]) st1"
      using False Cons.prems(3,4) d g h(1) by (simp add: get_group_values_columns net_def rs_cmp_def)
    have asc': "ascending (\<lambda>a b. rs_cmp (columns gb (rec a)) (columns gb (rec b))) ([r] @ rest)"
      using Cons.prems(5) by (simp add: ascending_def sorted_wrt_append)
    have IH: "\<exists>st' em ms. grouped_loop states through ops g db ctx rest [r] [d] (net [r]) st1 = Inr st' \<and>
      g_out st' = g_out st1 @ em \<and> g_misses st' = g_misses st1 @ ms \<and>
      (\<Sum>h\<in>{h \<in> group_keys gb ([r] @ rest). P h}. group_view ops agg (N h) h) + positives em =
      (\<Sum>h\<in>{h \<in> group_keys gb ([r] @ rest). P h}. group_view ops agg (apply_records (N h) (of_group gb h ([r] @ rest))) h) + negatives em \<and>
      map miss_record ms = map rec (filter (\<lambda>r. \<not> P (columns gb (rec r))) ([r] @ rest))"
    proof (rule Cons.IH [where k = "columns gb (rec r)", OF _ _ _ _ asc'])
      fix h assume h: "h \<in> group_keys gb ([r] @ rest)"
      then have "h \<noteq> k" "h \<in> group_keys gb (grs @ r # rest)" using new unfolding keys by auto
      then show "group_ready states through ops agg g db P (N h) (of_group gb h ([r] @ rest)) h"
        "good (N h + positives (of_group gb h ([r] @ rest))) \<and> in_order (N h) (of_group gb h ([r] @ rest))"
        using Cons.prems(1,2) F' by metis+
    qed (simp_all add: d)
    then obtain st' em2 ms2 where st': "grouped_loop states through ops g db ctx rest [r] [d] (net [r]) st1 = Inr st'"
        "g_out st' = g_out st1 @ em2" "g_misses st' = g_misses st1 @ ms2"
        "(\<Sum>h\<in>{h \<in> group_keys gb ([r] @ rest). P h}. group_view ops agg (N h) h) + positives em2 =
         (\<Sum>h\<in>{h \<in> group_keys gb ([r] @ rest). P h}. group_view ops agg (apply_records (N h) (of_group gb h ([r] @ rest))) h) + negatives em2"
        "map miss_record ms2 = map rec (filter (\<lambda>r. \<not> P (columns gb (rec r))) ([r] @ rest))"
      by blast
    have split: "(\<Sum>h\<in>{h \<in> group_keys gb (grs @ r # rest). P h}. f h) =
        (if P k then f k else {#}) + (\<Sum>h\<in>{h \<in> group_keys gb ([r] @ rest). P h}. f h)" for f :: "'v list \<Rightarrow> 'v row multiset"
    proof -
      have "{h \<in> insert k (group_keys gb ([r] @ rest)). P h} =
          (if P k then insert k {h \<in> group_keys gb ([r] @ rest). P h} else {h \<in> group_keys gb ([r] @ rest). P h})"
        by auto
      then show ?thesis unfolding keys using new by simp
    qed
    have cong: "(\<Sum>h\<in>{h \<in> group_keys gb ([r] @ rest). P h}. group_view ops agg (apply_records (N h) (of_group gb h (grs @ r # rest))) h) =
        (\<Sum>h\<in>{h \<in> group_keys gb ([r] @ rest). P h}. group_view ops agg (apply_records (N h) (of_group gb h ([r] @ rest))) h)"
    proof (rule sum.cong [OF refl])
      fix h assume "h \<in> {h \<in> group_keys gb ([r] @ rest). P h}"
      then have "h \<noteq> k" using new by auto
      then show "group_view ops agg (apply_records (N h) (of_group gb h (grs @ r # rest))) h =
          group_view ops agg (apply_records (N h) (of_group gb h ([r] @ rest))) h" using F' by simp
    qed
    have "(\<Sum>h\<in>{h \<in> group_keys gb (grs @ r # rest). P h}. group_view ops agg (N h) h) + positives (em1 @ em2) =
      (\<Sum>h\<in>{h \<in> group_keys gb (grs @ r # rest). P h}. group_view ops agg (apply_records (N h) (of_group gb h (grs @ r # rest))) h) + negatives (em1 @ em2)"
      unfolding split cong F positives_simps negatives_simps by (rule balance_add [OF h(4) st'(4)])
    moreover have "map miss_record (ms1 @ ms2) = map rec (filter (\<lambda>r. \<not> P (columns gb (rec r))) (grs @ r # rest))"
      using h(5) st'(5) by simp
    ultimately show ?thesis
      using loop st'(1-3) h(2,3) by (intro exI [of _ st'] exI [of _ "em1 @ em2"] exI [of _ "ms1 @ ms2"]) simp
  qed
qed

end

definition present :: "('v, 'd, 's) grouped_operator \<Rightarrow> 'v state_view \<Rightarrow> 'v list \<Rightarrow> bool" where
  "present g db h =
     (case point_key_from h of Inl _ \<Rightarrow> False | Inr pk \<Rightarrow> state_lookup db (out_key g) pk \<noteq> LookupMissing)"

text \<open>
  A grouped operator in a graph: it is connected to the operation, its own state holds the rows of the view \<open>V\<close> for
  the keys it has, and its parent holds the rows \<open>M\<close>.
\<close>

definition placed ::
    "(nat \<Rightarrow> 'v state_view option) \<Rightarrow> ('v, 'd, 's) grouped_operator \<Rightarrow> nat list \<Rightarrow> 'v state_view \<Rightarrow> 'v row multiset \<Rightarrow>
     'v row multiset \<Rightarrow> bool" where
  "placed states g gb db V M \<longleftrightarrow>
     grouped_group_by g = gb \<and> out_key g = [0..<length gb] \<and> gb \<noteq> [] \<and>
     states (grouped_us g) = Some db \<and> answers db (out_key g) V \<and>
     (\<exists>pst. states (grouped_src g) = Some pst \<and> answers pst gb M \<and> (\<forall>pk. state_lookup pst gb pk \<noteq> LookupMissing))"

lemma view_change:
  assumes "\<And>h. h \<notin> group_keys gb rs \<Longrightarrow> rows_of gb h M' = rows_of gb h M"
    and eq: "(\<Sum>h\<in>{h \<in> group_keys gb rs. P h}. group_view ops agg (rows_of gb h M) h) + positives em =
      (\<Sum>h\<in>{h \<in> group_keys gb rs. P h}. group_view ops agg (rows_of gb h M') h) + negatives em"
  shows "apply_records (grouped_view ops agg gb P M) em = grouped_view ops agg gb P M'"
proof -
  let ?K = "group_keys gb rs"
  let ?G = "?K \<union> columns gb ` set_mset M \<union> columns gb ` set_mset M'"
  have G: "finite ?G" "columns gb ` set_mset M \<subseteq> ?G" "columns gb ` set_mset M' \<subseteq> ?G" by auto
  have split: "(\<Sum>h\<in>{h \<in> ?G. P h}. f h) = (\<Sum>h\<in>{h \<in> ?K. P h}. f h) + (\<Sum>h\<in>{h \<in> ?G - ?K. P h}. f h)"
    for f :: "'a list \<Rightarrow> 'a list multiset"
  proof -
    have eq: "{h \<in> ?G. P h} = {h \<in> ?K. P h} \<union> {h \<in> ?G - ?K. P h}" by auto
    show ?thesis by (subst eq, rule sum.union_disjoint) auto
  qed
  have "(\<Sum>h\<in>{h \<in> ?G - ?K. P h}. group_view ops agg (rows_of gb h M) h) =
      (\<Sum>h\<in>{h \<in> ?G - ?K. P h}. group_view ops agg (rows_of gb h M') h)"
    by (rule sum.cong [OF refl]) (use assms(1) in auto)
  then have "grouped_view ops agg gb P M + positives em = grouped_view ops agg gb P M' + negatives em"
    unfolding grouped_view_superset [OF G(1,2)] grouped_view_superset [OF G(1,3)] split
    using balance_add [OF eq, of _ "{#}" _ "{#}"] by simp
  then show ?thesis by (simp add: apply_records_def)
qed

context group_aggregate
begin

lemma group_ready_placed:
  assumes placed: "placed states g gb db (grouped_view ops agg gb (\<lambda>_. True) M) (apply_records M rs)"
    and wide: "\<forall>row\<in>#M + positives rs. \<forall>i\<in>set gb. i < length row" and "length h = length gb"
  shows "group_ready states through ops agg g db (present g db) (rows_of gb h M) (of_group gb h rs) h"
proof -
  have g: "grouped_group_by g = gb" "out_key g = [0..<length gb]" "gb \<noteq> []"
      "answers db (out_key g) (grouped_view ops agg gb (\<lambda>_. True) M)"
    using placed by (auto simp: placed_def)
  obtain pst where pst: "states (grouped_src g) = Some pst" "answers pst gb (apply_records M rs)" "\<forall>pk. state_lookup pst gb pk \<noteq> LookupMissing"
    using placed by (auto simp: placed_def)
  obtain pk where pk: "point_key_from h = Inr pk" "pk_elements pk = h"
    using point_key_elements g(3) \<open>length h = length gb\<close> by (metis length_0_conv)
  obtain rows where rows: "state_lookup pst gb pk = LookupSome rows" using pst(3) by (metis lookup_result.exhaust)
  have "mset rows = filter_mset (\<lambda>row. cloned_indices row gb = Inr h) (apply_records M rs)"
    using pst(2) rows pk(2) by (simp add: answers_def)
  also have "\<dots> = rows_of gb h (apply_records M rs)"
    unfolding rows_of_def
  proof (rule filter_mset_cong [OF refl])
    fix row assume "row \<in># apply_records M rs"
    then have "row \<in># M + positives rs" by (rule mset_subset_eqD [OF apply_records_sub])
    then show "(cloned_indices row gb = Inr h) = (columns gb row = h)" using wide by (simp add: cloned_indices_columns)
  qed
  finally have parent: "ingredient_lookup states through (grouped_src g) (grouped_group_by g) pk Strict = Inr (lookup_records rows)"
      "mset rows = apply_records (rows_of gb h M) (of_group gb h rs)"
    using pst(1) rows g(1) by (simp_all add: ingredient_lookup_def lookup_into_def rows_of_apply)
  show ?thesis
  proof (cases "state_lookup db (out_key g) pk")
    case (LookupSome old)
    have "mset old = filter_mset (\<lambda>row. cloned_indices row (out_key g) = Inr (pk_elements pk)) (grouped_view ops agg gb (\<lambda>_. True) M)"
      using g(4) LookupSome unfolding answers_def by blast
    then have "mset old = group_view ops agg (rows_of gb h M) h"
      unfolding pk(2) g(2) by (simp only: grouped_view_lookup [OF \<open>length h = length gb\<close>])
    with pk LookupSome parent show ?thesis by (auto simp: group_ready_def present_def)
  next
    case LookupMissing
    with pk show ?thesis by (auto simp: group_ready_def present_def)
  qed
qed

lemma grouped_maintains:
  assumes g: "grouped_inner g = op" and ctx: "\<not> is_partial ctx"
    and placed: "placed states g gb db (grouped_view ops agg gb (\<lambda>_. True) M) (apply_records M rs)"
    and wide: "\<forall>row\<in>#M + positives rs. \<forall>i\<in>set gb. i < length row"
    and good: "good (M + positives rs)" and ord: "in_order M rs"
  shows "\<exists>res s'. grouped_on_input states through ops g ctx rs s = Inr (res, s') \<and>
    apply_records (grouped_view ops agg gb (present g db) M) (results res) = grouped_view ops agg gb (present g db) (apply_records M rs) \<and>
    mset (map miss_record (misses res)) = mset (map rec (filter (\<lambda>r. \<not> present g db (columns gb (rec r))) rs))"
proof (cases "rs = []")
  case True
  then show ?thesis by (simp add: grouped_on_input_def apply_records_def)
next
  case False
  let ?cmp = "\<lambda>a b. rs_cmp (columns gb (rec a)) (columns gb (rec b))"
  let ?st = "\<lparr>g_misses = [], g_lookups = [], g_out = [], g_cache = s\<rparr>"
  have gb: "grouped_group_by g = gb" "states (grouped_us g) = Some db" using placed by (auto simp: placed_def)
  obtain r rest where srt: "sort_by ?cmp rs = r # rest"
    using False by (metis length_sort_by length_0_conv neq_Nil_conv)
  have F: "of_group gb h (r # rest) = of_group gb h rs" for h
    unfolding srt [symmetric] by (rule key_cmp.sort_by_stable) (simp add: rs_cmp_def)
  have keys: "group_keys gb (r # rest) = group_keys gb rs" unfolding srt [symmetric] by simp
  have ok: "good (rows_of gb h M + positives (of_group gb h rs))" "in_order (rows_of gb h M) (of_group gb h rs)" for h
  proof -
    show "in_order (rows_of gb h M) (of_group gb h rs)" unfolding rows_of_def by (rule in_order_filter [OF ord])
    show "good (rows_of gb h M + positives (of_group gb h rs))"
      by (rule good_mono [OF good]) (simp add: rows_of_def positives_filter [of "\<lambda>row. columns gb row = h"] subset_mset.add_mono)
  qed
  have "r \<in> set rs" using srt set_sort_by [of ?cmp rs] by auto
  then obtain d where d: "op_to_diff op (rec r) (is_positive r) = Inr d"
    using to_diff_ok [OF good in_order_rows [OF ord]] by blast
  have "\<exists>st' em ms. grouped_loop states through ops g db ctx rest [r] [d] (net [r]) ?st = Inr st' \<and>
    g_out st' = g_out ?st @ em \<and> g_misses st' = g_misses ?st @ ms \<and>
    (\<Sum>h\<in>{h \<in> group_keys gb ([r] @ rest). present g db h}. group_view ops agg (rows_of gb h M) h) + positives em =
    (\<Sum>h\<in>{h \<in> group_keys gb ([r] @ rest). present g db h}. group_view ops agg (apply_records (rows_of gb h M) (of_group gb h ([r] @ rest))) h) + negatives em \<and>
    map miss_record ms = map rec (filter (\<lambda>r. \<not> present g db (columns gb (rec r))) ([r] @ rest))"
  proof (rule grouped_loop_effect [OF g gb(1) ctx, where k = "columns gb (rec r)"])
    fix h assume "h \<in> group_keys gb ([r] @ rest)"
    then have "length h = length gb" by (auto simp: columns_def)
    then show "group_ready states through ops agg g db (present g db) (rows_of gb h M) (of_group gb h ([r] @ rest)) h"
      "good (rows_of gb h M + positives (of_group gb h ([r] @ rest))) \<and> in_order (rows_of gb h M) (of_group gb h ([r] @ rest))"
      using group_ready_placed [OF placed wide] ok unfolding append_Cons append_Nil F by simp_all
  next
    show "ascending ?cmp ([r] @ rest)" using key_cmp.sort_by_ascending [of "\<lambda>r. columns gb (rec r)" rs] srt by simp
  qed (simp_all add: d)
  then obtain st' em ms where st': "grouped_loop states through ops g db ctx rest [r] [d] (net [r]) ?st = Inr st'"
      "g_out st' = em" "g_misses st' = ms"
      "(\<Sum>h\<in>{h \<in> group_keys gb rs. present g db h}. group_view ops agg (rows_of gb h M) h) + positives em =
       (\<Sum>h\<in>{h \<in> group_keys gb rs. present g db h}. group_view ops agg (rows_of gb h (apply_records M rs)) h) + negatives em"
      "map miss_record ms = map rec (filter (\<lambda>r. \<not> present g db (columns gb (rec r))) (r # rest))"
    unfolding append_Cons append_Nil F keys rows_of_apply by auto
  have "list_all (\<lambda>r. list_all (\<lambda>i. i < length (rec r)) gb) rs"
    using in_order_rows [OF ord] wide by (auto simp: list_all_iff)
  then have "grouped_on_input states through ops g ctx rs s =
      Inr (\<lparr>results = em, misses = ms, lookups = g_lookups st'\<rparr>, g_cache st')"
    using False gb srt d g st'(1-3)
    by (simp add: grouped_on_input_def get_group_values_columns net_def)
  moreover have "apply_records (grouped_view ops agg gb (present g db) M) em = grouped_view ops agg gb (present g db) (apply_records M rs)"
  proof (rule view_change [OF _ st'(4)])
    fix h assume "h \<notin> group_keys gb rs"
    then have "of_group gb h rs = []" by (auto simp: filter_empty_conv)
    then show "rows_of gb h (apply_records M rs) = rows_of gb h M" by (simp add: rows_of_apply) (simp add: apply_records_def)
  qed
  moreover have "mset (map miss_record ms) = mset (map rec (filter (\<lambda>r. \<not> present g db (columns gb (rec r))) rs))"
    unfolding st'(5) srt [symmetric] by (simp add: mset_filter)
  ultimately show ?thesis by simp
qed

end

end
