(* ===== verification/Values.thy ===== *)
theory Values
  imports Processing "HOL-Library.Word" "HOL-Library.Signed_Division"
begin

section \<open>Arithmetic of SQL values\<close>

text \<open>
  \<open>src/readyset-data/src/lib.rs\<close>: the numeric values of the type \<open>DfValue\<close> and the arithmetic on them. Integers are
  64 bit words; the types of floating point numbers and of decimals are type parameters \<open>'f\<close>, \<open>'d\<close>, \<open>'n\<close> with
  their operations in a record, and \<open>'o\<close> stands for the values that are not numbers (texts, times, bytes, bits,
  arrays). Operands of 128 bits are integers with a range check.
\<close>

datatype ('f, 'd, 'n, 'o) df_value =
    DfNone
  | DfInt "64 word"
  | DfUnsigned "64 word"
  | DfFloat 'f
  | DfDouble 'd
  | DfNumeric 'n
  | DfOther 'o
  | DfMax

datatype arith = Plus | Minus | Times | Divide

record ('f, 'd, 'n) numerics =
  f32_op :: "arith \<Rightarrow> 'f \<Rightarrow> 'f \<Rightarrow> 'f"
  f64_op :: "arith \<Rightarrow> 'd \<Rightarrow> 'd \<Rightarrow> 'd"
  dec_op :: "arith \<Rightarrow> 'n \<Rightarrow> 'n \<Rightarrow> 'n option"
  f32_finite :: "'f \<Rightarrow> bool"
  f64_finite :: "'d \<Rightarrow> bool"
  f32_of_int :: "int \<Rightarrow> 'f"
  f64_of_int :: "int \<Rightarrow> 'd"
  dec_of_int :: "int \<Rightarrow> 'n"
  f32_of_f64 :: "'d \<Rightarrow> 'f"
  f64_of_f32 :: "'f \<Rightarrow> 'd"
  dec_of_f32 :: "'f \<Rightarrow> 'n option"
  dec_of_f64 :: "'d \<Rightarrow> 'n option"
  dec_to_f32 :: "'n \<Rightarrow> 'f option"
  dec_to_f64 :: "'n \<Rightarrow> 'd option"

subsection \<open>Checked integer operations\<close>

definition i64_range :: "int \<Rightarrow> bool" where
  "i64_range z = (- (2 ^ 63) \<le> z \<and> z < 2 ^ 63)"

definition u64_range :: "int \<Rightarrow> bool" where
  "u64_range z = (0 \<le> z \<and> z < 2 ^ 64)"

definition i128_range :: "int \<Rightarrow> bool" where
  "i128_range z = (- (2 ^ 127) \<le> z \<and> z < 2 ^ 127)"

text \<open>The mathematical result; division truncates towards zero and has none by zero.\<close>

fun int_op :: "arith \<Rightarrow> int \<Rightarrow> int \<Rightarrow> int option" where
  "int_op Plus a b = Some (a + b)"
| "int_op Minus a b = Some (a - b)"
| "int_op Times a b = Some (a * b)"
| "int_op Divide a b = (if b = 0 then None else Some (a sdiv b))"

definition checked :: "(int \<Rightarrow> bool) \<Rightarrow> arith \<Rightarrow> int \<Rightarrow> int \<Rightarrow> int option" where
  "checked in_range op a b =
     (case int_op op a b of Some z \<Rightarrow> if in_range z then Some z else None | None \<Rightarrow> None)"

subsection \<open>Conversions\<close>

fun as_int :: "('f, 'd, 'n, 'o) df_value \<Rightarrow> int option" where
  "as_int (DfInt i) = Some (sint i)"
| "as_int (DfUnsigned i) = Some (uint i)"
| "as_int _ = None"

fun is_none :: "('f, 'd, 'n, 'o) df_value \<Rightarrow> bool" where
  "is_none DfNone = True"
| "is_none _ = False"

definition from_i64 :: "int \<Rightarrow> ('f, 'd, 'n, 'o) df_value" where
  "from_i64 i = DfInt (word_of_int i)"

definition from_u64 :: "int \<Rightarrow> ('f, 'd, 'n, 'o) df_value" where
  "from_u64 i = DfUnsigned (word_of_int i)"

definition try_from_i128 :: "int \<Rightarrow> df_error + ('f, 'd, 'n, 'o) df_value" where
  "try_from_i128 i =
     (if i64_range i then Inr (from_i64 i) else if u64_range i then Inr (from_u64 i) else Inl ConversionError)"

definition from_option :: "('a \<Rightarrow> ('f, 'd, 'n, 'o) df_value) \<Rightarrow> 'a option \<Rightarrow> ('f, 'd, 'n, 'o) df_value" where
  "from_option f x = (case x of Some t \<Rightarrow> f t | None \<Rightarrow> DfNone)"

definition try_into_i64 :: "('f, 'd, 'n, 'o) df_value \<Rightarrow> df_error + int" where
  "try_into_i64 v =
     (case as_int v of Some i \<Rightarrow> if i64_range i then Inr i else Inl ConversionError | None \<Rightarrow> Inl ConversionError)"

definition ok_or_conversion :: "'a option \<Rightarrow> df_error + 'a" where
  "ok_or_conversion x = (case x of Some t \<Rightarrow> Inr t | None \<Rightarrow> Inl ConversionError)"

definition try_from_f32 :: "('f, 'd, 'n) numerics \<Rightarrow> 'f \<Rightarrow> df_error + ('f, 'd, 'n, 'o) df_value" where
  "try_from_f32 num f = (if f32_finite num f then Inr (DfFloat f) else Inl ConversionError)"

definition try_from_f64 :: "('f, 'd, 'n) numerics \<Rightarrow> 'd \<Rightarrow> df_error + ('f, 'd, 'n, 'o) df_value" where
  "try_from_f64 num f = (if f64_finite num f then Inr (DfDouble f) else Inl ConversionError)"

fun try_into_f32 :: "('f, 'd, 'n) numerics \<Rightarrow> ('f, 'd, 'n, 'o) df_value \<Rightarrow> df_error + 'f" where
  "try_into_f32 num (DfFloat f) = Inr f"
| "try_into_f32 num (DfDouble f) = Inr (f32_of_f64 num f)"
| "try_into_f32 num (DfNumeric d) = ok_or_conversion (dec_to_f32 num d)"
| "try_into_f32 num (DfUnsigned i) = Inr (f32_of_int num (uint i))"
| "try_into_f32 num (DfInt i) = Inr (f32_of_int num (sint i))"
| "try_into_f32 num _ = Inl ConversionError"

fun try_into_f64 :: "('f, 'd, 'n) numerics \<Rightarrow> ('f, 'd, 'n, 'o) df_value \<Rightarrow> df_error + 'd" where
  "try_into_f64 num (DfFloat f) = Inr (f64_of_f32 num f)"
| "try_into_f64 num (DfDouble f) = Inr f"
| "try_into_f64 num (DfNumeric d) = ok_or_conversion (dec_to_f64 num d)"
| "try_into_f64 num (DfUnsigned i) = Inr (f64_of_int num (uint i))"
| "try_into_f64 num (DfInt i) = Inr (f64_of_int num (sint i))"
| "try_into_f64 num _ = Inl ConversionError"

fun try_into_decimal :: "('f, 'd, 'n) numerics \<Rightarrow> ('f, 'd, 'n, 'o) df_value \<Rightarrow> df_error + 'n" where
  "try_into_decimal num (DfInt i) = Inr (dec_of_int num (sint i))"
| "try_into_decimal num (DfUnsigned i) = Inr (dec_of_int num (uint i))"
| "try_into_decimal num (DfFloat f) = ok_or_conversion (dec_of_f32 num f)"
| "try_into_decimal num (DfDouble f) = ok_or_conversion (dec_of_f64 num f)"
| "try_into_decimal num (DfNumeric d) = Inr d"
| "try_into_decimal num _ = Inl ConversionError"

subsection \<open>Arithmetic\<close>

fun is_float :: "('f, 'd, 'n, 'o) df_value \<Rightarrow> bool" where
  "is_float (DfFloat _) = True"
| "is_float _ = False"

fun is_double :: "('f, 'd, 'n, 'o) df_value \<Rightarrow> bool" where
  "is_double (DfDouble _) = True"
| "is_double _ = False"

fun is_numeric :: "('f, 'd, 'n, 'o) df_value \<Rightarrow> bool" where
  "is_numeric (DfNumeric _) = True"
| "is_numeric _ = False"

definition is_integer :: "('f, 'd, 'n, 'o) df_value \<Rightarrow> bool" where
  "is_integer v = (case v of DfInt _ \<Rightarrow> True | DfUnsigned _ \<Rightarrow> True | _ \<Rightarrow> False)"

text \<open>The arms of the macro in order: the first two of each group are the same operation on the pair of variants.\<close>

definition arithmetic_operation ::
    "('f, 'd, 'n) numerics \<Rightarrow> arith \<Rightarrow> ('f, 'd, 'n, 'o) df_value \<Rightarrow> ('f, 'd, 'n, 'o) df_value \<Rightarrow>
     df_error + ('f, 'd, 'n, 'o) df_value" where
  "arithmetic_operation num op a b =
     (case (a, b) of
        (DfNone, _) \<Rightarrow> Inr DfNone
      | (_, DfNone) \<Rightarrow> Inr DfNone
      | (DfInt x, DfInt y) \<Rightarrow> Inr (from_option from_i64 (checked i64_range op (sint x) (sint y)))
      | (DfUnsigned x, DfUnsigned y) \<Rightarrow> Inr (from_option from_u64 (checked u64_range op (uint x) (uint y)))
      | (DfUnsigned x, DfInt y) \<Rightarrow>
          (case checked i128_range op (uint x) (sint y) of None \<Rightarrow> Inr DfNone | Some z \<Rightarrow> try_from_i128 z)
      | (DfInt x, DfUnsigned y) \<Rightarrow>
          (case checked i128_range op (sint x) (uint y) of None \<Rightarrow> Inr DfNone | Some z \<Rightarrow> try_from_i128 z)
      | _ \<Rightarrow>
          if (is_integer a \<and> is_float b) \<or> (is_float a \<and> (is_integer b \<or> is_float b \<or> is_double b \<or> is_numeric b))
          then try_bind (try_into_f32 num a)
                 (\<lambda>x. try_bind (try_into_f32 num b) (\<lambda>y. try_from_f32 num (f32_op num op x y)))
          else if (is_integer a \<and> is_double b) \<or> (is_double a \<and> (is_integer b \<or> is_double b \<or> is_float b \<or> is_numeric b))
          then try_bind (try_into_f64 num a)
                 (\<lambda>x. try_bind (try_into_f64 num b) (\<lambda>y. try_from_f64 num (f64_op num op x y)))
          else if (is_integer a \<and> is_numeric b) \<or> (is_numeric a \<and> (is_integer b \<or> is_numeric b))
          then try_bind (try_into_decimal num a)
                 (\<lambda>x. try_bind (try_into_decimal num b) (\<lambda>y. Inr (from_option DfNumeric (dec_op num op x y))))
          else if is_numeric a \<and> is_float b
          then try_bind (try_into_decimal num a)
                 (\<lambda>x. try_bind (try_bind (try_into_f32 num b) (\<lambda>f. ok_or_conversion (dec_of_f32 num f)))
                    (\<lambda>y. Inr (from_option DfNumeric (dec_op num op x y))))
          else if is_numeric a \<and> is_double b
          then try_bind (try_into_decimal num a)
                 (\<lambda>x. try_bind (try_bind (try_into_f64 num b) (\<lambda>f. ok_or_conversion (dec_of_f64 num f)))
                    (\<lambda>y. Inr (from_option DfNumeric (dec_op num op x y))))
          else Inl InvalidOperation)"

definition df_add where "df_add num = arithmetic_operation num Plus"
definition df_sub where "df_sub num = arithmetic_operation num Minus"
definition df_mul where "df_mul num = arithmetic_operation num Times"
definition df_div where "df_div num = arithmetic_operation num Divide"

subsection \<open>Integer results\<close>

fun same_variant :: "('f, 'd, 'n, 'o) df_value \<Rightarrow> ('f, 'd, 'n, 'o) df_value \<Rightarrow> bool" where
  "same_variant (DfInt _) (DfInt _) = True"
| "same_variant (DfUnsigned _) (DfUnsigned _) = True"
| "same_variant _ _ = False"

fun variant_fits :: "('f, 'd, 'n, 'o) df_value \<Rightarrow> int \<Rightarrow> bool" where
  "variant_fits (DfInt _) z = i64_range z"
| "variant_fits (DfUnsigned _) z = u64_range z"
| "variant_fits _ z = False"

lemma sint_i64 [simp]: "i64_range (sint (w :: 64 word))"
  using sint_range_size [of w] by (simp add: i64_range_def word_size)

lemma uint_u64 [simp]: "u64_range (uint (w :: 64 word))"
  using uint_range_size [of w] by (simp add: u64_range_def word_size)

lemma i64_roundtrip: "i64_range z \<Longrightarrow> sint (word_of_int z :: 64 word) = z"
  by (simp add: i64_range_def signed_of_int signed_take_bit_int_eq_self)

lemma u64_roundtrip: "u64_range z \<Longrightarrow> uint (word_of_int z :: 64 word) = z"
  by (simp add: u64_range_def unsigned_of_int take_bit_int_eq_self)

lemma sdiv_abs: "\<bar>a sdiv b\<bar> \<le> \<bar>a\<bar>" for a b :: int
proof (cases "b = 0")
  case False
  then have "\<bar>a\<bar> div \<bar>b\<bar> \<le> \<bar>a\<bar> div 1" by (intro zdiv_mono2) auto
  moreover have "0 \<le> \<bar>a\<bar> div \<bar>b\<bar>" by (simp add: div_int_pos_iff)
  ultimately show ?thesis by (simp add: signed_divide_int_def abs_mult abs_sgn_eq)
qed (simp add: signed_divide_int_def)

lemma mixed_no_overflow:
  assumes "\<bar>x\<bar> \<le> 2 ^ 63 \<and> \<bar>y\<bar> < 2 ^ 64 \<or> \<bar>x\<bar> < 2 ^ 64 \<and> \<bar>y\<bar> \<le> 2 ^ 63" and "int_op op x y = Some z"
  shows "i128_range z"
proof -
  have "\<bar>z\<bar> \<le> 2 ^ 63 * (2 ^ 64 - 1)"
  proof (cases op)
    case Times
    have "\<bar>x\<bar> * \<bar>y\<bar> \<le> 2 ^ 63 * (2 ^ 64 - 1)"
    proof (cases "\<bar>x\<bar> \<le> 2 ^ 63 \<and> \<bar>y\<bar> < 2 ^ 64")
      case True
      then show ?thesis by (intro mult_mono) auto
    next
      case False
      then have "\<bar>y\<bar> * \<bar>x\<bar> \<le> 2 ^ 63 * (2 ^ 64 - 1)" using assms(1) by (intro mult_mono) auto
      then show ?thesis by (simp add: mult.commute)
    qed
    then show ?thesis using Times assms(2) by (auto simp: abs_mult)
  next
    case Divide
    then show ?thesis using assms sdiv_abs [of x y] by (auto split: if_splits)
  qed (use assms in auto)
  then have "- (2 ^ 63 * (2 ^ 64 - 1)) \<le> z" "z \<le> 2 ^ 63 * (2 ^ 64 - 1)" by linarith+
  then show ?thesis by (simp add: i128_range_def)
qed

lemma i64_abs: "\<bar>sint (w :: 64 word)\<bar> \<le> 2 ^ 63"
  using sint_i64 [of w] unfolding i64_range_def by linarith

lemma u64_abs: "\<bar>uint (w :: 64 word)\<bar> < 2 ^ 64"
  using uint_u64 [of w] unfolding u64_range_def by linarith

lemma mixed_checked:
  "checked i128_range op (sint (v :: 64 word)) (uint (w :: 64 word)) = int_op op (sint v) (uint w)"
  "checked i128_range op (uint (v :: 64 word)) (sint (w :: 64 word)) = int_op op (uint v) (sint w)"
  using mixed_no_overflow [of "sint v" "uint w"] mixed_no_overflow [of "uint v" "sint w"]
  by (simp_all add: checked_def i64_abs [simplified] u64_abs [simplified] split: option.split)


definition unit_numerics :: "(unit, unit, unit) numerics" where
  "unit_numerics =
     \<lparr>f32_op = \<lambda>_ _ _. (), f64_op = \<lambda>_ _ _. (), dec_op = \<lambda>_ _ _. None, f32_finite = \<lambda>_. True, f64_finite = \<lambda>_. True,
      f32_of_int = \<lambda>_. (), f64_of_int = \<lambda>_. (), dec_of_int = \<lambda>_. (), f32_of_f64 = \<lambda>_. (), f64_of_f32 = \<lambda>_. (),
      dec_of_f32 = \<lambda>_. None, dec_of_f64 = \<lambda>_. None, dec_to_f32 = \<lambda>_. None, dec_to_f64 = \<lambda>_. None\<rparr>"


end
