(* ===== verification/GroupedInstances.thy ===== *)
theory GroupedInstances
  imports GroupedProps Values "HOL-Library.Option_ord"
begin

section \<open>Counts, sums, minima and maxima\<close>

text \<open>
  The operations of the grouped operators as instances of their contract. What they need of the values is in two
  locales: a number of rows survives the conversion to a value and back, and addition is exact within a bound. Both hold
  of the arithmetic of \<open>DfValue\<close>.
\<close>

locale row_counter =
  fixes ops :: "'v value_ops"
  assumes row_count: "\<lbrakk>0 \<le> n; n < 2 ^ 63\<rbrakk> \<Longrightarrow> to_i64 ops (of_i64 ops n) = Some n"

locale exact_addition = row_counter ops for ops :: "'v value_ops" +
  fixes emb :: "int \<Rightarrow> 'v" and B :: int
  assumes add_exact: "\<lbrakk>\<bar>a\<bar> \<le> B; \<bar>b\<bar> \<le> B; \<bar>a + b\<bar> \<le> B\<rbrakk> \<Longrightarrow> v_add ops (emb a) (emb b) = Inr (emb (a + b))"
    and sub_exact: "\<lbrakk>\<bar>a\<bar> \<le> B; \<bar>b\<bar> \<le> B; \<bar>a - b\<bar> \<le> B\<rbrakk> \<Longrightarrow> v_sub ops (emb a) (emb b) = Inr (emb (a - b))"
    and emb_not_null: "emb a \<noteq> null ops"

definition df_ops ::
    "('f, 'd, 'n) numerics \<Rightarrow> ('d \<times> 'n) \<Rightarrow> (string \<Rightarrow> 'o) \<Rightarrow> ('o \<Rightarrow> string option) \<Rightarrow> (('f, 'd, 'n, 'o) df_value \<Rightarrow> string) \<Rightarrow>
     ('f, 'd, 'n, 'o) df_value value_ops" where
  "df_ops num zeros mk_text untext shown =
     \<lparr>null = DfNone, of_i64 = from_i64,
      to_i64 = (\<lambda>v. case try_into_i64 v of Inr n \<Rightarrow> Some n | Inl _ \<Rightarrow> None),
      v_add = df_add num, v_sub = df_sub num, v_div = df_div num,
      double_zero = DfDouble (fst zeros), numeric_zero = DfNumeric (snd zeros),
      of_text = (\<lambda>s. DfOther (mk_text s)), as_text = (\<lambda>v. case v of DfOther t \<Rightarrow> untext t | _ \<Rightarrow> None), display = shown\<rparr>"

interpretation df_values: exact_addition "df_ops num zeros mk_text untext shown" from_i64 "2 ^ 63 - 1"
  for num zeros mk_text untext shown
proof unfold_locales
  fix n :: int assume "0 \<le> n" "n < 2 ^ 63"
  then have "i64_range n" by (simp add: i64_range_def)
  then show "to_i64 (df_ops num zeros mk_text untext shown) (of_i64 (df_ops num zeros mk_text untext shown) n) = Some n"
    by (simp add: df_ops_def try_into_i64_def from_i64_def i64_roundtrip)
next
  have range: "i64_range z" if "\<bar>z\<bar> \<le> 2 ^ 63 - 1" for z
    using that unfolding i64_range_def by linarith
  fix a b :: int assume ab: "\<bar>a\<bar> \<le> 2 ^ 63 - 1" "\<bar>b\<bar> \<le> 2 ^ 63 - 1"
  note defs = df_ops_def df_add_def df_sub_def arithmetic_operation_def from_i64_def from_option_def checked_def
    i64_roundtrip [OF range [OF ab(1)]] i64_roundtrip [OF range [OF ab(2)]]
  show "v_add (df_ops num zeros mk_text untext shown) (from_i64 a) (from_i64 b) = Inr (from_i64 (a + b))"
    if "\<bar>a + b\<bar> \<le> 2 ^ 63 - 1" using range [OF that] by (simp add: defs)
  show "v_sub (df_ops num zeros mk_text untext shown) (from_i64 a) (from_i64 b) = Inr (from_i64 (a - b))"
    if "\<bar>a - b\<bar> \<le> 2 ^ 63 - 1" using range [OF that] by (simp add: defs)
qed (simp add: df_ops_def from_i64_def)

subsection \<open>Counts and sums\<close>

definition weight :: "'v value_ops \<Rightarrow> ('v \<Rightarrow> int) \<Rightarrow> aggregator \<Rightarrow> 'v row \<Rightarrow> int" where
  "weight ops num a row =
     (if row ! agg_over a = null ops then 0 else if agg_op a = Count then 1 else num (row ! agg_over a))"

definition group_total :: "'v value_ops \<Rightarrow> ('v \<Rightarrow> int) \<Rightarrow> aggregator \<Rightarrow> 'v row multiset \<Rightarrow> int" where
  "group_total ops num a M = (\<Sum>row\<in>#M. weight ops num a row)"

definition magnitude :: "'v value_ops \<Rightarrow> ('v \<Rightarrow> int) \<Rightarrow> aggregator \<Rightarrow> 'v row multiset \<Rightarrow> int" where
  "magnitude ops num a M = (\<Sum>row\<in>#M. \<bar>weight ops num a row\<bar>)"

definition summable :: "'v value_ops \<Rightarrow> (int \<Rightarrow> 'v) \<Rightarrow> int \<Rightarrow> ('v \<Rightarrow> int) \<Rightarrow> aggregator \<Rightarrow> 'v row multiset \<Rightarrow> bool" where
  "summable ops emb B num a M \<longleftrightarrow>
     size M < 2 ^ 63 \<and> magnitude ops num a M \<le> B \<and>
     (\<forall>row\<in>#M. agg_over a < length row \<and> list_all (\<lambda>i. i < length row) (agg_group a) \<and>
        (agg_op a = Sum \<longrightarrow> row ! agg_over a = null ops \<or> row ! agg_over a = emb (num (row ! agg_over a))))"

lemma total_add [simp]: "group_total ops num a (add_mset row M) = weight ops num a row + group_total ops num a M"
  by (simp add: group_total_def)

lemma magnitude_add [simp]: "magnitude ops num a (add_mset row M) = \<bar>weight ops num a row\<bar> + magnitude ops num a M"
  by (simp add: magnitude_def)

lemma magnitude_union [simp]: "magnitude ops num a (M + N) = magnitude ops num a M + magnitude ops num a N"
  by (simp add: magnitude_def)

lemma magnitude_nonneg [simp]: "0 \<le> magnitude ops num a M"
  unfolding magnitude_def by (induction M) auto

lemma total_magnitude: "\<bar>group_total ops num a M\<bar> \<le> magnitude ops num a M"
  unfolding group_total_def magnitude_def by (induction M) auto

lemma total_remove: "row \<in># M \<Longrightarrow> group_total ops num a (M - {#row#}) = group_total ops num a M - weight ops num a row"
  by (metis total_add insert_DiffM add_diff_cancel_left')

lemma magnitude_remove: "row \<in># M \<Longrightarrow> magnitude ops num a (M - {#row#}) = magnitude ops num a M - \<bar>weight ops num a row\<bar>"
  by (metis magnitude_add insert_DiffM add_diff_cancel_left')

lemma summable_mono: "\<lbrakk>summable ops emb B num a M; N \<subseteq># M\<rbrakk> \<Longrightarrow> summable ops emb B num a N"
proof -
  assume M: "summable ops emb B num a M" "N \<subseteq># M"
  have "magnitude ops num a N \<le> magnitude ops num a M"
    using magnitude_union [of ops num a N "M - N"] M(2) magnitude_nonneg [of ops num a "M - N"] by simp
  moreover have "size N \<le> size M" by (rule size_mset_mono [OF M(2)])
  ultimately show ?thesis using M by (auto simp: summable_def dest: mset_subset_eqD)
qed

locale summing = exact_addition ops emb B for ops :: "'v::linorder value_ops" and emb B +
  fixes hash :: "'v list \<Rightarrow> nat" and num :: "'v \<Rightarrow> int" and a :: aggregator
  assumes op: "agg_op a = Count \<or> agg_op a = Sum"
    and start: "new_data ops a = Inr (emb 0)"
    and one: "agg_op a = Count \<Longrightarrow> of_i64 ops 1 = emb 1"
    and grouped: "agg_group a \<noteq> []"
begin

lemma apply_diff_total:
  assumes good: "summable ops emb B num a M" and row: "row \<in># M" and d: "agg_to_diff hash a row pos = Inr d"
    and "\<bar>t\<bar> \<le> B" "\<bar>if pos then t + weight ops num a row else t - weight ops num a row\<bar> \<le> B"
  shows "apply_diff ops a d (emb t, c) = Inr (emb (if pos then t + weight ops num a row else t - weight ops num a row), c)"
proof -
  have "\<bar>weight ops num a row\<bar> \<le> magnitude ops num a M"
    using magnitude_remove [OF row, of ops num a] magnitude_nonneg [of ops num a "M - {#row#}"] by linarith
  then have w: "\<bar>weight ops num a row\<bar> \<le> B" using good by (simp add: summable_def)
  have d': "diff_value d = row ! agg_over a" "diff_positive d = pos"
    using d by (auto simp: agg_to_diff_def split: if_splits)
  show ?thesis
  proof (cases "row ! agg_over a = null ops")
    case True
    then show ?thesis by (simp add: apply_diff_def d' weight_def)
  next
    case False
    have emb: "(if agg_op a = Count then of_i64 ops 1 else row ! agg_over a) = emb (weight ops num a row)"
      using False good row op one by (auto simp: summable_def weight_def)
    show ?thesis
      using op False d' emb w assms(4,5) add_exact [of t "weight ops num a row"] sub_exact [of t "weight ops num a row"]
      by (cases pos) (auto simp: apply_diff_def)
  qed
qed

lemma apply_diffs_total:
  assumes "summable ops emb B num a (M + positives rs)" "in_order M rs"
    and "try_map (\<lambda>r. agg_to_diff hash a (rec r) (is_positive r)) rs = Inr ds"
  shows "apply_diffs ops a ds (emb (group_total ops num a M), c) = Inr (emb (group_total ops num a (apply_records M rs)), c)"
  using assms
proof (induction rs arbitrary: M ds)
  case Nil
  then show ?case by (simp add: apply_records_def)
next
  case (Cons r rs)
  obtain d ds' where d: "agg_to_diff hash a (rec r) (is_positive r) = Inr d"
      "try_map (\<lambda>r. agg_to_diff hash a (rec r) (is_positive r)) rs = Inr ds'" "ds = d # ds'"
    using Cons.prems(3) by (auto simp: result_simps)
  let ?M = "if is_positive r then add_mset (rec r) M else M - {#rec r#}"
  let ?t = "if is_positive r then group_total ops num a M + weight ops num a (rec r) else group_total ops num a M - weight ops num a (rec r)"
  have row: "rec r \<in># M + positives (r # rs)" by (rule in_order_rows [OF Cons.prems(2)]) simp
  have M': "in_order ?M rs" "?M + positives rs \<subseteq># M + positives (r # rs)" "group_total ops num a ?M = ?t"
    using Cons.prems(2) by (cases r; simp add: total_remove)+
  have good': "summable ops emb B num a (?M + positives rs)" by (rule summable_mono [OF Cons.prems(1) M'(2)])
  have "\<bar>group_total ops num a N\<bar> \<le> B" if "summable ops emb B num a (N + R)" for N R
    using that total_magnitude [of ops num a N] magnitude_nonneg [of ops num a R]
    unfolding summable_def magnitude_union by linarith
  from this [OF Cons.prems(1)] this [OF good'] have "\<bar>group_total ops num a M\<bar> \<le> B" "\<bar>?t\<bar> \<le> B" unfolding M'(3) .
  then have "apply_diff ops a d (emb (group_total ops num a M), c) = Inr (emb ?t, c)"
    by (rule apply_diff_total [OF Cons.prems(1) row d(1)])
  then show ?case
    using Cons.IH [OF good' M'(1) d(2)] d(3) M'(3) apply_records_Cons [OF Cons.prems(2)] by simp
qed

end

sublocale summing \<subseteq> group_aggregate ops "aggregator_operation hash ops a" "\<lambda>M. emb (group_total ops num a M)" "summable ops emb B num a"
proof unfold_locales
  fix M N assume "summable ops emb B num a M" "N \<subseteq># M"
  then show "summable ops emb B num a N" by (rule summable_mono)
next
  fix M row pos assume "summable ops emb B num a M" "row \<in># M"
  then show "\<exists>d. op_to_diff (aggregator_operation hash ops a) row pos = Inr d"
    by (auto simp: summable_def aggregator_operation_def agg_to_diff_def)
next
  fix M rs ds s
  assume good: "summable ops emb B num a (M + positives rs)" and ord: "in_order M rs"
    and ds: "try_map (\<lambda>r. op_to_diff (aggregator_operation hash ops a) (rec r) (is_positive r)) rs = Inr ds"
  have "(case if M = {#} then None else Some (emb (group_total ops num a M)) of Some v \<Rightarrow> v | None \<Rightarrow> emb 0) = emb (group_total ops num a M)"
    by (simp add: group_total_def)
  then have "op_apply (aggregator_operation hash ops a) s (if M = {#} then None else Some (emb (group_total ops num a M))) ds =
      Inr (Some (emb (group_total ops num a (apply_records M rs))), s)"
    using apply_diffs_total [OF good ord, of ds s] ds start by (simp add: aggregator_operation_def agg_apply_def)
  then show "\<exists>res s'. op_apply (aggregator_operation hash ops a) s (if M = {#} then None else Some (emb (group_total ops num a M))) ds = Inr (res, s') \<and>
      (\<forall>v. res = Some v \<longrightarrow> apply_records M rs \<noteq> {#} \<longrightarrow> v = emb (group_total ops num a (apply_records M rs)))"
    by simp
next
  fix rows ds s
  assume good: "summable ops emb B num a (mset rows)"
    and ds: "try_map (\<lambda>row. op_to_diff (aggregator_operation hash ops a) row True) rows = Inr ds"
  have "try_map (\<lambda>r. agg_to_diff hash a (rec r) (is_positive r)) (map Positive rows) = Inr ds"
    using ds by (simp add: try_map_map aggregator_operation_def o_def)
  then have "op_apply (aggregator_operation hash ops a) s None ds = Inr (Some (emb (group_total ops num a (mset rows))), s)"
    using apply_diffs_total [of "{#}" "map Positive rows" ds s] good start
    by (simp add: aggregator_operation_def agg_apply_def insertions apply_records_def group_total_def)
  then show "\<exists>res s'. op_apply (aggregator_operation hash ops a) s None ds = Inr (res, s') \<and> (rows \<noteq> [] \<longrightarrow>
      (case res of Some v \<Rightarrow> v | None \<Rightarrow> (case op_empty_value (aggregator_operation hash ops a) of Some v \<Rightarrow> v | None \<Rightarrow> null ops)) =
      emb (group_total ops num a (mset rows)))"
    by simp
next
  show "op_emit_empty (aggregator_operation hash ops a) = False"
    using grouped op by (auto simp: aggregator_operation_def agg_emit_empty_def)
next
  fix M n assume "summable ops emb B num a M" "n \<le> size M"
  then show "to_i64 ops (of_i64 ops (int n)) = Some (int n)" by (intro row_count) (auto simp: summable_def)
qed

subsection \<open>Minima and maxima\<close>

definition beyond :: "extremum \<Rightarrow> 'v::linorder \<Rightarrow> 'v \<Rightarrow> bool" where
  "beyond op a b = (case op of ExtMax \<Rightarrow> b \<le> a | ExtMin \<Rightarrow> a \<le> b)"

definition most_extreme :: "'v::linorder \<Rightarrow> extremum \<Rightarrow> 'v multiset \<Rightarrow> 'v" where
  "most_extreme nl op V =
     (if V = {#} then nl else case op of ExtMax \<Rightarrow> Max (set_mset V) | ExtMin \<Rightarrow> Min (set_mset V))"

definition over_values :: "'v value_ops \<Rightarrow> extremum_operator \<Rightarrow> 'v row multiset \<Rightarrow> 'v multiset" where
  "over_values ops e M = filter_mset (\<lambda>v. v \<noteq> null ops) (image_mset (\<lambda>row. row ! ext_over e) M)"

definition comparable :: "'v value_ops \<Rightarrow> extremum_operator \<Rightarrow> 'v row multiset \<Rightarrow> bool" where
  "comparable ops e M \<longleftrightarrow>
     size M < 2 ^ 63 \<and>
     (\<forall>row\<in>#M. ext_over e < length row \<and> (ext_op e = ExtMin \<longrightarrow> row ! ext_over e \<noteq> null ops))"

lemma most_extreme_eqI:
  assumes "m \<in># V" "\<And>x. x \<in># V \<Longrightarrow> beyond op m x"
  shows "most_extreme nl op V = m"
  using assms by (cases op) (auto simp: most_extreme_def beyond_def intro!: Max_eqI Min_eqI)

lemma is_extreme_iff: "is_extreme_value op cur v \<longleftrightarrow> (\<forall>n. cur = Some n \<longrightarrow> beyond op v n)"
  by (cases op; cases cur) (auto simp: is_extreme_value_def beyond_def)

lemma position_of_Some: "position_of x xs = Some i \<Longrightarrow> i < length xs \<and> xs ! i = x"
  by (induction xs arbitrary: i) (auto split: if_splits)

lemma position_of_None: "position_of x xs = None \<longleftrightarrow> x \<notin> set xs"
  by (induction xs) auto

lemma mset_swap_remove:
  assumes "i < length xs"
  shows "mset (swap_remove i xs) = mset xs - {#xs ! i#}"
proof -
  have ne: "xs[i := last xs] \<noteq> []" using assms by auto
  have last: "last (xs[i := last xs]) = last xs" using assms by (cases xs rule: rev_cases) (auto simp: last_list_update)
  have "mset (butlast (xs[i := last xs])) = mset (xs[i := last xs]) - {#last xs#}"
    using append_butlast_last_id [OF ne] last by (metis add_diff_cancel_right' mset_append mset_single_iff_right mset.simps union_code)
  then show ?thesis unfolding swap_remove_def using assms by (simp add: mset_update)
qed

definition extreme_inv :: "extremum \<Rightarrow> 'v::linorder \<Rightarrow> 'v option \<Rightarrow> 'v list \<Rightarrow> 'v multiset \<Rightarrow> bool" where
  "extreme_inv op nl cur vs V \<longleftrightarrow>
     (\<forall>v\<in>set vs. is_extreme_value op cur v \<and> (v \<noteq> nl \<or> cur = Some nl)) \<and>
     (\<forall>v. v \<noteq> nl \<longrightarrow> is_extreme_value op cur v \<longrightarrow>
        (if cur = Some v then count (mset vs) v \<le> count V v else count (mset vs) v = count V v))"

lemma extreme_inv_insert:
  "\<lbrakk>extreme_inv op nl cur vs V; v \<noteq> nl\<rbrakk> \<Longrightarrow> extreme_inv op nl cur (extreme_step op cur (DiffInsert v) vs) (add_mset v V)"
  by (auto simp: extreme_inv_def)

lemma extreme_inv_remove:
  assumes inv: "extreme_inv op nl cur vs V" and v: "v \<noteq> nl" "v \<in># V"
  shows "extreme_inv op nl cur (extreme_step op cur (DiffRemove v) vs) (V - {#v#})"
proof (cases "is_extreme_value op cur v")
  case True
  show ?thesis
  proof (cases "position_of v vs")
    case None
    then have z: "count (mset vs) v = 0" by (simp add: position_of_None count_eq_zero_iff)
    moreover have "count V v \<noteq> 0" using v(2) by simp
    ultimately have "cur = Some v" using inv v(1) True unfolding extreme_inv_def by metis
    with None True inv show ?thesis by (auto simp: extreme_inv_def z)
  next
    case (Some i)
    from position_of_Some [OF Some] have i: "i < length vs" "vs ! i = v" by simp_all
    have m: "mset (swap_remove i vs) = mset vs - {#v#}" using mset_swap_remove [OF i(1)] i(2) by simp
    have "set (swap_remove i vs) \<subseteq> set vs"
      using m by (metis in_diffD set_mset_mset subsetI)
    moreover have "(if cur = Some w then count (mset vs - {#v#}) w \<le> count (V - {#v#}) w
        else count (mset vs - {#v#}) w = count (V - {#v#}) w)" if "w \<noteq> nl" "is_extreme_value op cur w" for w
      using inv that unfolding extreme_inv_def by (cases "w = v") (auto intro: diff_le_mono)
    ultimately show ?thesis
      using inv True Some m unfolding extreme_inv_def by (auto simp del: count_diff)
  qed
next
  case False
  with inv show ?thesis by (auto simp: extreme_inv_def)
qed

lemma extreme_inv_result:
  assumes inv: "extreme_inv op nl cur vs V" and null: "op = ExtMin \<Longrightarrow> cur \<noteq> Some nl" "\<And>x. nl \<le> x" "nl \<notin># V"
    and m: "m \<in> set vs" "\<And>x. x \<in> set vs \<Longrightarrow> beyond op m x"
  shows "m = most_extreme nl op V"
proof -
  have ext: "x \<in> set vs" if "x \<in># V" "is_extreme_value op cur x" "cur \<noteq> Some x" for x
  proof -
    have "x \<noteq> nl" using that(1) null(3) by auto
    then have "count (mset vs) x = count V x" using inv that(2,3) by (auto simp: extreme_inv_def)
    then show ?thesis using that(1) by (metis count_greater_zero_iff set_mset_mset)
  qed
  have mx: "is_extreme_value op cur m" using inv m(1) by (auto simp: extreme_inv_def)
  have best: "beyond op m x" if x: "x \<in># V" for x
  proof (rule ccontr)
    assume not: "\<not> beyond op m x"
    then have "beyond op x m" by (cases op) (auto simp: beyond_def)
    then have "is_extreme_value op cur x" using mx by (cases op) (auto simp: is_extreme_iff beyond_def)
    moreover have "cur \<noteq> Some x" using mx not by (auto simp: is_extreme_iff)
    ultimately show False using ext [OF x] m(2) not by blast
  qed
  show ?thesis
  proof (cases "m = nl")
    case True
    then have "cur = Some nl" using inv m(1) by (auto simp: extreme_inv_def)
    then have "op = ExtMax" using null(1) by (cases op) auto
    then have "x = nl" if "x \<in># V" for x using best [OF that] True null(2) [of x] by (simp add: beyond_def)
    then have "V = {#}" using null(3) by (metis multiset_nonemptyE)
    then show ?thesis using True by (simp add: most_extreme_def)
  next
    case False
    have "0 < count (mset vs) m" using m(1) by simp
    then have "m \<in># V" using inv mx False unfolding extreme_inv_def by (metis count_greater_zero_iff order.strict_trans2)
    then show ?thesis using most_extreme_eqI best by metis
  qed
qed

lemma fold_extremes:
  "vs \<noteq> [] \<Longrightarrow> fold min (tl vs) (hd vs) = Min (set vs)" "vs \<noteq> [] \<Longrightarrow> fold max (tl vs) (hd vs) = Max (set vs)"
  using Min.set_eq_fold [of "hd vs" "tl vs"] Max.set_eq_fold [of "hd vs" "tl vs"] by (simp_all del: set_simps)

lemma ext_apply_result:
  assumes vs: "vs = fold (extreme_step (ext_op e) cur) ds (case cur of Some d \<Rightarrow> [d] | None \<Rightarrow> [])"
    and m: "ext_apply e c cur ds = Inr (Some m, c')"
  shows "m \<in> set vs \<and> (\<forall>x\<in>set vs. beyond (ext_op e) m x)"
proof -
  have "vs \<noteq> []" and "m = (case ext_op e of ExtMin \<Rightarrow> fold min (tl vs) (hd vs) | ExtMax \<Rightarrow> fold max (tl vs) (hd vs))"
    using m unfolding ext_apply_def vs [symmetric] by (auto split: if_splits)
  then show ?thesis by (cases "ext_op e") (simp_all add: fold_extremes beyond_def)
qed

lemma over_values_simps [simp]:
  "over_values ops e {#} = {#}"
  "over_values ops e (add_mset row M) =
     (if row ! ext_over e = null ops then over_values ops e M else add_mset (row ! ext_over e) (over_values ops e M))"
  by (simp_all add: over_values_def)

lemma over_values_remove:
  assumes "row \<in># M"
  shows "over_values ops e (M - {#row#}) =
     (if row ! ext_over e = null ops then over_values ops e M else over_values ops e M - {#row ! ext_over e#})"
proof -
  have "over_values ops e M = over_values ops e (add_mset row (M - {#row#}))" using assms by simp
  then show ?thesis by (cases "row ! ext_over e = null ops") simp_all
qed

lemma over_values_member: "\<lbrakk>row \<in># M; row ! ext_over e \<noteq> null ops\<rbrakk> \<Longrightarrow> row ! ext_over e \<in># over_values ops e M"
  by (auto simp: over_values_def)

lemma extreme_inv_batch:
  assumes "extreme_inv (ext_op e) (null ops) cur vs (over_values ops e M)" "in_order M rs"
    and "try_map (\<lambda>r. ext_to_diff ops e (rec r) (is_positive r)) rs = Inr ds"
  shows "extreme_inv (ext_op e) (null ops) cur (fold (extreme_step (ext_op e) cur) ds vs) (over_values ops e (apply_records M rs))"
  using assms
proof (induction rs arbitrary: M ds vs)
  case Nil
  then show ?case by (simp add: apply_records_def)
next
  case (Cons r rs)
  obtain d ds' where d: "ext_to_diff ops e (rec r) (is_positive r) = Inr d"
      "try_map (\<lambda>r. ext_to_diff ops e (rec r) (is_positive r)) rs = Inr ds'" "ds = d # ds'"
    using Cons.prems(3) by (auto simp: result_simps)
  let ?M = "if is_positive r then add_mset (rec r) M else M - {#rec r#}"
  have ord: "in_order ?M rs" "\<not> is_positive r \<Longrightarrow> rec r \<in># M" using Cons.prems(2) by (cases r; simp)+
  have d': "d = (if rec r ! ext_over e = null ops then DiffNone
      else if is_positive r then DiffInsert (rec r ! ext_over e) else DiffRemove (rec r ! ext_over e))"
    using d(1) by (auto simp: ext_to_diff_def Let_def split: if_splits)
  have "extreme_inv (ext_op e) (null ops) cur (extreme_step (ext_op e) cur d vs) (over_values ops e ?M)"
  proof (cases "rec r ! ext_over e = null ops")
    case True
    then show ?thesis using d' Cons.prems(1) ord(2) by (simp add: over_values_remove)
  next
    case False
    then show ?thesis
      using d' extreme_inv_insert [OF Cons.prems(1) False] extreme_inv_remove [OF Cons.prems(1) False] ord(2)
      by (cases "is_positive r") (simp_all add: over_values_remove over_values_member)
  qed
  then show ?case
    using Cons.IH [OF _ ord(1) d(2)] d(3) apply_records_Cons [OF Cons.prems(2)] by simp
qed

lemma extreme_inv_start:
  "extreme_inv (ext_op e) (null ops) (if M = {#} then None else Some (most_extreme (null ops) (ext_op e) (over_values ops e M)))
     (case if M = {#} then None else Some (most_extreme (null ops) (ext_op e) (over_values ops e M)) of Some d \<Rightarrow> [d] | None \<Rightarrow> [])
     (over_values ops e M)"
proof (cases "M = {#}")
  case False
  let ?V = "over_values ops e M" and ?n = "most_extreme (null ops) (ext_op e) (over_values ops e M)"
  have best: "?n \<in># ?V" "\<And>x. x \<in># ?V \<Longrightarrow> beyond (ext_op e) ?n x" if "?V \<noteq> {#}"
    using that by (cases "ext_op e"; simp add: most_extreme_def beyond_def)+
  have "?n = null ops" if "?V = {#}" using that by (simp add: most_extreme_def)
  then have "1 \<le> count ?V ?n" if "?n \<noteq> null ops" using that best(1) by fastforce
  moreover have "count ?V v = 0" if "v \<noteq> ?n" "beyond (ext_op e) v ?n" for v
  proof (rule ccontr)
    assume "count ?V v \<noteq> 0"
    then have "v \<in># ?V" by (simp add: not_in_iff)
    then have "beyond (ext_op e) ?n v" using best(2) by (metis empty_iff set_mset_empty)
    then show False using that by (cases "ext_op e") (simp_all add: beyond_def)
  qed
  moreover have "beyond (ext_op e) ?n ?n" by (cases "ext_op e") (simp_all add: beyond_def)
  ultimately show ?thesis using False by (auto simp: extreme_inv_def is_extreme_iff)
qed (simp add: extreme_inv_def)

locale extremal = row_counter ops for ops :: "'v::linorder value_ops" +
  fixes e :: extremum_operator
  assumes null_least: "null ops \<le> x"
begin

lemma ext_apply_extreme:
  assumes good: "comparable ops e M" and ord: "in_order M rs"
    and ds: "try_map (\<lambda>r. ext_to_diff ops e (rec r) (is_positive r)) rs = Inr ds"
    and m: "ext_apply e () (if M = {#} then None else Some (most_extreme (null ops) (ext_op e) (over_values ops e M))) ds = Inr (Some m, c')"
  shows "m = most_extreme (null ops) (ext_op e) (over_values ops e (apply_records M rs))"
proof -
  let ?V = "over_values ops e M"
  define cur where "cur = (if M = {#} then None else Some (most_extreme (null ops) (ext_op e) ?V))"
  let ?vs = "case cur of Some d \<Rightarrow> [d] | None \<Rightarrow> []"
  have nn: "null ops \<notin># over_values ops e N" for N by (simp add: over_values_def)
  have mem: "most_extreme (null ops) (ext_op e) ?V \<in># ?V" "x \<in># ?V \<Longrightarrow> beyond (ext_op e) (most_extreme (null ops) (ext_op e) ?V) x"
    if "?V \<noteq> {#}" for x
    using that by (cases "ext_op e"; simp add: most_extreme_def beyond_def)+
  have minV: "?V \<noteq> {#}" if "ext_op e = ExtMin" "M \<noteq> {#}"
    using that good by (auto simp: comparable_def over_values_def filter_mset_eq_mempty_iff dest: multiset_nonemptyE)
  have inv: "extreme_inv (ext_op e) (null ops) cur ?vs ?V" unfolding cur_def by (rule extreme_inv_start)
  show ?thesis
  proof (rule extreme_inv_result [OF extreme_inv_batch [OF inv ord ds] _ null_least nn])
    show "ext_op e = ExtMin \<Longrightarrow> cur \<noteq> Some (null ops)"
      using minV mem(1) nn [of M] by (auto simp: cur_def split: if_splits)
    show "m \<in> set (fold (extreme_step (ext_op e) cur) ds ?vs)" "\<And>x. x \<in> set (fold (extreme_step (ext_op e) cur) ds ?vs) \<Longrightarrow> beyond (ext_op e) m x"
      using ext_apply_result [OF refl m [folded cur_def]] by auto
  qed
qed

end

sublocale extremal \<subseteq> group_aggregate ops "extremum_operation ops e"
    "\<lambda>M. most_extreme (null ops) (ext_op e) (over_values ops e M)" "comparable ops e"
proof unfold_locales
  fix M N assume "comparable ops e M" "N \<subseteq># M"
  then show "comparable ops e N"
    using size_mset_mono [of N M] by (auto simp: comparable_def dest: mset_subset_eqD)
next
  fix M row pos assume "comparable ops e M" "row \<in># M"
  then show "\<exists>d. op_to_diff (extremum_operation ops e) row pos = Inr d"
    by (auto simp: comparable_def extremum_operation_def ext_to_diff_def Let_def)
next
  fix M rs ds s
  assume good: "comparable ops e (M + positives rs)" and ord: "in_order M rs"
    and ds: "try_map (\<lambda>r. op_to_diff (extremum_operation ops e) (rec r) (is_positive r)) rs = Inr ds"
  let ?cur = "if M = {#} then None else Some (most_extreme (null ops) (ext_op e) (over_values ops e M))"
  have "comparable ops e M" using good by (auto simp: comparable_def)
  then have "v = most_extreme (null ops) (ext_op e) (over_values ops e (apply_records M rs))"
    if "ext_apply e () ?cur ds = Inr (Some v, c')" for v c'
    using ext_apply_extreme [OF _ ord _ that] ds by (simp add: extremum_operation_def)
  moreover have "\<exists>res. ext_apply e () ?cur ds = Inr (res, ())" by (simp add: ext_apply_def Let_def)
  ultimately show "\<exists>res s'. op_apply (extremum_operation ops e) s ?cur ds = Inr (res, s') \<and>
      (\<forall>v. res = Some v \<longrightarrow> apply_records M rs \<noteq> {#} \<longrightarrow>
         v = most_extreme (null ops) (ext_op e) (over_values ops e (apply_records M rs)))"
    by (auto simp: extremum_operation_def)
next
  fix rows ds s
  assume good: "comparable ops e (mset rows)"
    and ds: "try_map (\<lambda>row. op_to_diff (extremum_operation ops e) row True) rows = Inr ds"
  have ds': "try_map (\<lambda>r. ext_to_diff ops e (rec r) (is_positive r)) (map Positive rows) = Inr ds"
    using ds by (simp add: try_map_map extremum_operation_def o_def)
  show "\<exists>res s'. op_apply (extremum_operation ops e) s None ds = Inr (res, s') \<and> (rows \<noteq> [] \<longrightarrow>
      (case res of Some v \<Rightarrow> v | None \<Rightarrow> (case op_empty_value (extremum_operation ops e) of Some v \<Rightarrow> v | None \<Rightarrow> null ops)) =
      most_extreme (null ops) (ext_op e) (over_values ops e (mset rows)))"
  proof (cases "ext_apply e () None ds")
    case (Inr x)
    obtain res where x: "x = (res, ())" by (cases x) simp
    have mem: "extreme_inv (ext_op e) (null ops) None (fold (extreme_step (ext_op e) None) ds []) (over_values ops e (mset rows))"
      using extreme_inv_batch [OF _ insertions(3) ds', of None "[]" "{#}"] extreme_inv_start [of e ops "{#}"]
      by (simp add: apply_records_def)
    have "(case res of Some v \<Rightarrow> v | None \<Rightarrow> null ops) = most_extreme (null ops) (ext_op e) (over_values ops e (mset rows))"
    proof (cases res)
      case None
      then have "fold (extreme_step (ext_op e) None) ds [] = []"
        using Inr x by (auto simp: ext_apply_def Let_def split: if_splits)
      then have "count (over_values ops e (mset rows)) v = 0" if "v \<noteq> null ops" for v
        using mem that by (auto simp: extreme_inv_def is_extreme_iff)
      then have "over_values ops e (mset rows) = {#}"
        by (intro multiset_eqI) (auto simp: over_values_def)
      with None show ?thesis by (simp add: most_extreme_def)
    next
      case (Some m)
      have "comparable ops e {#}" by (simp add: comparable_def)
      from ext_apply_extreme [OF this insertions(3) ds'] Some Inr x show ?thesis by (simp add: apply_records_def)
    qed
    with Inr x show ?thesis by (cases res) (simp_all add: extremum_operation_def)
  qed (simp add: ext_apply_def Let_def)
next
  show "op_emit_empty (extremum_operation ops e) = False" by (simp add: extremum_operation_def)
next
  fix M n assume "comparable ops e M" "n \<le> size M"
  then show "to_i64 ops (of_i64 ops (int n)) = Some (int n)" by (intro row_count) (auto simp: comparable_def)
qed

subsection \<open>Integers with NULL\<close>

text \<open>
  The values that are NULL or a signed integer, with the order and the arithmetic that \<open>DfValue\<close> has on them. A zero of
  the other numeric types is identified with the integer zero; texts are not among these values.
\<close>

definition int_arith :: "arith \<Rightarrow> int option \<Rightarrow> int option \<Rightarrow> df_error + int option" where
  "int_arith op a b = Inr (case (a, b) of (Some x, Some y) \<Rightarrow> checked i64_range op x y | _ \<Rightarrow> None)"

definition int_ops :: "int option value_ops" where
  "int_ops =
     \<lparr>null = None, of_i64 = Some, to_i64 = id, v_add = int_arith Plus, v_sub = int_arith Minus, v_div = int_arith Divide,
      double_zero = Some 0, numeric_zero = Some 0, of_text = (\<lambda>_. None), as_text = (\<lambda>_. None), display = (\<lambda>_. '''')\<rparr>"

definition as_df_value :: "int option \<Rightarrow> ('f, 'd, 'n, 'o) df_value" where
  "as_df_value = from_option from_i64"

lemma int_arith_df_value:
  assumes "list_all i64_range (map the (filter (\<lambda>v. v \<noteq> None) [a, b]))"
  shows "arithmetic_operation num op (as_df_value a) (as_df_value b) = map_sum id as_df_value (int_arith op a b)"
  using assms
  by (cases a; cases b)
    (auto simp: arithmetic_operation_def as_df_value_def from_option_def from_i64_def int_arith_def i64_roundtrip)

interpretation int_values: exact_addition int_ops Some "2 ^ 63 - 1"
proof unfold_locales
  have range: "i64_range z" if "\<bar>z\<bar> \<le> 2 ^ 63 - 1" for z
    using that unfolding i64_range_def by linarith
  fix a b :: int
  show "\<bar>a + b\<bar> \<le> 2 ^ 63 - 1 \<Longrightarrow> v_add int_ops (Some a) (Some b) = Inr (Some (a + b))"
    "\<bar>a - b\<bar> \<le> 2 ^ 63 - 1 \<Longrightarrow> v_sub int_ops (Some a) (Some b) = Inr (Some (a - b))"
    using range [of "a + b"] range [of "a - b"] by (simp_all add: int_ops_def int_arith_def checked_def)
qed (simp_all add: int_ops_def)

interpretation int_count: summing int_ops Some "2 ^ 63 - 1" hash the "aggregation_over Count over (c # gb) any_float"
  for hash over c gb any_float
  by unfold_locales (simp_all add: aggregation_over_def agg_over_type_def new_data_def int_ops_def)

interpretation int_sum: summing int_ops Some "2 ^ 63 - 1" hash the "aggregation_over Sum over (c # gb) any_float"
  for hash over c gb any_float
  by unfold_locales (simp_all add: aggregation_over_def agg_over_type_def new_data_def int_ops_def)

interpretation int_extreme: extremal int_ops e for e
  by unfold_locales (simp add: int_ops_def)

definition int_total :: "aggregator \<Rightarrow> int option row multiset \<Rightarrow> int option" where
  "int_total a M = Some (group_total int_ops the a M)"

definition int_extremum :: "extremum_operator \<Rightarrow> int option row multiset \<Rightarrow> int option" where
  "int_extremum e M = most_extreme None (ext_op e) (over_values int_ops e M)"



subsection \<open>Examples\<close>

definition example_grouped :: "('v, 'd, 's) grouped_operation \<Rightarrow> ('v, 'd, 's) grouped_operator" where
  "example_grouped op =
     \<lparr>grouped_src = 0, grouped_inner = op, grouped_us = 1, grouped_group_by = [0], out_key = [0]\<rparr>"

definition example_sum :: aggregator where
  "example_sum = aggregation_over Sum 1 [0] False"

definition example_max :: extremum_operator where
  "example_max = \<lparr>ext_op = ExtMax, ext_over = 1, ext_group = [0]\<rparr>"

definition example_rows :: "int option row list" where
  "example_rows = [[Some 1, Some 10], [Some 1, None], [Some 2, Some 7]]"

definition example_batch :: "int option records" where
  "example_batch = [Positive [Some 1, Some 5], Negative [Some 2, Some 7]]"

definition example_after :: "int option row list" where
  "example_after = [[Some 1, Some 10], [Some 1, None], [Some 1, Some 5]]"

lemma example_apply: "apply_records (mset example_rows) example_batch = mset example_after"
  by (simp add: example_rows_def example_batch_def example_after_def apply_records_def)

lemma example_in_order: "in_order (mset example_rows) example_batch"
  by (simp add: example_rows_def example_batch_def)

lemma example_view:
  "grouped_view int_ops agg [0] (\<lambda>_. True) (mset example_rows) =
     {#[Some 1, agg {#[Some 1, Some 10], [Some 1, None]#}, Some 2], [Some 2, agg {#[Some 2, Some 7]#}, Some 1]#}"
proof -
  have "{h \<in> columns [0] ` set_mset (mset example_rows). True} = {[Some 1], [Some 2]}"
    by (auto simp: example_rows_def columns_def)
  then show ?thesis
    by (simp add: grouped_view_def example_rows_def rows_of_def columns_def group_view_def int_ops_def add_mset_commute)
qed

lemma example_placed:
  assumes "mset own = grouped_view int_ops agg [0] (\<lambda>_. True) (mset example_rows)"
  shows "placed (node_states own example_after) (example_grouped op) [0] (view_of own)
    (grouped_view int_ops agg [0] (\<lambda>_. True) (mset example_rows)) (apply_records (mset example_rows) example_batch)"
  unfolding placed_def assms [symmetric] example_apply
  by (auto simp: example_grouped_def node_states_def answers_view_of) (simp add: view_of_def)



definition example_text_ops :: "int option value_ops" where
  "example_text_ops = int_ops\<lparr>as_text := \<lambda>v. map_option (\<lambda>_. ''x'') v, of_text := \<lambda>_. Some 0\<rparr>"


end
