(* ===== verification/Join.thy ===== *)
theory Join
  imports Union StateViews
begin

section \<open>The join operator\<close>

text \<open>
  \<open>src/readyset-dataflow/src/ops/join.rs\<close>: inner joins and left joins of two parents on a list of pairs of columns.
  A batch from one parent is cut into runs of records with the same join key, and each run is matched with the rows that
  a lookup finds in the other parent. The NULL value is a parameter \<open>nl\<close>. A column that a row does not
  have is a panic; the keys of all records are read before the first lookup, which only matters for which of several
  errors is the one reported.
\<close>

datatype join_type = JoinLeft | JoinInner

datatype join_source = SourceL nat | SourceR nat | SourceB nat nat

record 'v join =
  join_left :: nat
  join_right :: nat
  join_on :: "(nat \<times> nat) list"
  join_emit :: "(side \<times> nat) list"
  in_place_left_emit :: "(side \<times> nat) list"
  in_place_right_emit :: "(side \<times> nat) list"
  generated_column_buffer :: "((nat list \<times> side) \<times> 'v records) list"
  join_kind :: join_type

subsection \<open>Construction\<close>

fun source_column :: "join_source \<Rightarrow> side \<times> nat" where
  "source_column (SourceL c) = (SideLeft, c)"
| "source_column (SourceR c) = (SideRight, c)"
| "source_column (SourceB lc rc) = (SideLeft, lc)"

fun join_columns :: "join_source list \<Rightarrow> (nat \<times> nat) list" where
  "join_columns [] = []"
| "join_columns (SourceB lc rc # ss) = (lc, rc) # join_columns ss"
| "join_columns (_ # ss) = join_columns ss"

definition num_columns :: "side \<Rightarrow> (side \<times> nat) list \<Rightarrow> nat" where
  "num_columns s emit = fold (\<lambda>(s', c) n. if s' = s then max n (c + 1) else n) emit 0"

fun position_eq :: "nat \<Rightarrow> nat list \<Rightarrow> nat option" where
  "position_eq x [] = None"
| "position_eq x (y # ys) = (if y = x then Some 0 else map_option Suc (position_eq x ys))"

fun in_place_emit :: "side \<Rightarrow> nat \<Rightarrow> (side \<times> nat) list \<Rightarrow> nat list \<Rightarrow> (side \<times> nat) list" where
  "in_place_emit s i [] remap = []"
| "in_place_emit s i ((from_side, c) # emit) remap =
     (if from_side = s
      then
        let remapped = remap ! c;
            other_pos = position_eq i remap;
            remap = remap[c := i];
            remap = (case other_pos of Some p \<Rightarrow> remap[p := remapped] | None \<Rightarrow> remap)
        in (from_side, remapped) # in_place_emit s (i + 1) emit remap
      else (from_side, c) # in_place_emit s (i + 1) emit remap)"

definition compute_in_place_emit :: "(side \<times> nat) list \<Rightarrow> side \<Rightarrow> (side \<times> nat) list" where
  "compute_in_place_emit emit s = in_place_emit s 0 emit [0..<num_columns s emit]"

definition join_new :: "nat \<Rightarrow> nat \<Rightarrow> join_type \<Rightarrow> join_source list \<Rightarrow> 'v join" where
  "join_new left right kind emit =
     (let cols = map source_column emit in
      \<lparr>join_left = left, join_right = right, join_on = join_columns emit, join_emit = cols,
       in_place_left_emit = compute_in_place_emit cols SideLeft, in_place_right_emit = compute_in_place_emit cols SideRight,
       generated_column_buffer = [], join_kind = kind\<rparr>)"

definition on_left :: "'v join \<Rightarrow> nat list" where
  "on_left j = map fst (join_on j)"

definition on_right :: "'v join \<Rightarrow> nat list" where
  "on_right j = map snd (join_on j)"

definition join_on_commit :: "(nat \<Rightarrow> nat) \<Rightarrow> 'v join \<Rightarrow> 'v join" where
  "join_on_commit remap j = j\<lparr>join_left := remap (join_left j), join_right := remap (join_right j)\<rparr>"

definition join_replace_sibling :: "nat \<Rightarrow> nat \<Rightarrow> 'v join \<Rightarrow> 'v join" where
  "join_replace_sibling from_idx to_idx j =
     (let j = (if join_left j = from_idx then j\<lparr>join_left := to_idx\<rparr> else j)
      in if join_right j = from_idx then j\<lparr>join_right := to_idx\<rparr> else j)"

subsection \<open>Output rows\<close>

definition column_of :: "'v row \<Rightarrow> nat \<Rightarrow> df_error + 'v" where
  "column_of row col = (if col < length row then Inr (row ! col) else Inl Panic)"

definition generate_row :: "'v join \<Rightarrow> 'v row \<Rightarrow> 'v row \<Rightarrow> df_error + 'v row" where
  "generate_row j l r =
     try_map (\<lambda>(s, col). case s of SideLeft \<Rightarrow> column_of l col | SideRight \<Rightarrow> column_of r col) (join_emit j)"

definition generate_null :: "'v \<Rightarrow> 'v join \<Rightarrow> 'v row \<Rightarrow> df_error + 'v row" where
  "generate_null nl j l =
     try_map (\<lambda>(s, col). if s = SideLeft then column_of l col else Inr nl) (join_emit j)"

text \<open>Both key projections fail alike when a column is missing: two failures are equal keys only with the same index.\<close>

definition handle_replay_for_generated :: "'v join \<Rightarrow> 'v records \<Rightarrow> 'v records \<Rightarrow> df_error + 'v records" where
  "handle_replay_for_generated j ls rs =
     try_bind
       (try_map (\<lambda>l. if \<not> is_positive l then Inl Internal
          else try_map (\<lambda>r. try_bind (generate_row j (rec l) (rec r)) (\<lambda>row. Inr (Positive row)))
                 (filter (\<lambda>r. cloned_indices (rec l) (on_left j) = cloned_indices (rec r) (on_right j)) rs)) ls)
       (\<lambda>rss. Inr (concat rss))"

definition resolve_col :: "'v join \<Rightarrow> nat \<Rightarrow> df_error + nat option \<times> nat option" where
  "resolve_col j col =
     (if col < length (join_emit j)
      then
        (case join_emit j ! col of (s, pcol) \<Rightarrow>
           let found =
             (case find (\<lambda>(l, _). s = SideLeft \<and> l = pcol) (join_on j) of
                Some p \<Rightarrow> Some p
              | None \<Rightarrow> find (\<lambda>(_, r). s = SideRight \<and> r = pcol) (join_on j))
           in Inr (case found of
                     Some (on_l, on_r) \<Rightarrow> (Some on_l, Some on_r)
                   | None \<Rightarrow> if s = SideLeft then (Some pcol, None) else (None, Some pcol)))
      else Inl Panic)"

subsection \<open>Processing a batch\<close>

text \<open>The columns of a replay key in the parent a batch comes from; \<open>None\<close> when a column is not of that parent.\<close>

definition replay_col :: "'v join \<Rightarrow> nat \<Rightarrow> nat \<Rightarrow> df_error + nat option" where
  "replay_col j from col =
     (if col < length (join_emit j)
      then
        Inr (case join_emit j ! col of
               (SideLeft, l) \<Rightarrow>
                 if from = join_left j then Some l
                 else map_option snd (find (\<lambda>(on_l, _). on_l = l) (join_on j))
             | (SideRight, r) \<Rightarrow>
                 if from = join_right j then Some r
                 else map_option fst (find (\<lambda>(_, on_r). on_r = r) (join_on j)))
      else Inl Panic)"

fun replay_cols :: "'v join \<Rightarrow> nat \<Rightarrow> nat list \<Rightarrow> df_error + nat list option" where
  "replay_cols j from [] = Inr (Some [])"
| "replay_cols j from (c # cs) =
     try_bind (replay_col j from c)
       (\<lambda>r. case r of
          None \<Rightarrow> Inr None
        | Some c' \<Rightarrow> try_bind (replay_cols j from cs) (\<lambda>rs. Inr (map_option (Cons c') rs)))"

text \<open>\<open>group_by\<close> of \<open>itertools\<close>: runs of neighbours with the same key.\<close>

fun runs :: "('a \<Rightarrow> 'k) \<Rightarrow> 'a list \<Rightarrow> ('k \<times> 'a list) list" where
  "runs key [] = []"
| "runs key (x # xs) =
     (case runs key xs of
        (k, ys) # rest \<Rightarrow> if k = key x then (k, x # ys) # rest else (key x, [x]) # (k, ys) # rest
      | [] \<Rightarrow> [(key x, [x])])"

record 'v join_state =
  j_ret :: "'v records"
  j_misses :: "'v miss list"
  j_lookups :: "'v lookup list"

definition join_lookup ::
    "nat \<Rightarrow> nat list \<Rightarrow> bool \<Rightarrow> 'v list \<Rightarrow> 'v join_state \<Rightarrow> df_error + 'v join_state" where
  "join_lookup on cols wanted key st =
     (if wanted
      then
        (case kc_try_from key of
           Inl _ \<Rightarrow> Inl Internal
         | Inr k \<Rightarrow> Inr (st\<lparr>j_lookups := j_lookups st @ [\<lparr>lookup_on = on, lookup_cols = cols, lookup_key = k\<rparr>]\<rparr>))
      else Inr st)"

definition join_records ::
    "'v \<Rightarrow> 'v join \<Rightarrow> bool \<Rightarrow> 'v row list \<Rightarrow> 'v df_record \<Rightarrow> df_error + 'v records" where
  "join_records nl j from_left other_rows r =
     (let row = rec r; signed = (\<lambda>row. record_from (row, is_positive r)) in
      if other_rows = []
      then
        (if join_kind j = JoinLeft \<and> from_left
         then try_bind (generate_null nl j row) (\<lambda>row. Inr [signed row])
         else Inr [])
      else
        try_map (\<lambda>other. try_bind (if from_left then generate_row j row other else generate_row j other row)
           (\<lambda>row. Inr (signed row))) other_rows)"

definition null_rows ::
    "'v \<Rightarrow> 'v join \<Rightarrow> nat option \<Rightarrow> int \<Rightarrow> 'v row list \<Rightarrow> df_error + 'v records" where
  "null_rows nl j new_right_count rc_diff other_rows =
     (case new_right_count of
        None \<Rightarrow> Inr []
      | Some new_rc \<Rightarrow>
          let old_rc = int new_rc - rc_diff in
          if new_rc = 0 \<and> old_rc \<noteq> 0
          then try_map (\<lambda>other. try_bind (generate_null nl j other) (\<lambda>row. Inr (Positive row))) other_rows
          else if new_rc \<noteq> 0 \<and> old_rc = 0
          then try_map (\<lambda>other. try_bind (generate_null nl j other) (\<lambda>row. Inr (Negative row))) other_rows
          else Inr [])"

definition join_run ::
    "(nat \<Rightarrow> 'v::linorder state_view option) \<Rightarrow> 'v query_through \<Rightarrow> 'v \<Rightarrow> 'v join \<Rightarrow> bool \<Rightarrow> 'v replay_context \<Rightarrow>
     nat list option \<Rightarrow> 'v list \<times> 'v records \<Rightarrow> 'v join_state \<Rightarrow> df_error + 'v join_state" where
  "join_run states through nl j from_left ctx rkc = (\<lambda>(join_key, group_rs) st.
     let is_replay = (rkc \<noteq> None);
         mode = (if is_replay then Strict else Weak);
         other = (if from_left then join_right j else join_left j);
         from_key = (if from_left then on_left j else on_right j);
         other_key = (if from_left then on_right j else on_left j);
         nulls = (nl \<in> set join_key)
     in
     try_bind
       (if join_kind j = JoinLeft \<and> \<not> from_left
        then
          try_bind (point_key_from join_key)
            (\<lambda>pk. try_bind (ingredient_lookup states through (join_right j) (on_right j) pk mode)
               (\<lambda>rc. case rc of
                  LookupRecords rc \<Rightarrow>
                    try_bind (join_lookup (join_right j) (on_right j) (is_replay \<and> \<not> nulls) join_key st)
                      (\<lambda>st. Inr (Some (Some (length rc), st)))
                | LookupMiss \<Rightarrow> Inr None))
        else Inr (Some (None, st)))
       (\<lambda>res. case res of
          None \<Rightarrow> Inr st
        | Some (new_right_count, st) \<Rightarrow>
            try_bind
              (if nulls then Inr (LookupRecords [])
               else try_bind (point_key_from join_key)
                      (\<lambda>pk. ingredient_lookup states through other other_key pk mode))
              (\<lambda>other_lookup. case other_lookup of
                 LookupMiss \<Rightarrow>
                   try_bind (try_map (\<lambda>r. miss_build other other_key (LookupRecordColumns from_key) ctx rkc (rec r)) group_rs)
                     (\<lambda>ms. Inr (st\<lparr>j_misses := j_misses st @ ms\<rparr>))
               | LookupRecords recs \<Rightarrow>
                   try_bind (join_lookup other other_key (is_replay \<and> \<not> nulls) join_key st)
                     (\<lambda>st. try_bind (collect_rows recs)
                        (\<lambda>other_rows. try_bind (try_map (join_records nl j from_left other_rows) group_rs)
                           (\<lambda>outs. try_bind (null_rows nl j new_right_count (net group_rs) other_rows)
                              (\<lambda>nulls. Inr (st\<lparr>j_ret := j_ret st @ concat outs @ nulls\<rparr>))))))))"

fun join_runs ::
    "(nat \<Rightarrow> 'v::linorder state_view option) \<Rightarrow> 'v query_through \<Rightarrow> 'v \<Rightarrow> 'v join \<Rightarrow> bool \<Rightarrow> 'v replay_context \<Rightarrow>
     nat list option \<Rightarrow> ('v list \<times> 'v records) list \<Rightarrow> 'v join_state \<Rightarrow> df_error + 'v join_state" where
  "join_runs states through nl j from_left ctx rkc [] st = Inr st"
| "join_runs states through nl j from_left ctx rkc (g # gs) st =
     try_bind (join_run states through nl j from_left ctx rkc g st)
       (join_runs states through nl j from_left ctx rkc gs)"

definition join_on_input ::
    "(nat \<Rightarrow> 'v::linorder state_view option) \<Rightarrow> 'v query_through \<Rightarrow> 'v \<Rightarrow> 'v join \<Rightarrow> nat \<Rightarrow> 'v records \<Rightarrow>
     'v replay_context \<Rightarrow> df_error + 'v processing_result \<times> 'v join" where
  "join_on_input states through nl j from rs ctx =
     (let from_left = (from = join_left j);
          this_side = (if from_left then SideLeft else SideRight)
      in
      try_bind
        (case replay_key_cols ctx of
           None \<Rightarrow> Inr (Some None)
         | Some cols \<Rightarrow> try_bind (replay_cols j from cols) (\<lambda>r. Inr (map_option Some r)))
        (\<lambda>cols. case cols of
           None \<Rightarrow>
             let orkc = (case replay_key_cols ctx of Some cs \<Rightarrow> cs | None \<Rightarrow> []) in
             (case hm_get (generated_column_buffer j) (orkc, other_side this_side) of
                Some other \<Rightarrow>
                  try_bind (if from_left then handle_replay_for_generated j rs other else handle_replay_for_generated j other rs)
                    (\<lambda>ret. Inr (\<lparr>results = ret, misses = [], lookups = []\<rparr>,
                       j\<lparr>generated_column_buffer := hm_remove (orkc, other_side this_side) (generated_column_buffer j)\<rparr>))
              | None \<Rightarrow>
                  Inr (\<lparr>results = [], misses = [], lookups = []\<rparr>,
                       j\<lparr>generated_column_buffer := hm_insert (orkc, this_side) rs (generated_column_buffer j)\<rparr>))
         | Some rkc \<Rightarrow>
             if rs = [] then Inr (\<lparr>results = [], misses = [], lookups = []\<rparr>, j)
             else
               let from_key = (if from_left then on_left j else on_right j) in
               if \<not> list_all (\<lambda>r. list_all (\<lambda>i. i < length (rec r)) from_key) rs then Inl Panic
               else
                 try_bind
                   (join_runs states through nl j from_left ctx rkc
                      (runs (\<lambda>r. map (\<lambda>i. rec r ! i) from_key) rs) \<lparr>j_ret = [], j_misses = [], j_lookups = []\<rparr>)
                   (\<lambda>st. Inr (\<lparr>results = j_ret st, misses = j_misses st, lookups = j_lookups st\<rparr>, j))))"

subsection \<open>Upqueries for columns of both parents\<close>

record 'v column_miss =
  cm_node :: nat
  cm_columns :: "nat list"
  cm_keys :: "'v key_comparison list"

fun col_sides :: "'v join \<Rightarrow> nat list \<Rightarrow> df_error + nat list \<times> nat list \<times> side list" where
  "col_sides j [] = Inr ([], [], [])"
| "col_sides j (c # cs) =
     try_bind (resolve_col j c)
       (\<lambda>(left_idx, right_idx). try_bind (col_sides j cs)
          (\<lambda>(ls, rs, sides).
             case left_idx of
               Some li \<Rightarrow> Inr (li # ls, rs, SideLeft # sides)
             | None \<Rightarrow>
                 (case right_idx of
                    Some ri \<Rightarrow> Inr (ls, ri # rs, SideRight # sides)
                  | None \<Rightarrow> Inl Internal)))"

definition side_values :: "side \<Rightarrow> side list \<Rightarrow> 'v list \<Rightarrow> 'v list" where
  "side_values s sides key = map fst (filter (\<lambda>(_, s'). s' = s) (zip key sides))"

definition vec1_or :: "df_error \<Rightarrow> 'v list \<Rightarrow> df_error + 'v list" where
  "vec1_or e xs = (if xs = [] then Inl e else Inr xs)"

fun bound_vec1 :: "'v list bound \<Rightarrow> df_error + 'v list bound" where
  "bound_vec1 (Included xs) = try_bind (vec1_or Panic xs) (\<lambda>xs. Inr (Included xs))"
| "bound_vec1 (Excluded xs) = try_bind (vec1_or Panic xs) (\<lambda>xs. Inr (Excluded xs))"
| "bound_vec1 Unbounded = Inr Unbounded"

definition range_part :: "side \<Rightarrow> side list \<Rightarrow> 'v list bound \<Rightarrow> 'v list bound \<Rightarrow> df_error + 'v key_comparison" where
  "range_part s sides lo up =
     try_bind (bound_vec1 (map_bound_key (side_values s sides) lo))
       (\<lambda>lo. try_bind (bound_vec1 (map_bound_key (side_values s sides) up)) (\<lambda>up. Inr (KRange (lo, up))))"

fun split_key :: "side list \<Rightarrow> 'v key_comparison \<Rightarrow> df_error + 'v key_comparison \<times> 'v key_comparison" where
  "split_key sides (KEqual key) =
     try_bind (vec1_or Internal (side_values SideLeft sides key))
       (\<lambda>l. try_bind (vec1_or Internal (side_values SideRight sides key)) (\<lambda>r. Inr (KEqual l, KEqual r)))"
| "split_key sides (KRange (lo, up)) =
     try_bind (range_part SideLeft sides lo up)
       (\<lambda>l. try_bind (range_part SideRight sides lo up) (\<lambda>r. Inr (l, r)))"

definition handle_upquery :: "'v join \<Rightarrow> 'v column_miss \<Rightarrow> df_error + 'v column_miss list" where
  "handle_upquery j miss =
     try_bind (col_sides j (cm_columns miss))
       (\<lambda>(left_cols, right_cols, sides). try_bind (try_map (split_key sides) (cm_keys miss))
          (\<lambda>keys. try_bind (vec1_or Panic left_cols)
             (\<lambda>left_cols. if keys = [] then Inl Panic
                else try_bind (vec1_or Panic right_cols)
                  (\<lambda>right_cols.
                     Inr [\<lparr>cm_node = join_left j, cm_columns = left_cols, cm_keys = map fst keys\<rparr>,
                          \<lparr>cm_node = join_right j, cm_columns = right_cols, cm_keys = map snd keys\<rparr>]))))"

definition join_column_source :: "'v join \<Rightarrow> nat list \<Rightarrow> df_error + column_source" where
  "join_column_source j cols =
     try_bind (try_map (resolve_col j) cols)
       (\<lambda>rcs.
          if list_all (\<lambda>(l, _). l \<noteq> None) rcs then exact_copy (join_left j) (List.map_filter fst rcs)
          else if list_all (\<lambda>(_, r). r \<noteq> None) rcs then exact_copy (join_right j) (List.map_filter snd rcs)
          else
            let rights = List.map_filter (\<lambda>(l, r). if l = None then r else None) rcs;
                lefts = List.map_filter fst rcs
            in if lefts = [] \<or> rights = [] then Inl Panic
               else Inr (GeneratedFromColumns [(join_left j, lefts), (join_right j, rights)]))"

end
