(* ===== verification/JoinProps.thy ===== *)
theory JoinProps
  imports Join
begin

section \<open>Joins maintain their view\<close>

text \<open>
  The view that a join has to maintain is defined from the contents of its parents. A batch from the left parent is
  linear in the view; so is a batch from the right parent for the matched rows of the join, and the rows of a left join
  that have no match change when the number of matches goes to or from zero.
\<close>

definition key_at :: "nat list \<Rightarrow> 'v row \<Rightarrow> 'v list" where
  "key_at cols row = map (\<lambda>i. row ! i) cols"

definition joined :: "'v join \<Rightarrow> 'v row \<Rightarrow> 'v row \<Rightarrow> 'v row" where
  "joined j l r = map (\<lambda>(s, c). case s of SideLeft \<Rightarrow> l ! c | SideRight \<Rightarrow> r ! c) (join_emit j)"

definition null_extended :: "'v \<Rightarrow> 'v join \<Rightarrow> 'v row \<Rightarrow> 'v row" where
  "null_extended nl j l = map (\<lambda>(s, c). if s = SideLeft then l ! c else nl) (join_emit j)"

text \<open>NULL matches nothing, not even NULL.\<close>

definition join_matches :: "'v \<Rightarrow> 'v join \<Rightarrow> 'v row \<Rightarrow> 'v row \<Rightarrow> bool" where
  "join_matches nl j l r \<longleftrightarrow> nl \<notin> set (key_at (on_left j) l) \<and> key_at (on_left j) l = key_at (on_right j) r"

definition left_part :: "'v \<Rightarrow> 'v join \<Rightarrow> 'v row multiset \<Rightarrow> 'v row \<Rightarrow> 'v row multiset" where
  "left_part nl j R l =
     (let ms = filter_mset (join_matches nl j l) R in
      if join_kind j = JoinLeft \<and> ms = {#} then {#null_extended nl j l#} else image_mset (joined j l) ms)"

definition join_view :: "'v \<Rightarrow> 'v join \<Rightarrow> 'v row multiset \<Rightarrow> 'v row multiset \<Rightarrow> 'v row multiset" where
  "join_view nl j L R = sum_mset (image_mset (left_part nl j R) L)"

subsection \<open>The parents\<close>

definition wide_left :: "'v join \<Rightarrow> 'v row \<Rightarrow> bool" where
  "wide_left j l \<longleftrightarrow> list_all (\<lambda>c. c < length l) (on_left j) \<and>
     list_all (\<lambda>(s, c). s = SideLeft \<longrightarrow> c < length l) (join_emit j)"

definition wide_right :: "'v join \<Rightarrow> 'v row \<Rightarrow> bool" where
  "wide_right j r \<longleftrightarrow> list_all (\<lambda>c. c < length r) (on_right j) \<and>
     list_all (\<lambda>(s, c). s = SideRight \<longrightarrow> c < length r) (join_emit j)"

text \<open>A fully materialised state answers every lookup with all rows of that key.\<close>

definition full_state :: "'v state_view \<Rightarrow> nat list \<Rightarrow> 'v row multiset \<Rightarrow> bool" where
  "full_state db cols M \<longleftrightarrow> \<not> state_is_partial db \<and>
     (\<forall>pk. \<exists>rows. state_lookup db cols pk = LookupSome rows \<and>
        mset rows = filter_mset (\<lambda>row. cloned_indices row cols = Inr (pk_elements pk)) M)"

definition joins_states ::
    "'v join \<Rightarrow> (nat \<Rightarrow> 'v state_view option) \<Rightarrow> 'v row multiset \<Rightarrow> 'v row multiset \<Rightarrow> bool" where
  "joins_states j states L R \<longleftrightarrow> join_left j \<noteq> join_right j \<and> join_on j \<noteq> [] \<and>
     (\<forall>l\<in>#L. wide_left j l) \<and> (\<forall>r\<in>#R. wide_right j r) \<and>
     (\<exists>db. states (join_left j) = Some db \<and> full_state db (on_left j) L) \<and>
     (\<exists>db. states (join_right j) = Some db \<and> full_state db (on_right j) R)"

text \<open>
  A batch from either parent turns the contents \<open>(L, R)\<close> of the parents into \<open>(L', R')\<close>. For a left join, the records
  of a key from the right parent must be neighbours in the batch.
\<close>

definition parent_step ::
    "'v join \<Rightarrow> nat \<Rightarrow> 'v records \<Rightarrow> 'v row multiset \<times> 'v row multiset \<Rightarrow> 'v row multiset \<times> 'v row multiset \<Rightarrow> bool" where
  "parent_step j from rs = (\<lambda>(L, R) (L', R').
     if from = join_left j
     then in_order L rs \<and> L' = apply_records L rs \<and> R' = R \<and> (\<forall>r\<in>set rs. wide_left j (rec r))
     else from = join_right j \<and> in_order R rs \<and> R' = apply_records R rs \<and> L' = L \<and> (\<forall>r\<in>set rs. wide_right j (rec r)) \<and>
       (join_kind j = JoinLeft \<longrightarrow> distinct (map fst (runs (\<lambda>r. key_at (on_right j) (rec r)) rs))))"

lemma full_state_view_of: "full_state (view_of rows) cols (mset rows)"
  by (simp add: full_state_def view_of_def)

subsection \<open>Runs of records\<close>

lemma concat_runs: "concat (map snd (runs key xs)) = xs"
  by (induction xs) (auto split: list.splits)

lemma runs_key: "\<lbrakk>(k, g) \<in> set (runs key xs); x \<in> set g\<rbrakk> \<Longrightarrow> key x = k"
proof (induction xs arbitrary: k g x)
  case (Cons y xs)
  show ?case
  proof (cases "runs key xs")
    case Nil
    with Cons.prems show ?thesis by simp
  next
    case (Cons p rest)
    obtain k' g' where p: "p = (k', g')" by (cases p)
    show ?thesis
    proof (cases "k' = key y")
      case True
      with Cons Cons.prems p have "(k, g) = (k', y # g') \<or> (k, g) \<in> set rest" by simp
      then show ?thesis using Cons.IH [of k g' x] Cons.IH [of k g x] Cons.prems(2) True Cons p by auto
    next
      case False
      with Cons Cons.prems p have "(k, g) = (key y, [y]) \<or> (k, g) \<in> set (runs key xs)" by simp
      then show ?thesis using Cons.IH [of k g x] Cons.prems(2) by auto
    qed
  qed
qed simp

lemma filter_other_groups:
  assumes "\<And>k g x. \<lbrakk>(k, g) \<in> set gs; x \<in> set g\<rbrakk> \<Longrightarrow> key x = k" "k \<notin> fst ` set gs"
  shows "filter (\<lambda>x. key x = k) (concat (map snd gs)) = []"
proof -
  have "key x \<noteq> k" if "(k', g) \<in> set gs" "x \<in> set g" for k' g x
    using assms(1) [OF that] assms(2) that(1) by force
  then show ?thesis unfolding filter_empty_conv by fastforce
qed

lemma filter_own_group:
  assumes "\<And>k g x. \<lbrakk>(k, g) \<in> set gs; x \<in> set g\<rbrakk> \<Longrightarrow> key x = k" "distinct (map fst gs)" "(k, g) \<in> set gs"
  shows "filter (\<lambda>x. key x = k) (concat (map snd gs)) = g"
  using assms
proof (induction gs)
  case (Cons p gs)
  obtain k' g' where p: "p = (k', g')" by (cases p)
  show ?case
  proof (cases "k = k'")
    case True
    with Cons.prems p have "k \<notin> fst ` set gs" and g: "g = g'" by force+
    then have "filter (\<lambda>x. key x = k) (concat (map snd gs)) = []" using Cons.prems(1) by (intro filter_other_groups) auto
    moreover have "filter (\<lambda>x. key x = k) g' = g'" using Cons.prems(1) [of k' g'] True p by (simp add: filter_id_conv)
    ultimately show ?thesis using g p by simp
  next
    case False
    then have "filter (\<lambda>x. key x = k) g' = []" using Cons.prems(1) [of k' g'] p by (auto simp: filter_empty_conv)
    moreover have "filter (\<lambda>x. key x = k) (concat (map snd gs)) = g"
      using Cons.prems False p by (intro Cons.IH) auto
    ultimately show ?thesis using p by simp
  qed
qed simp

lemma runs_filter:
  assumes "distinct (map fst (runs key xs))"
  shows "(k, g) \<in> set (runs key xs) \<Longrightarrow> filter (\<lambda>x. key x = k) xs = g"
  using filter_own_group [of "runs key xs" key k g] assms runs_key [of _ _ key xs] by (simp add: concat_runs)

lemma runs_members: "(k, g) \<in> set (runs key xs) \<Longrightarrow> set g \<subseteq> set xs"
  using concat_runs [of key xs] by (metis (no_types, lifting) UN_upper image_eqI list.set_map set_concat snd_conv)

lemma runs_keys: "x \<in> set xs \<Longrightarrow> key x \<in> fst ` set (runs key xs)"
proof -
  assume "x \<in> set xs"
  then have "x \<in> set (concat (map snd (runs key xs)))" by (simp add: concat_runs)
  then obtain k g where "(k, g) \<in> set (runs key xs)" "x \<in> set g" by auto
  with runs_key [of k g key xs x] show ?thesis by force
qed


subsection \<open>Lookups\<close>

lemma key_at_lookup:
  assumes "list_all (\<lambda>c. c < length row) cols"
  shows "cloned_indices row cols = Inr k \<longleftrightarrow> key_at cols row = k"
  using assms by (auto simp: cloned_indices_Inr key_at_def list_all_iff)

lemma full_lookup:
  assumes "states p = Some db" "full_state db cols M" "point_key_from k = Inr pk" "pk_elements pk = k"
    "\<forall>row\<in>#M. list_all (\<lambda>c. c < length row) cols"
  obtains found where "ingredient_lookup states through p cols pk mode = Inr (lookup_records found)"
    "mset found = filter_mset (\<lambda>row. key_at cols row = k) M"
proof -
  from assms obtain found where found: "state_lookup db cols pk = LookupSome found"
    "mset found = filter_mset (\<lambda>row. cloned_indices row cols = Inr k) M"
    unfolding full_state_def by metis
  have "filter_mset (\<lambda>row. cloned_indices row cols = Inr k) M = filter_mset (\<lambda>row. key_at cols row = k) M"
    using assms(5) by (intro filter_mset_cong) (simp_all add: key_at_lookup)
  with found assms(1,2) show ?thesis
    by (intro that [of found]) (simp_all add: ingredient_lookup_def lookup_into_def full_state_def)
qed

lemma column_of_wide: "c < length row \<Longrightarrow> column_of row c = Inr (row ! c)"
  by (simp add: column_of_def)

lemma generate_row_joined: "\<lbrakk>wide_left j l; wide_right j r\<rbrakk> \<Longrightarrow> generate_row j l r = Inr (joined j l r)"
  unfolding generate_row_def joined_def
  by (rule try_map_all_Inr) (fastforce simp: wide_left_def wide_right_def list_all_iff intro: column_of_wide split: side.splits)

lemma generate_null_extended: "wide_left j l \<Longrightarrow> generate_null nl j l = Inr (null_extended nl j l)"
  unfolding generate_null_def null_extended_def
  by (rule try_map_all_Inr) (fastforce simp: wide_left_def list_all_iff intro: column_of_wide)

subsection \<open>The records of a run\<close>

definition signed :: "'v df_record \<Rightarrow> 'v row list \<Rightarrow> 'v records" where
  "signed r rows = map (\<lambda>row. record_from (row, is_positive r)) rows"

lemma signed_changes [simp]:
  "positives (signed r rows) = (if is_positive r then mset rows else {#})"
  "negatives (signed r rows) = (if is_positive r then {#} else mset rows)"
  unfolding signed_def by (induction rows) auto

lemma records_from_left:
  assumes "wide_left j (rec r)" "\<forall>row\<in>set found. wide_right j row"
    "mset found = filter_mset (join_matches nl j (rec r)) R"
  obtains out where "join_records nl j True found r = Inr (signed r out)" "mset out = left_part nl j R (rec r)"
proof (cases "found = []")
  case True
  then have "filter_mset (join_matches nl j (rec r)) R = {#}" using assms(3) by simp
  with True show ?thesis
    using assms(1)
    by (intro that [of "if join_kind j = JoinLeft then [null_extended nl j (rec r)] else []"])
      (simp_all add: join_records_def signed_def left_part_def generate_null_extended)
next
  case False
  then have "filter_mset (join_matches nl j (rec r)) R \<noteq> {#}" using assms(3) by (metis mset_zero_iff)
  moreover have "join_records nl j True found r = Inr (signed r (map (joined j (rec r)) found))"
    unfolding join_records_def Let_def signed_def using False assms(1,2)
    by (simp, intro try_map_all_Inr) (simp add: generate_row_joined)
  ultimately show ?thesis
    by (intro that [of "map (joined j (rec r)) found"]) (auto simp: left_part_def assms(3))
qed

lemma records_from_right:
  assumes "wide_right j (rec r)" "\<forall>row\<in>set found. wide_left j row"
  shows "join_records nl j False found r = Inr (signed r (map (\<lambda>l. joined j l (rec r)) found))"
proof (cases "found = []")
  case False
  then show ?thesis
    unfolding join_records_def Let_def signed_def using assms
    by (simp, intro try_map_all_Inr) (simp add: generate_row_joined)
qed (simp add: join_records_def signed_def)

lemma positives_concat: "positives (concat rss) = sum_mset (image_mset positives (mset rss))"
  by (induction rss) simp_all

lemma negatives_concat: "negatives (concat rss) = sum_mset (image_mset negatives (mset rss))"
  by (induction rss) simp_all

text \<open>Each record of a group contributes a multiset of rows with its sign.\<close>

lemma signed_group:
  assumes "\<And>r. r \<in> set g \<Longrightarrow> \<exists>out. f r = Inr (signed r out) \<and> mset out = part (rec r)"
  obtains outs where "try_map f g = Inr outs"
    "positives (concat outs) = sum_mset (image_mset part (positives g))"
    "negatives (concat outs) = sum_mset (image_mset part (negatives g))"
  using assms
proof (induction g arbitrary: thesis)
  case Nil
  then show ?case by simp
next
  case (Cons r g)
  from Cons.prems(2) [of r] obtain out where out: "f r = Inr (signed r out)" "mset out = part (rec r)" by auto
  obtain outs where outs: "try_map f g = Inr outs"
    "positives (concat outs) = sum_mset (image_mset part (positives g))"
    "negatives (concat outs) = sum_mset (image_mset part (negatives g))"
    by (rule Cons.IH) (use Cons.prems(2) in auto)
  from out outs show ?case by (intro Cons.prems(1) [of "signed r out # outs"]; cases r) simp_all
qed


lemma other_rows:
  assumes "states p = Some db" "full_state db cols M" "k \<noteq> []" "\<forall>row\<in>#M. list_all (\<lambda>c. c < length row) cols"
  obtains found where
    "(if nl \<in> set k then Inr (LookupRecords [])
      else try_bind (point_key_from k) (\<lambda>pk. ingredient_lookup states through p cols pk mode)) = Inr (lookup_records found)"
    "mset found = filter_mset (\<lambda>row. nl \<notin> set k \<and> key_at cols row = k) M"
proof -
  obtain pk where pk: "point_key_from k = Inr pk" "pk_elements pk = k" using point_key_elements [OF assms(3)] by auto
  obtain found where found: "ingredient_lookup states through p cols pk mode = Inr (lookup_records found)"
    "mset found = filter_mset (\<lambda>row. key_at cols row = k) M"
    by (rule full_lookup [of states p db cols M k pk through mode]) (use assms pk in auto)
  show ?thesis
    by (rule that [of "if nl \<in> set k then [] else found"]) (use pk found in \<open>auto simp: lookup_records_def\<close>)
qed

lemma collect_rows_Nil [simp]: "collect_rows [] = Inr []"
  by (simp add: collect_rows_def)

text \<open>What a run appends to the results.\<close>

definition run_appends ::
    "('v list \<times> 'v records \<Rightarrow> 'v join_state \<Rightarrow> df_error + 'v join_state) \<Rightarrow> 'v list \<times> 'v records \<Rightarrow> 'v records \<Rightarrow> bool" where
  "run_appends run kg ret \<longleftrightarrow> (\<forall>st. run kg st = Inr (st\<lparr>j_ret := j_ret st @ ret\<rparr>))"

lemma right_rows:
  assumes "joins_states j states L R" "k \<noteq> []"
  obtains found where
    "(if nl \<in> set k then Inr (LookupRecords [])
      else try_bind (point_key_from k) (\<lambda>pk. ingredient_lookup states through (join_right j) (on_right j) pk Weak)) =
     Inr (lookup_records found)"
    "mset found = filter_mset (\<lambda>row. nl \<notin> set k \<and> key_at (on_right j) row = k) R" "\<forall>row\<in>set found. wide_right j row"
proof -
  from assms(1) obtain db where db: "states (join_right j) = Some db" "full_state db (on_right j) R"
    and wide: "\<forall>r\<in>#R. wide_right j r" unfolding joins_states_def by auto
  obtain found where found:
    "(if nl \<in> set k then Inr (LookupRecords [])
      else try_bind (point_key_from k) (\<lambda>pk. ingredient_lookup states through (join_right j) (on_right j) pk Weak)) =
     Inr (lookup_records found)"
    "mset found = filter_mset (\<lambda>row. nl \<notin> set k \<and> key_at (on_right j) row = k) R"
    by (rule other_rows [of states "join_right j" db "on_right j" R k nl through Weak])
      (use db assms(2) wide in \<open>auto simp: wide_right_def\<close>)
  have "row \<in># R" if "row \<in> set found" for row using that found(2) by (metis (no_types, lifting) filter_mset_eq_conv in_multiset_in_set mset_subset_eqD)
  with wide found that show ?thesis by blast
qed

lemma left_rows:
  assumes "joins_states j states L R" "k \<noteq> []"
  obtains found where
    "(if nl \<in> set k then Inr (LookupRecords [])
      else try_bind (point_key_from k) (\<lambda>pk. ingredient_lookup states through (join_left j) (on_left j) pk Weak)) =
     Inr (lookup_records found)"
    "mset found = filter_mset (\<lambda>row. nl \<notin> set k \<and> key_at (on_left j) row = k) L" "\<forall>row\<in>set found. wide_left j row"
proof -
  from assms(1) obtain db where db: "states (join_left j) = Some db" "full_state db (on_left j) L"
    and wide: "\<forall>l\<in>#L. wide_left j l" unfolding joins_states_def by auto
  obtain found where found:
    "(if nl \<in> set k then Inr (LookupRecords [])
      else try_bind (point_key_from k) (\<lambda>pk. ingredient_lookup states through (join_left j) (on_left j) pk Weak)) =
     Inr (lookup_records found)"
    "mset found = filter_mset (\<lambda>row. nl \<notin> set k \<and> key_at (on_left j) row = k) L"
    by (rule other_rows [of states "join_left j" db "on_left j" L k nl through Weak])
      (use db assms(2) wide in \<open>auto simp: wide_left_def\<close>)
  have "row \<in># L" if "row \<in> set found" for row using that found(2) by (metis (no_types, lifting) filter_mset_eq_conv in_multiset_in_set mset_subset_eqD)
  with wide found that show ?thesis by blast
qed

lemma own_count:
  assumes "joins_states j states L R" "point_key_from k = Inr pk" "pk_elements pk = k"
  obtains own where "ingredient_lookup states through (join_right j) (on_right j) pk Weak = Inr (lookup_records own)"
    "length own = size (filter_mset (\<lambda>row. key_at (on_right j) row = k) R)"
proof -
  from assms(1) obtain db where db: "states (join_right j) = Some db" "full_state db (on_right j) R"
    and wide: "\<forall>r\<in>#R. list_all (\<lambda>c. c < length r) (on_right j)"
    unfolding joins_states_def by (auto simp: wide_right_def)
  obtain own where own: "ingredient_lookup states through (join_right j) (on_right j) pk Weak = Inr (lookup_records own)"
    "mset own = filter_mset (\<lambda>row. key_at (on_right j) row = k) R"
    by (rule full_lookup [of states "join_right j" db "on_right j" R k pk through Weak]) (use assms db wide in auto)
  from own(2) have "length own = size (filter_mset (\<lambda>row. key_at (on_right j) row = k) R)" by (metis size_mset)
  with own(1) show ?thesis by (rule that)
qed

lemma run_from_left:
  assumes states: "joins_states j states L R" and "k \<noteq> []"
    and g: "\<And>r. r \<in> set g \<Longrightarrow> wide_left j (rec r) \<and> key_at (on_left j) (rec r) = k"
  obtains ret where "run_appends (join_run states through nl j True ReplayNone None) (k, g) ret"
    "positives ret = sum_mset (image_mset (left_part nl j R) (positives g))"
    "negatives ret = sum_mset (image_mset (left_part nl j R) (negatives g))"
proof -
  obtain found where found:
    "(if nl \<in> set k then Inr (LookupRecords [])
      else try_bind (point_key_from k) (\<lambda>pk. ingredient_lookup states through (join_right j) (on_right j) pk Weak)) =
     Inr (lookup_records found)"
    "mset found = filter_mset (\<lambda>row. nl \<notin> set k \<and> key_at (on_right j) row = k) R" "\<forall>row\<in>set found. wide_right j row"
    by (rule right_rows [OF states \<open>k \<noteq> []\<close>])
  have matches: "filter_mset (join_matches nl j (rec r)) R = mset found" if "r \<in> set g" for r
    unfolding found(2) using g [OF that] by (intro filter_mset_cong) (auto simp: join_matches_def)
  have "\<exists>out. join_records nl j True found r = Inr (signed r out) \<and> mset out = left_part nl j R (rec r)" if "r \<in> set g" for r
    using records_from_left [OF _ found(3), of r nl R] g [OF that] matches [OF that] by metis
  then obtain outs where outs: "try_map (join_records nl j True found) g = Inr outs"
    "positives (concat outs) = sum_mset (image_mset (left_part nl j R) (positives g))"
    "negatives (concat outs) = sum_mset (image_mset (left_part nl j R) (negatives g))"
    by (rule signed_group)
  show ?thesis
  proof (rule that [of "concat outs"])
    show "run_appends (join_run states through nl j True ReplayNone None) (k, g) (concat outs)"
      using found(1) outs(1)
      by (cases "nl \<in> set k") (auto simp: run_appends_def join_run_def Let_def lookup_records_def join_lookup_def null_rows_def)
  qed (use outs in simp_all)
qed


lemma join_runs_append:
  assumes "\<And>kg. kg \<in> set gs \<Longrightarrow> \<exists>ret. run_appends (join_run states through nl j from_left ctx rkc) kg ret \<and> P kg ret"
  obtains rets where "\<forall>st. join_runs states through nl j from_left ctx rkc gs st = Inr (st\<lparr>j_ret := j_ret st @ concat rets\<rparr>)"
    "list_all2 P gs rets"
  using assms
proof (induction gs arbitrary: thesis)
  case Nil
  show ?case by (rule Nil.prems(1) [of "[]"]) simp_all
next
  case (Cons kg gs)
  from Cons.prems(2) [of kg] obtain ret where ret:
    "run_appends (join_run states through nl j from_left ctx rkc) kg ret" "P kg ret" by auto
  obtain rets where rets: "\<forall>st. join_runs states through nl j from_left ctx rkc gs st = Inr (st\<lparr>j_ret := j_ret st @ concat rets\<rparr>)"
    "list_all2 P gs rets"
    by (rule Cons.IH) (use Cons.prems(2) in auto)
  show ?case by (rule Cons.prems(1) [of "ret # rets"]) (use ret rets in \<open>simp_all add: run_appends_def\<close>)
qed

lemma linear_groups:
  assumes "list_all2 (\<lambda>kg ret. positives ret = sum_mset (image_mset part (positives (snd kg))) + extra_pos kg \<and>
      negatives ret = sum_mset (image_mset part (negatives (snd kg))) + extra_neg kg) gs rets"
  shows "positives (concat rets) = sum_mset (image_mset part (positives (concat (map snd gs)))) + sum_list (map extra_pos gs)"
    "negatives (concat rets) = sum_mset (image_mset part (negatives (concat (map snd gs)))) + sum_list (map extra_neg gs)"
  using assms by (induction rule: list_all2_induct) (simp_all add: ac_simps)

lemma in_order_balance: "in_order M rs \<Longrightarrow> M + positives rs = apply_records M rs + negatives rs"
proof (induction rs arbitrary: M)
  case (Cons r rs)
  note step = apply_records_Cons [OF Cons.prems]
  show ?case
  proof (cases r)
    case (Positive row)
    with Cons.IH [of "add_mset row M"] Cons.prems step show ?thesis by simp
  next
    case (Negative row)
    with Cons.prems obtain N where "M = add_mset row N" by (auto dest: multi_member_split)
    with Cons.IH [of N] Cons.prems step Negative show ?thesis by simp
  qed
qed (simp add: apply_records_def)

lemma keys_of_runs:
  assumes "join_on j \<noteq> []" "(k, g) \<in> set (runs (\<lambda>r. key_at cols (rec r)) rs)" "cols = on_left j \<or> cols = on_right j"
  shows "k \<noteq> []" "r \<in> set g \<Longrightarrow> r \<in> set rs \<and> key_at cols (rec r) = k"
proof -
  have "g \<noteq> []" using assms(2) by (induction rs arbitrary: g) (auto split: list.splits if_splits)
  then obtain x where "x \<in> set g" by (cases g) auto
  with runs_key [OF assms(2)] have "k = key_at cols (rec x)" by simp
  with assms(1,3) show "k \<noteq> []" by (auto simp: key_at_def on_left_def on_right_def)
  show "r \<in> set g \<Longrightarrow> r \<in> set rs \<and> key_at cols (rec r) = k"
    using runs_key [OF assms(2)] runs_members [OF assms(2)] by auto
qed

lemma on_input_runs:
  assumes "list_all (\<lambda>r. list_all (\<lambda>i. i < length (rec r)) cols) rs"
    "cols = (if from = join_left j then on_left j else on_right j)"
    "\<forall>st. join_runs states through nl j (from = join_left j) ReplayNone None (runs (\<lambda>r. key_at cols (rec r)) rs) st =
       Inr (st\<lparr>j_ret := j_ret st @ ret\<rparr>)"
  shows "join_on_input states through nl j from rs ReplayNone = Inr (\<lparr>results = ret, misses = [], lookups = []\<rparr>, j)"
proof (cases "rs = []")
  case True
  with assms(3) [rule_format, of "\<lparr>j_ret = [], j_misses = [], j_lookups = []\<rparr>"] have "ret = []" by simp
  with True show ?thesis by (simp add: join_on_input_def)
next
  case False
  with assms show ?thesis by (simp add: join_on_input_def Let_def key_at_def)
qed

lemma join_from_left:
  assumes "joins_states j states L' R" "in_order L rs" "\<forall>r\<in>set rs. wide_left j (rec r)"
  obtains ret where "join_on_input states through nl j (join_left j) rs ReplayNone =
      Inr (\<lparr>results = ret, misses = [], lookups = []\<rparr>, j)"
    "join_view nl j L R + positives ret = join_view nl j (apply_records L rs) R + negatives ret"
proof -
  let ?gs = "runs (\<lambda>r. key_at (on_left j) (rec r)) rs" and ?part = "left_part nl j R"
  let ?P = "\<lambda>kg ret. positives ret = sum_mset (image_mset ?part (positives (snd kg))) + {#} \<and>
      negatives ret = sum_mset (image_mset ?part (negatives (snd kg))) + {#}"
  have "join_on j \<noteq> []" using assms(1) by (simp add: joins_states_def)
  note keys = keys_of_runs [OF this, of _ _ "on_left j"]
  have "\<exists>ret. run_appends (join_run states through nl j True ReplayNone None) kg ret \<and> ?P kg ret" if "kg \<in> set ?gs" for kg
  proof -
    obtain k g where kg: "kg = (k, g)" by (cases kg)
    show ?thesis
      unfolding kg using run_from_left [OF assms(1), of k g through nl] keys [of k g rs] that kg assms(3)
      by (metis add.right_neutral snd_conv)
  qed
  then obtain rets where rets: "\<forall>st. join_runs states through nl j True ReplayNone None ?gs st = Inr (st\<lparr>j_ret := j_ret st @ concat rets\<rparr>)"
    "list_all2 ?P ?gs rets"
    by (rule join_runs_append [where P = ?P])
  note sums = linear_groups [OF rets(2), unfolded concat_runs]
  show ?thesis
  proof (rule that [of "concat rets"])
    show "join_on_input states through nl j (join_left j) rs ReplayNone =
        Inr (\<lparr>results = concat rets, misses = [], lookups = []\<rparr>, j)"
      using assms(3) rets(1) by (intro on_input_runs [of "on_left j"]) (auto simp: wide_left_def list_all_iff)
    have "image_mset ?part (L + positives rs) = image_mset ?part (apply_records L rs + negatives rs)"
      by (simp only: in_order_balance [OF assms(2)])
    then show "join_view nl j L R + positives (concat rets) = join_view nl j (apply_records L rs) R + negatives (concat rets)"
      unfolding join_view_def sums by (simp flip: sum_mset.union image_mset_union)
  qed
qed


subsection \<open>Records from the right parent\<close>

definition right_part :: "'v \<Rightarrow> 'v join \<Rightarrow> 'v row multiset \<Rightarrow> 'v row \<Rightarrow> 'v row multiset" where
  "right_part nl j L r = image_mset (\<lambda>l. joined j l r) (filter_mset (\<lambda>l. join_matches nl j l r) L)"

definition unmatched :: "'v \<Rightarrow> 'v join \<Rightarrow> 'v row multiset \<Rightarrow> 'v row \<Rightarrow> bool" where
  "unmatched nl j R l \<longleftrightarrow> filter_mset (join_matches nl j l) R = {#}"

text \<open>The NULL rows of a left join, for the left rows with a key in \<open>K\<close>.\<close>

definition null_part ::
    "'v \<Rightarrow> 'v join \<Rightarrow> 'v row multiset \<Rightarrow> 'v row multiset \<Rightarrow> ('v list \<Rightarrow> bool) \<Rightarrow> 'v row multiset" where
  "null_part nl j L R K =
     (if join_kind j = JoinLeft
      then image_mset (null_extended nl j) (filter_mset (\<lambda>l. K (key_at (on_left j) l) \<and> unmatched nl j R l) L) else {#})"

lemma matched_sum:
  "sum_mset (image_mset (\<lambda>r. if join_matches nl j l r then {#joined j l r#} else {#}) R) =
     image_mset (joined j l) (filter_mset (join_matches nl j l) R)"
  by (induction R) simp_all

lemma right_part_add:
  "right_part nl j (add_mset l L) r = (if join_matches nl j l r then {#joined j l r#} else {#}) + right_part nl j L r"
  by (simp add: right_part_def)

lemma join_view_right:
  "join_view nl j L R = sum_mset (image_mset (right_part nl j L) R) + null_part nl j L R (\<lambda>_. True)"
proof (induction L)
  case empty
  have "sum_mset (image_mset (right_part nl j {#}) R) = {#}" by (induction R) (simp_all add: right_part_def)
  then show ?case by (simp add: join_view_def null_part_def)
next
  case (add l L)
  have "sum_mset (image_mset (right_part nl j (add_mset l L)) R) =
      image_mset (joined j l) (filter_mset (join_matches nl j l) R) + sum_mset (image_mset (right_part nl j L) R)"
    unfolding right_part_add sum_mset.distrib matched_sum ..
  moreover have "join_view nl j (add_mset l L) R = left_part nl j R l + join_view nl j L R" by (simp add: join_view_def)
  ultimately show ?case using add
    by (cases "join_kind j"; cases "unmatched nl j R l")
      (simp_all add: left_part_def null_part_def unmatched_def Let_def)
qed

text \<open>The NULL rows that a run of records with a key makes appear or vanish.\<close>

definition null_change ::
    "'v \<Rightarrow> 'v join \<Rightarrow> 'v row multiset \<Rightarrow> 'v row multiset \<Rightarrow> 'v row multiset \<Rightarrow> 'v list \<Rightarrow> 'v row multiset" where
  "null_change nl j L R R' k =
     (if join_kind j = JoinLeft \<and> nl \<notin> set k \<and>
         filter_mset (\<lambda>r. key_at (on_right j) r = k) R' = {#} \<and> filter_mset (\<lambda>r. key_at (on_right j) r = k) R \<noteq> {#}
      then image_mset (null_extended nl j) (filter_mset (\<lambda>l. key_at (on_left j) l = k) L) else {#})"

lemma unmatched_key:
  "unmatched nl j R l \<longleftrightarrow> nl \<in> set (key_at (on_left j) l) \<or>
     filter_mset (\<lambda>r. key_at (on_right j) r = key_at (on_left j) l) R = {#}"
  by (auto simp: unmatched_def join_matches_def)

lemma null_change_balance:
  "null_part nl j L R (\<lambda>k'. k' = k) + null_change nl j L R R' k =
   null_part nl j L R' (\<lambda>k'. k' = k) + null_change nl j L R' R k"
proof -
  define e where "e X \<longleftrightarrow> filter_mset (\<lambda>r. key_at (on_right j) r = k) X = {#}" for X
  have "filter_mset (\<lambda>l. key_at (on_left j) l = k \<and> unmatched nl j X l) L =
      (if nl \<in> set k \<or> e X then filter_mset (\<lambda>l. key_at (on_left j) l = k) L else {#})" for X
    unfolding e_def by (auto simp: unmatched_key intro!: filter_mset_cong)
  then show ?thesis unfolding null_part_def null_change_def e_def [symmetric] by simp
qed

lemma null_part_keys:
  "distinct ks \<Longrightarrow> null_part nl j L R (\<lambda>k. k \<in> set ks) = sum_list (map (\<lambda>k. null_part nl j L R (\<lambda>k'. k' = k)) ks)"
proof (induction ks)
  case Nil
  show ?case by (simp add: null_part_def)
next
  case (Cons k ks)
  have "null_part nl j L R (\<lambda>k'. k' \<in> set (k # ks)) = null_part nl j L R (\<lambda>k'. k' = k) + null_part nl j L R (\<lambda>k. k \<in> set ks)"
    using Cons.prems unfolding null_part_def
    by (induction L) auto
  with Cons show ?case by simp
qed

lemma null_part_split: "null_part nl j L R (\<lambda>_. True) = null_part nl j L R K + null_part nl j L R (\<lambda>k. \<not> K k)"
  unfolding null_part_def by (induction L) auto

lemma null_part_total:
  assumes "distinct ks"
    "\<And>k. k \<notin> set ks \<Longrightarrow> filter_mset (\<lambda>r. key_at (on_right j) r = k) R = filter_mset (\<lambda>r. key_at (on_right j) r = k) R'"
  shows "null_part nl j L R (\<lambda>_. True) + sum_list (map (null_change nl j L R R') ks) =
    null_part nl j L R' (\<lambda>_. True) + sum_list (map (null_change nl j L R' R) ks)"
proof -
  have rest: "null_part nl j L R (\<lambda>k. k \<notin> set ks) = null_part nl j L R' (\<lambda>k. k \<notin> set ks)"
  proof -
    have "unmatched nl j R l = unmatched nl j R' l" if "key_at (on_left j) l \<notin> set ks" for l
      unfolding unmatched_key assms(2) [OF that] ..
    then have "filter_mset (\<lambda>l. key_at (on_left j) l \<notin> set ks \<and> unmatched nl j R l) L =
        filter_mset (\<lambda>l. key_at (on_left j) l \<notin> set ks \<and> unmatched nl j R' l) L"
      by (intro filter_mset_cong) auto
    then show ?thesis by (simp add: null_part_def)
  qed
  have keys: "null_part nl j L R (\<lambda>k. k \<in> set ks) + sum_list (map (null_change nl j L R R') ks) =
    null_part nl j L R' (\<lambda>k. k \<in> set ks) + sum_list (map (null_change nl j L R' R) ks)"
    unfolding null_part_keys [OF assms(1)] sum_list_addf [symmetric] null_change_balance ..
  show ?thesis
    unfolding null_part_split [of nl j L R "\<lambda>k. k \<in> set ks"] null_part_split [of nl j L R' "\<lambda>k. k \<in> set ks"] rest
    using keys by (simp add: ac_simps)
qed


lemma null_rows_change:
  assumes "\<forall>row\<in>set found. wide_left j row" "nl \<notin> set k \<Longrightarrow> mset found = filter_mset (\<lambda>l. key_at (on_left j) l = k) L"
    "nl \<in> set k \<Longrightarrow> found = []" "join_kind j = JoinLeft"
    "int (size (filter_mset (\<lambda>r. key_at (on_right j) r = k) R')) = int (size (filter_mset (\<lambda>r. key_at (on_right j) r = k) R)) + d"
  obtains ret where "null_rows nl j (Some (size (filter_mset (\<lambda>r. key_at (on_right j) r = k) R'))) d found = Inr ret"
    "positives ret = null_change nl j L R R' k" "negatives ret = null_change nl j L R' R k"
proof -
  define old new where "old = filter_mset (\<lambda>r. key_at (on_right j) r = k) R" and "new = filter_mset (\<lambda>r. key_at (on_right j) r = k) R'"
  have diff: "int (size new) - d = int (size old)" using assms(5) unfolding old_def new_def by simp
  have null: "try_map (\<lambda>other. try_bind (generate_null nl j other) (\<lambda>row. Inr (sign row))) found =
      Inr (map (\<lambda>l. sign (null_extended nl j l)) found)" for sign :: "'a row \<Rightarrow> 'a df_record"
    using assms(1) by (intro try_map_all_Inr) (simp add: generate_null_extended)
  have signs: "positives (map (\<lambda>l. Positive (null_extended nl j l)) found) = image_mset (null_extended nl j) (mset found)"
    "negatives (map (\<lambda>l. Positive (null_extended nl j l)) found) = {#}"
    "positives (map (\<lambda>l. Negative (null_extended nl j l)) found) = {#}"
    "negatives (map (\<lambda>l. Negative (null_extended nl j l)) found) = image_mset (null_extended nl j) (mset found)"
    by (induction found) simp_all
  have mset: "image_mset (null_extended nl j) (mset found) =
      (if nl \<in> set k then {#} else image_mset (null_extended nl j) (filter_mset (\<lambda>l. key_at (on_left j) l = k) L))"
    using assms(2,3) by simp
  show ?thesis
    by (rule that [of "if new = {#} \<and> old \<noteq> {#} then map (\<lambda>l. Positive (null_extended nl j l)) found
        else if new \<noteq> {#} \<and> old = {#} then map (\<lambda>l. Negative (null_extended nl j l)) found else []"];
      simp add: null_rows_def null_change_def null diff signs mset assms(4) old_def [symmetric] new_def [symmetric])
qed


lemma null_rows_inner: "join_kind j = JoinInner \<Longrightarrow> null_change nl j L R R' k = {#}"
  by (simp add: null_change_def)

lemma run_from_right:
  assumes states: "joins_states j states L R'" and "k \<noteq> []"
    and g: "\<And>r. r \<in> set g \<Longrightarrow> wide_right j (rec r) \<and> key_at (on_right j) (rec r) = k"
    and count: "join_kind j = JoinLeft \<Longrightarrow> int (size (filter_mset (\<lambda>r. key_at (on_right j) r = k) R')) =
      int (size (filter_mset (\<lambda>r. key_at (on_right j) r = k) R)) + net g"
  obtains ret where "run_appends (join_run states through nl j False ReplayNone None) (k, g) ret"
    "positives ret = sum_mset (image_mset (right_part nl j L) (positives g)) + null_change nl j L R R' k"
    "negatives ret = sum_mset (image_mset (right_part nl j L) (negatives g)) + null_change nl j L R' R k"
proof -
  obtain found where found:
    "(if nl \<in> set k then Inr (LookupRecords [])
      else try_bind (point_key_from k) (\<lambda>pk. ingredient_lookup states through (join_left j) (on_left j) pk Weak)) =
     Inr (lookup_records found)"
    "mset found = filter_mset (\<lambda>row. nl \<notin> set k \<and> key_at (on_left j) row = k) L" "\<forall>row\<in>set found. wide_left j row"
    by (rule left_rows [OF states \<open>k \<noteq> []\<close>])
  obtain pk where pk: "point_key_from k = Inr pk" "pk_elements pk = k" using point_key_elements [OF \<open>k \<noteq> []\<close>] by auto
  obtain own where own: "ingredient_lookup states through (join_right j) (on_right j) pk Weak = Inr (lookup_records own)"
    "length own = size (filter_mset (\<lambda>row. key_at (on_right j) row = k) R')"
    by (rule own_count [OF states pk])
  have matches: "mset (map (\<lambda>l. joined j l (rec r)) found) = right_part nl j L (rec r)" if "r \<in> set g" for r
    unfolding right_part_def mset_map found(2) using g [OF that]
    by (intro arg_cong [of _ _ "image_mset _"] filter_mset_cong) (auto simp: join_matches_def)
  have "\<exists>out. join_records nl j False found r = Inr (signed r out) \<and> mset out = right_part nl j L (rec r)" if "r \<in> set g" for r
    using records_from_right [OF _ found(3), of r nl] g [OF that] matches [OF that] by metis
  then obtain outs where outs: "try_map (join_records nl j False found) g = Inr outs"
    "positives (concat outs) = sum_mset (image_mset (right_part nl j L) (positives g))"
    "negatives (concat outs) = sum_mset (image_mset (right_part nl j L) (negatives g))"
    by (rule signed_group)
  note run = run_appends_def join_run_def Let_def lookup_records_def join_lookup_def
  show ?thesis
  proof (cases "join_kind j")
    case JoinInner
    show ?thesis
    proof (rule that [of "concat outs"])
      show "run_appends (join_run states through nl j False ReplayNone None) (k, g) (concat outs)"
        using found(1) outs(1) JoinInner by (cases "nl \<in> set k") (auto simp: run null_rows_def)
    qed (use outs JoinInner in \<open>simp_all add: null_rows_inner\<close>)
  next
    case JoinLeft
    obtain nulls where nulls: "null_rows nl j (Some (length own)) (net g) found = Inr nulls"
      "positives nulls = null_change nl j L R R' k" "negatives nulls = null_change nl j L R' R k"
      unfolding own(2)
      by (rule null_rows_change [OF found(3) _ _ JoinLeft count [OF JoinLeft]]) (use found(2) in auto)
    show ?thesis
    proof (rule that [of "concat outs @ nulls"])
      show "run_appends (join_run states through nl j False ReplayNone None) (k, g) (concat outs @ nulls)"
        using found(1) outs(1) nulls(1) JoinLeft pk own(1) by (cases "nl \<in> set k") (auto simp: run)
    qed (use outs nulls in simp_all)
  qed
qed


lemma key_count:
  assumes "in_order R rs" "distinct (map fst (runs (\<lambda>r. key_at cols (rec r)) rs))" "(k, g) \<in> set (runs (\<lambda>r. key_at cols (rec r)) rs)"
  shows "int (size (filter_mset (\<lambda>r. key_at cols r = k) (apply_records R rs))) =
    int (size (filter_mset (\<lambda>r. key_at cols r = k) R)) + net g"
proof -
  have "filter (\<lambda>r. key_at cols (rec r) = k) rs = g" by (rule runs_filter [OF assms(2,3)])
  then show ?thesis
    using in_order_size [OF in_order_filter [OF assms(1), of "\<lambda>r. key_at cols r = k"]]
    by (simp add: apply_records_filter)
qed

lemma other_keys:
  assumes "k \<notin> set (map fst (runs (\<lambda>r. key_at cols (rec r)) rs))"
  shows "filter_mset (\<lambda>r. key_at cols r = k) R = filter_mset (\<lambda>r. key_at cols r = k) (apply_records R rs)"
proof -
  have "filter (\<lambda>r. key_at cols (rec r) = k) rs = []"
    using assms runs_keys [of _ rs "\<lambda>r. key_at cols (rec r)"] by (auto simp: filter_empty_conv)
  then show ?thesis unfolding apply_records_filter by (simp add: apply_records_def)
qed

lemma null_balance:
  assumes "join_kind j = JoinLeft \<Longrightarrow> distinct (map fst (runs (\<lambda>r. key_at (on_right j) (rec r)) rs))"
    and gs: "gs = runs (\<lambda>r. key_at (on_right j) (rec r)) rs" and R': "R' = apply_records R rs"
  shows "null_part nl j L R (\<lambda>_. True) + sum_list (map (\<lambda>kg. null_change nl j L R R' (fst kg)) gs) =
    null_part nl j L R' (\<lambda>_. True) + sum_list (map (\<lambda>kg. null_change nl j L R' R (fst kg)) gs)"
proof (cases "join_kind j")
  case JoinLeft
  have "null_part nl j L R (\<lambda>_. True) + sum_list (map (null_change nl j L R R') (map fst gs)) =
    null_part nl j L R' (\<lambda>_. True) + sum_list (map (null_change nl j L R' R) (map fst gs))"
    by (rule null_part_total) (use assms(1) JoinLeft other_keys in \<open>auto simp: gs R'\<close>)
  then show ?thesis by (simp add: comp_def)
next
  case JoinInner
  then have "sum_list (map (\<lambda>kg. null_change nl j L X Y (fst kg)) gs) = {#}" for X Y
    by (induction gs) (simp_all add: null_rows_inner)
  with JoinInner show ?thesis by (simp add: null_part_def)
qed

lemma join_from_right:
  assumes states: "joins_states j states L R'" and R': "R' = apply_records R rs" and "in_order R rs"
    "\<forall>r\<in>set rs. wide_right j (rec r)"
    and distinct: "join_kind j = JoinLeft \<Longrightarrow> distinct (map fst (runs (\<lambda>r. key_at (on_right j) (rec r)) rs))"
  obtains ret where "join_on_input states through nl j (join_right j) rs ReplayNone =
      Inr (\<lparr>results = ret, misses = [], lookups = []\<rparr>, j)"
    "join_view nl j L R + positives ret = join_view nl j L R' + negatives ret"
proof -
  let ?gs = "runs (\<lambda>r. key_at (on_right j) (rec r)) rs" and ?part = "right_part nl j L"
  let ?P = "\<lambda>kg ret. positives ret = sum_mset (image_mset ?part (positives (snd kg))) + null_change nl j L R R' (fst kg) \<and>
      negatives ret = sum_mset (image_mset ?part (negatives (snd kg))) + null_change nl j L R' R (fst kg)"
  have j: "join_on j \<noteq> []" "join_right j \<noteq> join_left j" using states by (simp_all add: joins_states_def)
  note keys = keys_of_runs [OF j(1), of _ _ "on_right j"]
  have "\<exists>ret. run_appends (join_run states through nl j False ReplayNone None) kg ret \<and> ?P kg ret" if "kg \<in> set ?gs" for kg
  proof -
    obtain k g where kg: "kg = (k, g)" by (cases kg)
    have "int (size (filter_mset (\<lambda>r. key_at (on_right j) r = k) R')) =
        int (size (filter_mset (\<lambda>r. key_at (on_right j) r = k) R)) + net g" if "join_kind j = JoinLeft"
      unfolding R' by (rule key_count) (use assms that \<open>kg \<in> set ?gs\<close> kg in auto)
    from run_from_right [OF states _ _ this, of through nl] keys [of k g rs] that kg assms(4)
    show ?thesis unfolding kg by (metis fst_conv snd_conv)
  qed
  then obtain rets where rets: "\<forall>st. join_runs states through nl j False ReplayNone None ?gs st = Inr (st\<lparr>j_ret := j_ret st @ concat rets\<rparr>)"
    "list_all2 ?P ?gs rets"
    by (rule join_runs_append [where P = ?P])
  note sums = linear_groups [OF rets(2), unfolded concat_runs]
  show ?thesis
  proof (rule that [of "concat rets"])
    show "join_on_input states through nl j (join_right j) rs ReplayNone =
        Inr (\<lparr>results = concat rets, misses = [], lookups = []\<rparr>, j)"
      using assms(4) rets(1) j(2) by (intro on_input_runs [of "on_right j"]) (auto simp: wide_right_def list_all_iff)
    have "image_mset ?part (R + positives rs) = image_mset ?part (R' + negatives rs)"
      by (simp only: in_order_balance [OF assms(3)] R')
    then have "sum_mset (image_mset ?part R) + sum_mset (image_mset ?part (positives rs)) =
        sum_mset (image_mset ?part R') + sum_mset (image_mset ?part (negatives rs))"
      by (simp flip: sum_mset.union image_mset_union)
    from balance_add [OF this null_balance [OF distinct refl R', of nl L]]
    show "join_view nl j L R + positives (concat rets) = join_view nl j L R' + negatives (concat rets)"
      unfolding join_view_right sums .
  qed
qed



subsection \<open>Examples\<close>

text \<open>Node 0 joined with node 1 on their first columns, with 0 for NULL.\<close>

definition example_join :: "join_type \<Rightarrow> int join" where
  "example_join kind = join_new 0 1 kind [SourceB 0 0, SourceL 1, SourceR 1]"

lemma example_join_parts [simp]:
  "join_left (example_join kind) = 0" "join_right (example_join kind) = 1" "join_kind (example_join kind) = kind"
  "join_on (example_join kind) = [(0, 0)]" "join_emit (example_join kind) = [(SideLeft, 0), (SideLeft, 1), (SideRight, 1)]"
  "on_left (example_join kind) = [0]" "on_right (example_join kind) = [0]"
  by (simp_all add: example_join_def join_new_def Let_def on_left_def on_right_def)

lemma example_joins_states:
  assumes "list_all (\<lambda>row. length row = 2) l" "list_all (\<lambda>row. length row = 2) r"
  shows "joins_states (example_join kind) (node_states r l) (mset l) (mset r)"
  using assms
  by (auto simp: joins_states_def node_states_def full_state_view_of wide_left_def wide_right_def list_all_iff)



end
