(* ===== verification/MysqlTime.thy ===== *)
theory MysqlTime
  imports Values
begin

section \<open>Times of day and durations of MySQL\<close>

text \<open>
  \<open>src/mysql-time/src/lib.rs\<close>: the type \<open>MySqlTime\<close>, a signed number of nanoseconds that is kept between
  \<open>-838:59:59\<close> and \<open>838:59:59\<close>. The durations of the \<open>chrono\<close> crate are the parameter \<open>chrono\<close>, a record of the
  operations that the code calls; the locale \<open>chrono_durations\<close> states their documented behaviour. The parser of texts
  is built from the \<open>nom\<close> crate and is a parameter of \<open>mt_from_bytes\<close>. Numbers of 8, 16 and 32 bits are integers; the
  field \<open>nanos\<close> is an integer that is proved to stay in its 64 bits.
\<close>

record 'd chrono =
  dur_seconds :: "int \<Rightarrow> 'd"
  dur_microseconds :: "int \<Rightarrow> 'd"
  dur_nanoseconds :: "int \<Rightarrow> 'd"
  num_hours :: "'d \<Rightarrow> int"
  num_minutes :: "'d \<Rightarrow> int"
  num_seconds :: "'d \<Rightarrow> int"
  num_microseconds :: "'d \<Rightarrow> int option"
  num_nanoseconds :: "'d \<Rightarrow> int option"
  dur_add :: "'d \<Rightarrow> 'd \<Rightarrow> 'd"
  dur_sub :: "'d \<Rightarrow> 'd \<Rightarrow> 'd"

definition MICROSECS_IN_SECOND :: int where
  "MICROSECS_IN_SECOND = 1000000"

definition MAX_MYSQL_TIME_SECONDS :: int where
  "MAX_MYSQL_TIME_SECONDS = 3020399"

record mysql_time =
  nanos :: int

datatype convert_error = ParseError | OutOfBounds string

text \<open>
  \<open>new\<close> calls \<open>max_value\<close> and \<open>min_value\<close>, which call \<open>new\<close> again: the value \<open>None\<close> stands for not returning.
\<close>

type_synonym 'a returning = "(df_error + 'a) option"

definition of_duration :: "'d chrono \<Rightarrow> 'd \<Rightarrow> df_error + mysql_time" where
  "of_duration c duration =
     (case num_nanoseconds c duration of Some n \<Rightarrow> Inr \<lparr>nanos = n\<rparr> | None \<Rightarrow> Inl Panic)"

partial_function (option) mt_new :: "'d chrono \<Rightarrow> 'd \<Rightarrow> mysql_time returning" where
  "mt_new c duration =
     (let secs = num_seconds c duration in
      if secs > MAX_MYSQL_TIME_SECONDS then mt_new c (dur_seconds c MAX_MYSQL_TIME_SECONDS)
      else if secs < - MAX_MYSQL_TIME_SECONDS then mt_new c (dur_seconds c (- MAX_MYSQL_TIME_SECONDS))
      else Some (of_duration c duration))"

declare mt_new.simps [code]

definition max_value :: "'d chrono \<Rightarrow> mysql_time returning" where
  "max_value c = mt_new c (dur_seconds c MAX_MYSQL_TIME_SECONDS)"

definition min_value :: "'d chrono \<Rightarrow> mysql_time returning" where
  "min_value c = mt_new c (dur_seconds c (- MAX_MYSQL_TIME_SECONDS))"

definition mt_default :: "'d chrono \<Rightarrow> mysql_time returning" where
  "mt_default c = mt_new c (dur_microseconds c 0)"

definition from_hmsus :: "'d chrono \<Rightarrow> bool \<Rightarrow> int \<Rightarrow> int \<Rightarrow> int \<Rightarrow> int \<Rightarrow> mysql_time returning" where
  "from_hmsus c positive hour minutes seconds microseconds =
     (let total = hour * 3600 * MICROSECS_IN_SECOND + min minutes 59 * 60 * MICROSECS_IN_SECOND +
        min seconds 59 * MICROSECS_IN_SECOND + min microseconds 999999
      in mt_new c (dur_microseconds c (total * (if positive then 1 else - 1))))"

definition from_microseconds :: "'d chrono \<Rightarrow> int \<Rightarrow> mysql_time returning" where
  "from_microseconds c microseconds = mt_new c (dur_microseconds c microseconds)"

definition mt_from_bytes ::
    "'d chrono \<Rightarrow> (string \<Rightarrow> (bool \<times> int \<times> int \<times> int \<times> int) option) \<Rightarrow> string \<Rightarrow> (convert_error + (mysql_time returning))" where
  "mt_from_bytes c parse bytes =
     (case parse bytes of
        None \<Rightarrow> Inl ParseError
      | Some (positive, hour, minutes, seconds, microseconds) \<Rightarrow>
          if minutes > 59 then Inl (OutOfBounds ''Minutes can't be greater than 59'')
          else if seconds > 59 then Inl (OutOfBounds ''Seconds can't be greater than 59'')
          else if microseconds > 999999 then Inl (OutOfBounds ''Microseconds can't be greater than 999999'')
          else Inr (from_hmsus c positive hour minutes seconds microseconds))"

subsection \<open>Fields\<close>

definition mt_duration :: "'d chrono \<Rightarrow> mysql_time \<Rightarrow> 'd" where
  "mt_duration c t = dur_nanoseconds c (nanos t)"

definition mt_is_positive :: "mysql_time \<Rightarrow> bool" where
  "mt_is_positive t = (nanos t > 0)"

definition mt_hour :: "'d chrono \<Rightarrow> mysql_time \<Rightarrow> int" where
  "mt_hour c t = (let h = \<bar>num_hours c (mt_duration c t)\<bar> in if h < 2 ^ 16 then h else 2 ^ 16 - 1)"

definition mt_minutes :: "'d chrono \<Rightarrow> mysql_time \<Rightarrow> int" where
  "mt_minutes c t = (let m = \<bar>num_minutes c (mt_duration c t)\<bar> mod 60 in min (if m < 2 ^ 8 then m else 59) 59)"

definition mt_seconds :: "'d chrono \<Rightarrow> mysql_time \<Rightarrow> int" where
  "mt_seconds c t = (let s = \<bar>num_seconds c (mt_duration c t)\<bar> mod 60 in min (if s < 2 ^ 8 then s else 59) 59)"

definition mt_microseconds :: "'d chrono \<Rightarrow> mysql_time \<Rightarrow> int" where
  "mt_microseconds c t =
     max (case num_microseconds c (mt_duration c t) of
            Some us \<Rightarrow> (\<bar>us\<bar> mod MICROSECS_IN_SECOND) mod 2 ^ 32
          | None \<Rightarrow> 0) 0"

subsection \<open>Printing, comparing and hashing\<close>

fun digits :: "nat \<Rightarrow> string" where
  "digits n = (if n < 10 then [char_of (48 + n)] else digits (n div 10) @ [char_of (48 + n mod 10)])"

declare digits.simps [simp del]

definition zero_padded :: "nat \<Rightarrow> int \<Rightarrow> string" where
  "zero_padded w z = (let s = digits (nat z) in replicate (w - length s) (CHR ''0'') @ s)"

definition mt_display :: "'d chrono \<Rightarrow> mysql_time \<Rightarrow> string" where
  "mt_display c t =
     (let sgn = (if mt_is_positive t then '''' else ''-'');
          hms = sgn @ zero_padded 2 (mt_hour c t) @ '':'' @ zero_padded 2 (mt_minutes c t) @ '':'' @
            zero_padded 2 (mt_seconds c t)
      in if mt_microseconds c t \<noteq> 0 then hms @ ''.'' @ zero_padded 6 (mt_microseconds c t) else hms)"

definition mt_eq :: "'d chrono \<Rightarrow> mysql_time \<Rightarrow> mysql_time \<Rightarrow> bool" where
  "mt_eq c a b =
     (mt_is_positive a = mt_is_positive b \<and> mt_hour c a = mt_hour c b \<and> mt_minutes c a = mt_minutes c b \<and>
      mt_seconds c a = mt_seconds c b \<and> mt_microseconds c a = mt_microseconds c b)"

definition mt_cmp :: "'d chrono \<Rightarrow> mysql_time \<Rightarrow> mysql_time \<Rightarrow> ordering" where
  "mt_cmp c a b =
     ord_then (rs_cmp (mt_is_positive a) (mt_is_positive b))
       (ord_then (rs_cmp (mt_hour c a) (mt_hour c b))
         (ord_then (rs_cmp (mt_minutes c a) (mt_minutes c b))
           (ord_then (rs_cmp (mt_seconds c a) (mt_seconds c b)) (rs_cmp (mt_microseconds c a) (mt_microseconds c b)))))"

text \<open>What \<open>Hash::hash\<close> feeds to the hasher.\<close>

definition mt_hash :: "'d chrono \<Rightarrow> mysql_time \<Rightarrow> bool \<times> int \<times> int \<times> int \<times> int" where
  "mt_hash c t = (mt_is_positive t, mt_hour c t, mt_minutes c t, mt_seconds c t, mt_microseconds c t)"

subsection \<open>Arithmetic and conversions\<close>

definition mt_sub :: "'d chrono \<Rightarrow> mysql_time \<Rightarrow> mysql_time \<Rightarrow> mysql_time returning" where
  "mt_sub c a b = mt_new c (dur_sub c (mt_duration c a) (mt_duration c b))"

definition mt_add :: "'d chrono \<Rightarrow> mysql_time \<Rightarrow> mysql_time \<Rightarrow> mysql_time returning" where
  "mt_add c a b = mt_new c (dur_add c (mt_duration c a) (mt_duration c b))"

text \<open>A time of day of \<open>chrono\<close> is read by its hour, minute, second and nanosecond, and built by \<open>from_hms_micro\<close>.\<close>

definition from_naive_time :: "'d chrono \<Rightarrow> int \<Rightarrow> int \<Rightarrow> int \<Rightarrow> int \<Rightarrow> mysql_time returning" where
  "from_naive_time c h m s nanosecond =
     (let us = nanosecond div 1000;
          total = h * 60 * 60 * MICROSECS_IN_SECOND + m * 60 * MICROSECS_IN_SECOND + s * MICROSECS_IN_SECOND + us
      in mt_new c (dur_microseconds c total))"

definition into_naive_time :: "(int \<Rightarrow> int \<Rightarrow> int \<Rightarrow> int \<Rightarrow> df_error + 't) \<Rightarrow> 'd chrono \<Rightarrow> mysql_time \<Rightarrow> df_error + 't" where
  "into_naive_time from_hms_micro c t =
     from_hms_micro (mt_hour c t) (mt_minutes c t) (mt_seconds c t) (mt_microseconds c t)"

text \<open>
  The fields of \<open>Value::Time\<close> of the MySQL protocol: negative, days, hours, minutes, seconds, microseconds. Sums that do
  not fit are panics, as in a build with overflow checks.
\<close>

type_synonym value_time = "bool \<times> int \<times> int \<times> int \<times> int \<times> int"

definition mt_to_value :: "'d chrono \<Rightarrow> mysql_time \<Rightarrow> value_time" where
  "mt_to_value c t =
     (let total_hours = mt_hour c t in
      (\<not> mt_is_positive t, total_hours div 24, (total_hours mod 24) mod 2 ^ 8, mt_minutes c t, mt_seconds c t,
       mt_microseconds c t))"

definition mt_from_value :: "'d chrono \<Rightarrow> value_time \<Rightarrow> mysql_time returning" where
  "mt_from_value c = (\<lambda>(is_neg, days, hours, minutes, seconds, microseconds).
     if days * 24 \<ge> 2 ^ 32 then Some (Inl Panic)
     else
       let hours = (days * 24) mod 2 ^ 16 + hours in
       if hours \<ge> 2 ^ 16 then Some (Inl Panic)
       else from_hmsus c (\<not> is_neg) hours minutes seconds microseconds)"


subsection \<open>What the code relies on\<close>

text \<open>A duration is a number \<open>ns\<close> of nanoseconds; the counts of larger units are rounded towards zero.\<close>

locale chrono_durations =
  fixes c :: "'d chrono" and ns :: "'d \<Rightarrow> int"
  assumes ns_seconds: "\<bar>s\<bar> \<le> 2 ^ 53 \<Longrightarrow> ns (dur_seconds c s) = s * 1000000000"
    and ns_microseconds: "i64_range m \<Longrightarrow> ns (dur_microseconds c m) = m * 1000"
    and ns_nanoseconds: "i64_range n \<Longrightarrow> ns (dur_nanoseconds c n) = n"
    and hours_ns: "num_hours c d = ns d sdiv 3600000000000"
    and minutes_ns: "num_minutes c d = ns d sdiv 60000000000"
    and seconds_ns: "num_seconds c d = ns d sdiv 1000000000"
    and microseconds_ns: "i64_range (ns d sdiv 1000) \<Longrightarrow> num_microseconds c d = Some (ns d sdiv 1000)"
    and nanoseconds_ns: "num_nanoseconds c d = (if i64_range (ns d) then Some (ns d) else None)"
    and add_ns: "\<lbrakk>i64_range (ns d); i64_range (ns e)\<rbrakk> \<Longrightarrow> ns (dur_add c d e) = ns d + ns e"
    and sub_ns: "\<lbrakk>i64_range (ns d); i64_range (ns e)\<rbrakk> \<Longrightarrow> ns (dur_sub c d e) = ns d - ns e"

text \<open>The longest time that is kept: less than one second more than \<open>838:59:59\<close>.\<close>

definition time_ok :: "mysql_time \<Rightarrow> bool" where
  "time_ok t \<longleftrightarrow> \<bar>nanos t\<bar> < 3020400 * 1000000000"

definition clamped :: "int \<Rightarrow> mysql_time" where
  "clamped n =
     \<lparr>nanos = (if n \<ge> 3020400 * 1000000000 then 3020399 * 1000000000
               else if n \<le> - 3020400 * 1000000000 then - 3020399 * 1000000000 else n)\<rparr>"

lemma clamped_ok: "time_ok (clamped n)"
  by (auto simp: time_ok_def clamped_def)

lemma clamped_id: "time_ok t \<Longrightarrow> clamped (nanos t) = t"
  by (cases t) (auto simp: time_ok_def clamped_def)

lemma time_ok_i64: "time_ok t \<Longrightarrow> i64_range (nanos t)"
  by (auto simp: time_ok_def i64_range_def)

lemma sdiv_by_cases: "0 < b \<Longrightarrow> n sdiv b = (if 0 \<le> n then n div b else - (- n div b))" for n b :: int
  by (auto simp: signed_divide_int_def sgn_if)

lemma sdiv_abs_eq: "0 < b \<Longrightarrow> \<bar>n sdiv b\<bar> = \<bar>n\<bar> div b" for n b :: int
  by (auto simp: sdiv_by_cases pos_imp_zdiv_nonneg_iff)

lemma clamped_seconds:
  fixes n :: int
  shows "n sdiv 1000000000 > 3020399 \<longleftrightarrow> n \<ge> 3020400 * 1000000000"
  "n sdiv 1000000000 < - 3020399 \<longleftrightarrow> n \<le> - 3020400 * 1000000000"
  by (auto simp: sdiv_by_cases split: if_splits; presburger)+

lemma div_step: "\<lbrakk>b * c = d; 0 \<le> c\<rbrakk> \<Longrightarrow> n div d = n div b div c" for n b c d :: int
  using zdiv_zmult2_eq [of c n b] by simp

lemma unit_divs:
  "n div 1000000000 = n div 1000 div 1000000" "n div 60000000000 = n div 1000 div 1000000 div 60"
  "n div 3600000000000 = n div 1000 div 1000000 div 60 div 60" for n :: int
proof -
  have s: "n div 1000000000 = n div 1000 div 1000000" by (rule div_step) simp_all
  have m: "n div 60000000000 = n div 1000000000 div 60" by (rule div_step) simp_all
  have h: "n div 3600000000000 = n div 60000000000 div 60" by (rule div_step) simp_all
  show "n div 1000000000 = n div 1000 div 1000000" by (rule s)
  show "n div 60000000000 = n div 1000 div 1000000 div 60" unfolding m s ..
  show "n div 3600000000000 = n div 1000 div 1000000 div 60 div 60" unfolding h m s ..
qed

lemma sum_of_fields:
  "n div 3600000000000 * 3600000000 + (n div 60000000000) mod 60 * 60000000 + (n div 1000000000) mod 60 * 1000000 +
     (n div 1000) mod 1000000 = n div 1000" for n :: int
proof -
  have "h * 3600000000 + bm * 60000000 + am * 1000000 + qm = q"
    if "q = a * 1000000 + qm" "a = b * 60 + am" "b = h * 60 + bm" for h bm am qm q a b :: int using that by simp
  from this [OF div_mult_mod_eq [symmetric] div_mult_mod_eq [symmetric] div_mult_mod_eq [symmetric]]
  show ?thesis unfolding unit_divs .
qed

lemma rs_cmp_div_mod:
  "0 < m \<Longrightarrow> rs_cmp x y = ord_then (rs_cmp (x div m) (y div m)) (rs_cmp (x mod m) (y mod m))" for x y m :: int
proof -
  assume m: "0 < m"
  have le: "x div m < y div m \<Longrightarrow> x < y" for x y by (metis linorder_not_less m zdiv_mono1)
  have eq: "x div m = y div m \<Longrightarrow> x < y \<longleftrightarrow> x mod m < y mod m" for x y
    using div_mult_mod_eq [of x m] div_mult_mod_eq [of y m] by (metis add_less_cancel_left)
  consider "x div m < y div m" | "y div m < x div m" | "x div m = y div m" by linarith
  then show ?thesis
  proof cases
    case 3
    then show ?thesis using eq [of x y] eq [of y x] by (auto simp: rs_cmp_def)
  qed (use le [of x y] le [of y x] in \<open>auto simp: rs_cmp_def\<close>)
qed

lemma ord_then_assoc: "ord_then (ord_then x y) z = ord_then x (ord_then y z)"
  by (cases x; cases y) simp_all

lemma rs_cmp_fields:
  fixes x y :: int
  defines "q \<equiv> \<lambda>n. n div 1000"
  shows "ord_then (rs_cmp (x div 3600000000000) (y div 3600000000000))
       (ord_then (rs_cmp ((x div 60000000000) mod 60) ((y div 60000000000) mod 60))
         (ord_then (rs_cmp ((x div 1000000000) mod 60) ((y div 1000000000) mod 60))
           (rs_cmp ((x div 1000) mod 1000000) ((y div 1000) mod 1000000)))) = rs_cmp (q x) (q y)"
  unfolding unit_divs q_def ord_then_assoc [symmetric] by (simp only: rs_cmp_div_mod [symmetric] zero_less_numeral)

context chrono_durations
begin

lemma new_clamped: "mt_new c d = Some (Inr (clamped (ns d)))"
proof -
  have fits: "mt_new c e = Some (Inr \<lparr>nanos = ns e\<rparr>)" if "\<bar>ns e\<bar> < 3020400 * 1000000000" for e
    using that clamped_seconds [of "ns e"]
    by (subst mt_new.simps)
      (auto simp: MAX_MYSQL_TIME_SECONDS_def seconds_ns of_duration_def nanoseconds_ns i64_range_def)
  show ?thesis
  proof (cases "\<bar>ns d\<bar> < 3020400 * 1000000000")
    case True
    with fits [OF this] show ?thesis by (auto simp: clamped_def)
  next
    case False
    then show ?thesis
      using fits [of "dur_seconds c 3020399"] fits [of "dur_seconds c (- 3020399)"] clamped_seconds [of "ns d"]
      by (subst mt_new.simps) (auto simp: MAX_MYSQL_TIME_SECONDS_def seconds_ns clamped_def ns_seconds)
  qed
qed

lemma from_hmsus_clamped:
  assumes "0 \<le> h" "h < 2 ^ 16" "0 \<le> m" "0 \<le> s" "0 \<le> us"
  shows "from_hmsus c pos h m s us =
    Some (Inr (clamped ((if pos then 1 else - 1) * (h * 3600000000 + min m 59 * 60000000 + min s 59 * 1000000 + min us 999999) * 1000)))"
proof -
  define x where "x = h * 3600000000 + min m 59 * 60000000 + min s 59 * 1000000 + min us 999999"
  have "0 \<le> x" "x < 2 ^ 62" using assms unfolding x_def by (auto simp: min_def)
  then have "i64_range (x * (if pos then 1 else - 1))" by (auto simp: i64_range_def)
  moreover have "h * 3600 * MICROSECS_IN_SECOND + min m 59 * 60 * MICROSECS_IN_SECOND + min s 59 * MICROSECS_IN_SECOND + min us 999999 = x"
    by (simp add: x_def MICROSECS_IN_SECOND_def)
  ultimately show ?thesis unfolding x_def [symmetric]
    by (auto simp: from_hmsus_def Let_def new_clamped ns_microseconds)
qed

lemma duration_ns: "time_ok t \<Longrightarrow> ns (mt_duration c t) = nanos t"
  by (simp add: mt_duration_def ns_nanoseconds time_ok_i64)

lemma add_clamped: "\<lbrakk>time_ok a; time_ok b\<rbrakk> \<Longrightarrow> mt_add c a b = Some (Inr (clamped (nanos a + nanos b)))"
  by (simp add: mt_add_def new_clamped add_ns duration_ns time_ok_i64)

lemma sub_clamped: "\<lbrakk>time_ok a; time_ok b\<rbrakk> \<Longrightarrow> mt_sub c a b = Some (Inr (clamped (nanos a - nanos b)))"
  by (simp add: mt_sub_def new_clamped sub_ns duration_ns time_ok_i64)

lemma fields:
  assumes "time_ok t"
  shows "mt_hour c t = \<bar>nanos t\<bar> div 3600000000000" "mt_minutes c t = (\<bar>nanos t\<bar> div 60000000000) mod 60"
    "mt_seconds c t = (\<bar>nanos t\<bar> div 1000000000) mod 60" "mt_microseconds c t = (\<bar>nanos t\<bar> div 1000) mod 1000000"
proof -
  have n: "0 \<le> \<bar>nanos t\<bar>" "\<bar>nanos t\<bar> < 3020400000000000" using assms by (simp_all add: time_ok_def)
  have us: "i64_range (nanos t sdiv 1000)"
    using sdiv_abs [of "nanos t" 1000] n by (auto simp: i64_range_def)
  have hour: "0 \<le> \<bar>nanos t\<bar> div 3600000000000" "\<bar>nanos t\<bar> div 3600000000000 < 2 ^ 16"
    using zdiv_mono1 [of "\<bar>nanos t\<bar>" 3020400000000000 3600000000000] n by (simp_all only: pos_imp_zdiv_nonneg_iff) simp_all
  show "mt_hour c t = \<bar>nanos t\<bar> div 3600000000000"
    unfolding mt_hour_def hours_ns duration_ns [OF assms] Let_def using hour(2) by (simp only: sdiv_abs_eq zero_less_numeral if_True)
  have cap: "min (if m < 2 ^ 8 then m else 59) 59 = m" if "m < 60" for m :: int using that by simp
  show "mt_minutes c t = (\<bar>nanos t\<bar> div 60000000000) mod 60"
    unfolding mt_minutes_def minutes_ns duration_ns [OF assms] Let_def
    by (simp only: sdiv_abs_eq zero_less_numeral cap pos_mod_bound)
  show "mt_seconds c t = (\<bar>nanos t\<bar> div 1000000000) mod 60"
    unfolding mt_seconds_def seconds_ns duration_ns [OF assms] Let_def
    by (simp only: sdiv_abs_eq zero_less_numeral cap pos_mod_bound)
  have micros: "max (m mod 1000000 mod 2 ^ 32) 0 = m mod 1000000" for m :: int
    using pos_mod_bound [of 1000000 m] pos_mod_sign [of 1000000 m] by (simp add: mod_pos_pos_trivial)
  show "mt_microseconds c t = (\<bar>nanos t\<bar> div 1000) mod 1000000"
    unfolding mt_microseconds_def MICROSECS_IN_SECOND_def using us
    by (simp only: microseconds_ns duration_ns [OF assms] option.case sdiv_abs_eq zero_less_numeral micros)
qed

lemma field_ranges:
  assumes "time_ok t"
  shows "0 \<le> mt_hour c t" "mt_hour c t \<le> 838" "0 \<le> mt_minutes c t" "mt_minutes c t \<le> 59"
    "0 \<le> mt_seconds c t" "mt_seconds c t \<le> 59" "0 \<le> mt_microseconds c t" "mt_microseconds c t \<le> 999999"
proof -
  have n: "\<bar>nanos t\<bar> \<le> 3020399999999999" using assms by (simp add: time_ok_def)
  have "\<bar>nanos t\<bar> div 3600000000000 \<le> 3020399999999999 div 3600000000000" using n by (rule zdiv_mono1) simp
  then show "mt_hour c t \<le> 838" unfolding fields(1) [OF assms] by simp
  have mods: "0 \<le> x mod 60" "x mod 60 \<le> 59" "0 \<le> x mod 1000000" "x mod 1000000 \<le> 999999" for x :: int
    using pos_mod_bound [of 60 x] pos_mod_bound [of 1000000 x] by simp_all
  show "0 \<le> mt_hour c t" unfolding fields(1) [OF assms] by (simp only: pos_imp_zdiv_nonneg_iff zero_less_numeral abs_ge_zero)
  show "0 \<le> mt_minutes c t" "mt_minutes c t \<le> 59" "0 \<le> mt_seconds c t" "mt_seconds c t \<le> 59"
    "0 \<le> mt_microseconds c t" "mt_microseconds c t \<le> 999999"
    unfolding fields [OF assms] by (rule mods)+
qed

lemma fields_roundtrip:
  assumes "time_ok t" "nanos t mod 1000 = 0"
  shows "from_hmsus c (mt_is_positive t) (mt_hour c t) (mt_minutes c t) (mt_seconds c t) (mt_microseconds c t) = Some (Inr t)"
proof -
  note ranges = field_ranges [OF assms(1)]
  have total: "mt_hour c t * 3600000000 + min (mt_minutes c t) 59 * 60000000 + min (mt_seconds c t) 59 * 1000000 +
      min (mt_microseconds c t) 999999 = \<bar>nanos t\<bar> div 1000"
    using ranges sum_of_fields [of "\<bar>nanos t\<bar>"] by (simp add: min_absorb1 flip: fields [OF assms(1)])
  have "\<bar>nanos t\<bar> div 1000 * 1000 = \<bar>nanos t\<bar>" using assms(2) by (auto simp: abs_if)
  then have "(if mt_is_positive t then 1 else - 1) * (\<bar>nanos t\<bar> div 1000) * 1000 = nanos t"
    by (auto simp: mt_is_positive_def)
  moreover have "mt_hour c t < 2 ^ 16" using ranges(2) by simp
  ultimately show ?thesis
    using from_hmsus_clamped [of "mt_hour c t" "mt_minutes c t" "mt_seconds c t" "mt_microseconds c t" "mt_is_positive t"]
      ranges clamped_id [OF assms(1)] unfolding total by simp
qed

lemma value_roundtrip:
  assumes "time_ok t" "nanos t mod 1000 = 0"
  shows "mt_from_value c (mt_to_value c t) = Some (Inr t)"
proof -
  note ranges = field_ranges [OF assms(1)]
  have "mt_hour c t div 24 * 24 + mt_hour c t mod 24 = mt_hour c t" by (rule div_mult_mod_eq)
  moreover have "0 \<le> mt_hour c t div 24 * 24" "mt_hour c t div 24 * 24 \<le> 838" "0 \<le> mt_hour c t mod 24" "mt_hour c t mod 24 < 24"
    using ranges(1,2) by (auto simp: pos_imp_zdiv_nonneg_iff)
  ultimately show ?thesis
    using fields_roundtrip [OF assms] ranges(2) by (simp add: mt_from_value_def mt_to_value_def Let_def)
qed

lemma cmp_micros:
  assumes "time_ok a" "time_ok b"
  shows "mt_cmp c a b = ord_then (rs_cmp (mt_is_positive a) (mt_is_positive b)) (rs_cmp (\<bar>nanos a\<bar> div 1000) (\<bar>nanos b\<bar> div 1000))"
  unfolding mt_cmp_def fields [OF assms(1)] fields [OF assms(2)] rs_cmp_fields ..

end


text \<open>Durations that are plain numbers of nanoseconds satisfy all of it.\<close>

definition nanos_chrono :: "int chrono" where
  "nanos_chrono =
     \<lparr>dur_seconds = (\<lambda>s. s * 1000000000), dur_microseconds = (\<lambda>m. m * 1000), dur_nanoseconds = (\<lambda>n. n),
      num_hours = (\<lambda>d. d sdiv 3600000000000), num_minutes = (\<lambda>d. d sdiv 60000000000), num_seconds = (\<lambda>d. d sdiv 1000000000),
      num_microseconds = (\<lambda>d. if i64_range (d sdiv 1000) then Some (d sdiv 1000) else None),
      num_nanoseconds = (\<lambda>d. if i64_range d then Some d else None),
      dur_add = (+), dur_sub = (-)\<rparr>"

interpretation nanos: chrono_durations nanos_chrono "\<lambda>d. d"
  by unfold_locales (simp_all add: nanos_chrono_def)

subsection \<open>Properties\<close>



text \<open>
  C37. A time of whole microseconds is given back by \<open>from_hmsus\<close> from its sign and fields, and by the conversion to
  a value of the MySQL protocol and back.
\<close>

theorem mysql_time_roundtrip:
  assumes "chrono_durations c ns" "time_ok t" "nanos t mod 1000 = 0"
  shows "from_hmsus c (mt_is_positive t) (mt_hour c t) (mt_minutes c t) (mt_seconds c t) (mt_microseconds c t) = Some (Inr t) \<and>
    mt_from_value c (mt_to_value c t) = Some (Inr t)"
  using chrono_durations.fields_roundtrip [OF assms] chrono_durations.value_roundtrip [OF assms] by simp

theorem mysql_time_roundtrip_witness:
  "from_hmsus nanos_chrono False 100 17 9 5 = Some (Inr \<lparr>nanos = - 361029000005000\<rparr>) \<and>
   mt_from_value nanos_chrono (True, 4, 4, 17, 9, 5) = Some (Inr \<lparr>nanos = - 361029000005000\<rparr>)"
proof -
  let ?t = "\<lparr>nanos = - 361029000005000\<rparr>"
  have t: "time_ok ?t" "nanos ?t mod 1000 = 0" by (simp_all add: time_ok_def)
  have "mt_hour nanos_chrono ?t = 100" "mt_minutes nanos_chrono ?t = 17" "mt_seconds nanos_chrono ?t = 9"
    "mt_microseconds nanos_chrono ?t = 5" "\<not> mt_is_positive ?t"
    using nanos.fields [OF t(1)] by (simp_all add: mt_is_positive_def)
  then show ?thesis
    using mysql_time_roundtrip [OF nanos.chrono_durations_axioms t] by (simp add: mt_to_value_def)
qed



end
