(* ===== verification/Types.thy ===== *)
theory Types
  imports MysqlTime
begin

section \<open>SQL types in the dataflow\<close>

text \<open>
  \<open>src/readyset-data/src/type.rs\<close>, \<open>dialect.rs\<close> and \<open>collation.rs\<close> of the same directory: the type \<open>DfType\<close>, its
  classification, and the translation from the types of the parser, \<open>SqlType\<close> of \<open>src/nom-sql/src/sql_type.rs\<close>. Lengths
  and precisions are natural numbers. Named custom types have names of the parameter type \<open>'r\<close> and are resolved by a
  function that the caller passes.
\<close>

datatype sql_engine = PostgreSQL | MySQL

record dialect =
  engine :: sql_engine

definition default_subsecond_digits :: "dialect \<Rightarrow> nat" where
  "default_subsecond_digits d = (case engine d of MySQL \<Rightarrow> 0 | PostgreSQL \<Rightarrow> 6)"

definition double_pipe_is_concat :: "dialect \<Rightarrow> bool" where
  "double_pipe_is_concat d = (case engine d of MySQL \<Rightarrow> False | PostgreSQL \<Rightarrow> True)"

datatype collation = Utf8 | Citext

record pg_enum_metadata =
  enum_name :: string
  enum_schema :: string
  enum_oid :: nat
  enum_array_oid :: nat

datatype df_type =
    TUnknown
  | TArray df_type
  | TBool
  | TInt
  | TUnsignedInt
  | TBigInt
  | TUnsignedBigInt
  | TTinyInt
  | TUnsignedTinyInt
  | TSmallInt
  | TUnsignedSmallInt
  | TFloat
  | TDouble
  | TNumeric nat nat
  | TText collation
  | TChar nat collation dialect
  | TVarChar nat collation
  | TBlob
  | TBinary nat
  | TVarBinary nat
  | TBit nat
  | TVarBit "nat option"
  | TDate
  | TDateTime nat
  | TTime nat
  | TTimestamp nat
  | TTimestampTz nat
  | TMacAddr
  | TInet
  | TUuid
  | TEnum "string list" "pg_enum_metadata option"
  | TJson
  | TJsonb

definition DEFAULT_TEXT :: df_type where
  "DEFAULT_TEXT = TText Utf8"

definition DEFAULT_NUMERIC_PREC :: nat where
  "DEFAULT_NUMERIC_PREC = 10"

definition DEFAULT_NUMERIC_SCALE :: nat where
  "DEFAULT_NUMERIC_SCALE = 0"

definition DEFAULT_NUMERIC :: df_type where
  "DEFAULT_NUMERIC = TNumeric DEFAULT_NUMERIC_PREC DEFAULT_NUMERIC_SCALE"

definition DEFAULT_BIT :: df_type where
  "DEFAULT_BIT = TBit 1"

definition float_type :: "dialect \<Rightarrow> df_type" where
  "float_type d = (case engine d of MySQL \<Rightarrow> TFloat | PostgreSQL \<Rightarrow> TDouble)"

definition real_type :: "dialect \<Rightarrow> df_type" where
  "real_type d = (case engine d of PostgreSQL \<Rightarrow> TDouble | MySQL \<Rightarrow> TFloat)"

definition serial_type :: "dialect \<Rightarrow> df_type" where
  "serial_type d = (case engine d of MySQL \<Rightarrow> TUnsignedBigInt | PostgreSQL \<Rightarrow> TInt)"

subsection \<open>Types of the parser\<close>

datatype 'r sql_type =
    SqlBool
  | SqlChar "nat option"
  | SqlVarChar "nat option"
  | SqlInt "nat option"
  | SqlUnsignedInt "nat option"
  | SqlBigInt "nat option"
  | SqlUnsignedBigInt "nat option"
  | SqlTinyInt "nat option"
  | SqlUnsignedTinyInt "nat option"
  | SqlSmallInt "nat option"
  | SqlUnsignedSmallInt "nat option"
  | SqlBlob
  | SqlLongBlob
  | SqlMediumBlob
  | SqlTinyBlob
  | SqlDouble
  | SqlFloat
  | SqlReal
  | SqlNumeric "(nat \<times> nat option) option"
  | SqlTinyText
  | SqlMediumText
  | SqlLongText
  | SqlText
  | SqlCitext
  | SqlQuotedChar
  | SqlDate
  | SqlDateTime "nat option"
  | SqlTime
  | SqlTimestamp
  | SqlTimestampTz
  | SqlBinary "nat option"
  | SqlVarBinary nat
  | SqlEnum "string list"
  | SqlDecimal nat nat
  | SqlJson
  | SqlJsonb
  | SqlByteArray
  | SqlMacAddr
  | SqlInet
  | SqlUuid
  | SqlBit "nat option"
  | SqlVarBit "nat option"
  | SqlSerial
  | SqlBigSerial
  | SqlArray "'r sql_type"
  | SqlOther 'r

fun sql_is_any_text :: "'r sql_type \<Rightarrow> bool" where
  "sql_is_any_text ty =
     (case ty of
        SqlText \<Rightarrow> True | SqlTinyText \<Rightarrow> True | SqlMediumText \<Rightarrow> True | SqlLongText \<Rightarrow> True | SqlChar _ \<Rightarrow> True
      | SqlVarChar _ \<Rightarrow> True | _ \<Rightarrow> False)"

fun sql_innermost_array_type :: "'r sql_type \<Rightarrow> 'r sql_type" where
  "sql_innermost_array_type (SqlArray ty) = sql_innermost_array_type ty"
| "sql_innermost_array_type ty = ty"

definition unwrap_or :: "'a option \<Rightarrow> 'a \<Rightarrow> 'a" where
  "unwrap_or x d = (case x of Some v \<Rightarrow> v | None \<Rightarrow> d)"

text \<open>\<open>DfType::from_sql_type\<close> on a type that is present; the error is the name of an unsupported type.\<close>

fun from_sql_type :: "dialect \<Rightarrow> ('r \<Rightarrow> df_type option) \<Rightarrow> 'r sql_type \<Rightarrow> 'r + df_type" where
  "from_sql_type d resolve (SqlArray ty) = try_bind (from_sql_type d resolve ty) (\<lambda>t. Inr (TArray t))"
| "from_sql_type d resolve (SqlEnum variants) = Inr (TEnum variants None)"
| "from_sql_type d resolve SqlBool = Inr TBool"
| "from_sql_type d resolve SqlSerial = Inr (serial_type d)"
| "from_sql_type d resolve SqlBigSerial = Inr TBigInt"
| "from_sql_type d resolve (SqlInt _) = Inr TInt"
| "from_sql_type d resolve (SqlTinyInt _) = Inr TTinyInt"
| "from_sql_type d resolve (SqlSmallInt _) = Inr TSmallInt"
| "from_sql_type d resolve (SqlBigInt _) = Inr TBigInt"
| "from_sql_type d resolve (SqlUnsignedInt _) = Inr TUnsignedInt"
| "from_sql_type d resolve (SqlUnsignedTinyInt _) = Inr TUnsignedTinyInt"
| "from_sql_type d resolve (SqlUnsignedSmallInt _) = Inr TUnsignedSmallInt"
| "from_sql_type d resolve (SqlUnsignedBigInt _) = Inr TUnsignedBigInt"
| "from_sql_type d resolve SqlDouble = Inr TDouble"
| "from_sql_type d resolve SqlFloat = Inr (float_type d)"
| "from_sql_type d resolve SqlReal = Inr (real_type d)"
| "from_sql_type d resolve (SqlNumeric prec) =
     (case unwrap_or prec (DEFAULT_NUMERIC_PREC, None) of
        (prec, scale) \<Rightarrow> Inr (TNumeric prec (unwrap_or scale DEFAULT_NUMERIC_SCALE)))"
| "from_sql_type d resolve (SqlDecimal prec scale) = Inr (TNumeric prec scale)"
| "from_sql_type d resolve SqlText = Inr DEFAULT_TEXT"
| "from_sql_type d resolve SqlTinyText = Inr DEFAULT_TEXT"
| "from_sql_type d resolve SqlMediumText = Inr DEFAULT_TEXT"
| "from_sql_type d resolve SqlLongText = Inr DEFAULT_TEXT"
| "from_sql_type d resolve (SqlVarChar None) = Inr DEFAULT_TEXT"
| "from_sql_type d resolve (SqlVarChar (Some len)) = Inr (TVarChar len Utf8)"
| "from_sql_type d resolve (SqlChar len) = Inr (TChar (unwrap_or len 1) Utf8 d)"
| "from_sql_type d resolve SqlQuotedChar = Inr TTinyInt"
| "from_sql_type d resolve SqlBlob = Inr TBlob"
| "from_sql_type d resolve SqlTinyBlob = Inr TBlob"
| "from_sql_type d resolve SqlMediumBlob = Inr TBlob"
| "from_sql_type d resolve SqlLongBlob = Inr TBlob"
| "from_sql_type d resolve SqlByteArray = Inr TBlob"
| "from_sql_type d resolve (SqlVarBinary len) = Inr (TVarBinary len)"
| "from_sql_type d resolve (SqlBinary len) = Inr (TBinary (unwrap_or len 1))"
| "from_sql_type d resolve (SqlBit len) = Inr (TBit (unwrap_or len 1))"
| "from_sql_type d resolve (SqlVarBit len) = Inr (TVarBit len)"
| "from_sql_type d resolve SqlJson = Inr TJson"
| "from_sql_type d resolve SqlJsonb = Inr TJsonb"
| "from_sql_type d resolve SqlDate = Inr TDate"
| "from_sql_type d resolve (SqlDateTime subsecond_digits) =
     Inr (TDateTime (unwrap_or subsecond_digits (default_subsecond_digits d)))"
| "from_sql_type d resolve SqlTime = Inr (TTime (default_subsecond_digits d))"
| "from_sql_type d resolve SqlTimestamp = Inr (TTimestamp (default_subsecond_digits d))"
| "from_sql_type d resolve SqlTimestampTz = Inr (TTimestampTz (default_subsecond_digits d))"
| "from_sql_type d resolve SqlUuid = Inr TUuid"
| "from_sql_type d resolve SqlMacAddr = Inr TMacAddr"
| "from_sql_type d resolve SqlInet = Inr TInet"
| "from_sql_type d resolve SqlCitext = Inr (TText Citext)"
| "from_sql_type d resolve (SqlOther name) = (case resolve name of Some t \<Rightarrow> Inr t | None \<Rightarrow> Inl name)"

definition from_sql_type_option :: "dialect \<Rightarrow> ('r \<Rightarrow> df_type option) \<Rightarrow> 'r sql_type option \<Rightarrow> 'r + df_type" where
  "from_sql_type_option d resolve ty = (case ty of Some ty \<Rightarrow> from_sql_type d resolve ty | None \<Rightarrow> Inr TUnknown)"

subsection \<open>Classification\<close>

datatype pg_type_category =
    CatArray | CatBoolean | CatComposite | CatDateTime | CatEnum | CatGeometric | CatNetworkAddress | CatNumeric | CatPseudo
  | CatRange | CatString | CatTimespan | CatUserDefined | CatBitString | CatUnknown

fun pg_category :: "df_type \<Rightarrow> pg_type_category" where
  "pg_category TUnknown = CatUnknown"
| "pg_category (TArray _) = CatArray"
| "pg_category TBool = CatBoolean"
| "pg_category TInt = CatNumeric"
| "pg_category TUnsignedInt = CatNumeric"
| "pg_category TBigInt = CatNumeric"
| "pg_category TUnsignedBigInt = CatNumeric"
| "pg_category TTinyInt = CatNumeric"
| "pg_category TUnsignedTinyInt = CatNumeric"
| "pg_category TSmallInt = CatNumeric"
| "pg_category TUnsignedSmallInt = CatNumeric"
| "pg_category TFloat = CatNumeric"
| "pg_category TDouble = CatNumeric"
| "pg_category (TNumeric _ _) = CatNumeric"
| "pg_category (TText _) = CatString"
| "pg_category (TChar _ _ _) = CatString"
| "pg_category (TVarChar _ _) = CatString"
| "pg_category TBlob = CatBitString"
| "pg_category (TBinary _) = CatBitString"
| "pg_category (TVarBinary _) = CatBitString"
| "pg_category (TBit _) = CatBitString"
| "pg_category (TVarBit _) = CatBitString"
| "pg_category TDate = CatDateTime"
| "pg_category (TDateTime _) = CatDateTime"
| "pg_category (TTime _) = CatDateTime"
| "pg_category (TTimestamp _) = CatDateTime"
| "pg_category (TTimestampTz _) = CatDateTime"
| "pg_category TMacAddr = CatNetworkAddress"
| "pg_category TInet = CatNetworkAddress"
| "pg_category TUuid = CatUserDefined"
| "pg_category (TEnum _ _) = CatUserDefined"
| "pg_category TJson = CatUserDefined"
| "pg_category TJsonb = CatUserDefined"

fun type_subsecond_digits :: "df_type \<Rightarrow> nat option" where
  "type_subsecond_digits (TDateTime n) = Some n"
| "type_subsecond_digits (TTime n) = Some n"
| "type_subsecond_digits (TTimestamp n) = Some n"
| "type_subsecond_digits (TTimestampTz n) = Some n"
| "type_subsecond_digits _ = None"

fun is_unknown :: "df_type \<Rightarrow> bool" where
  "is_unknown TUnknown = True"
| "is_unknown _ = False"

definition is_known :: "df_type \<Rightarrow> bool" where
  "is_known ty = (\<not> is_unknown ty)"

definition try_into_known :: "df_type \<Rightarrow> df_type option" where
  "try_into_known ty = (if is_known ty then Some ty else None)"

fun is_strictly_known :: "df_type \<Rightarrow> bool" where
  "is_strictly_known TUnknown = False"
| "is_strictly_known (TArray ty) = is_strictly_known ty"
| "is_strictly_known _ = True"

fun is_enum :: "df_type \<Rightarrow> bool" where
  "is_enum (TEnum _ _) = True"
| "is_enum _ = False"

definition is_json :: "df_type \<Rightarrow> bool" where
  "is_json ty = (ty = TJson)"

definition is_jsonb :: "df_type \<Rightarrow> bool" where
  "is_jsonb ty = (ty = TJsonb)"

definition is_any_json :: "df_type \<Rightarrow> bool" where
  "is_any_json ty = (ty = TJson \<or> ty = TJsonb)"

fun is_any_text :: "df_type \<Rightarrow> bool" where
  "is_any_text (TText _) = True"
| "is_any_text (TVarChar _ _) = True"
| "is_any_text (TChar _ _ _) = True"
| "is_any_text _ = False"

definition is_any_json_like :: "df_type \<Rightarrow> bool" where
  "is_any_json_like ty = (is_any_json ty \<or> is_any_text ty)"

definition is_bool :: "df_type \<Rightarrow> bool" where
  "is_bool ty = (ty = TBool)"

definition is_any_int :: "df_type \<Rightarrow> bool" where
  "is_any_int ty =
     (ty \<in> {TTinyInt, TUnsignedTinyInt, TSmallInt, TUnsignedSmallInt, TInt, TUnsignedInt, TBigInt, TUnsignedBigInt})"

definition is_any_float :: "df_type \<Rightarrow> bool" where
  "is_any_float ty = (ty = TFloat \<or> ty = TDouble)"

fun is_array :: "df_type \<Rightarrow> bool" where
  "is_array (TArray _) = True"
| "is_array _ = False"

fun is_binary :: "df_type \<Rightarrow> bool" where
  "is_binary (TBinary _) = True"
| "is_binary (TVarBinary _) = True"
| "is_binary _ = False"

fun innermost_array_type :: "df_type \<Rightarrow> df_type" where
  "innermost_array_type (TArray ty) = innermost_array_type ty"
| "innermost_array_type ty = ty"

definition type_or :: "df_type \<Rightarrow> df_type \<Rightarrow> df_type" where
  "type_or ty other = (if is_known ty then ty else other)"

definition type_or_else :: "df_type \<Rightarrow> (unit \<Rightarrow> df_type) \<Rightarrow> df_type" where
  "type_or_else ty f = (if is_known ty then ty else f ())"

subsection \<open>Translated types\<close>

lemma from_sql_type_known:
  assumes "\<And>name t. resolve name = Some t \<Longrightarrow> is_strictly_known t" "from_sql_type d resolve ty = Inr t"
  shows "is_strictly_known t"
  using assms
proof (induction d resolve ty arbitrary: t rule: from_sql_type.induct)
  case (1 d resolve ty)
  then show ?case by (cases "from_sql_type d resolve ty") auto
qed (auto simp: serial_type_def float_type_def real_type_def DEFAULT_TEXT_def
    split: sql_engine.splits prod.splits option.splits)

lemma from_sql_type_innermost:
  assumes "\<And>name t. resolve name = Some t \<Longrightarrow> \<not> is_array t" "from_sql_type d resolve ty = Inr t"
  shows "from_sql_type d resolve (sql_innermost_array_type ty) = Inr (innermost_array_type t)"
  using assms
proof (induction d resolve ty arbitrary: t rule: from_sql_type.induct)
  case (1 d resolve ty)
  then show ?case by (cases "from_sql_type d resolve ty") auto
next
  case (47 d resolve name)
  then have "\<not> is_array t" by (auto split: option.splits)
  then have "innermost_array_type t = t" by (cases t) simp_all
  with 47 show ?case by simp
qed (auto simp: serial_type_def float_type_def real_type_def DEFAULT_TEXT_def
    split: sql_engine.splits prod.splits option.splits)

end
