(* ===== verification/Timestamps.thy ===== *)
theory Timestamps
  imports Types
begin

unbundle bit_operations_syntax

section \<open>Timestamps\<close>

text \<open>
  \<open>src/readyset-data/src/timestamp.rs\<close>: the type \<open>TimestampTz\<close>, a date and time in UTC together with three bytes that
  hold the offset of the time zone, its sign, the number of subsecond digits and two flags. Dates and times are those of
  the \<open>chrono\<close> crate: their types are parameters and their operations are the record \<open>calendar\<close>.
\<close>

record ('date, 'dt) calendar =
  from_ymd_opt :: "int \<Rightarrow> int \<Rightarrow> int \<Rightarrow> 'date option"
  and_hms :: "'date \<Rightarrow> int \<Rightarrow> int \<Rightarrow> int \<Rightarrow> 'dt option"
  and_hms_micro_opt :: "'date \<Rightarrow> int \<Rightarrow> int \<Rightarrow> int \<Rightarrow> int \<Rightarrow> 'dt option"
  naive_local :: "'dt \<Rightarrow> int \<Rightarrow> 'dt"
  naive_utc :: "'dt \<Rightarrow> int \<Rightarrow> 'dt"
  dt_date :: "'dt \<Rightarrow> 'date"
  date_ymd :: "'date \<Rightarrow> int \<times> int \<times> int"
  time_hms_nano :: "'dt \<Rightarrow> int \<times> int \<times> int \<times> int"

record 'dt timestamp_tz =
  extra0 :: "8 word"
  extra1 :: "8 word"
  extra2 :: "8 word"
  ts_datetime :: 'dt

subsection \<open>The extra bytes\<close>

definition TIMEZONE_FLAG :: "8 word" where
  "TIMEZONE_FLAG = 0b01000000"

definition DATE_FLAG :: "8 word" where
  "DATE_FLAG = 0b00100000"

definition SUBSECOND_DIGITS_BITS :: "8 word" where
  "SUBSECOND_DIGITS_BITS = 0b00011100"

definition NEGATIVE_FLAG :: "8 word" where
  "NEGATIVE_FLAG = 0b00000010"

definition TOP_OFFSET_BIT :: "8 word" where
  "TOP_OFFSET_BIT = 0b00000001"

definition has_negative_offset :: "'dt timestamp_tz \<Rightarrow> bool" where
  "has_negative_offset ts = (extra2 ts AND 0b10 \<noteq> 0)"

definition has_timezone :: "'dt timestamp_tz \<Rightarrow> bool" where
  "has_timezone ts = (extra2 ts AND TIMEZONE_FLAG \<noteq> 0)"

definition has_date_only :: "'dt timestamp_tz \<Rightarrow> bool" where
  "has_date_only ts = (extra2 ts AND DATE_FLAG \<noteq> 0)"

definition set_date_only :: "'dt timestamp_tz \<Rightarrow> 'dt timestamp_tz" where
  "set_date_only ts = ts\<lparr>extra2 := extra2 ts OR DATE_FLAG\<rparr>"

definition get_offset :: "'dt timestamp_tz \<Rightarrow> int" where
  "get_offset ts =
     (let offset = uint (extra0 ts) + uint (extra1 ts) * 2 ^ 8 + uint (extra2 ts AND TOP_OFFSET_BIT) * 2 ^ 16
      in if \<not> has_negative_offset ts then offset else - offset)"

definition set_offset :: "int \<Rightarrow> 'dt timestamp_tz \<Rightarrow> df_error + 'dt timestamp_tz" where
  "set_offset offset ts =
     (if offset > - 86400 \<and> offset < 86400
      then
        let sgn = (if offset < 0 then 1 else 0) :: 8 word;
            offset = \<bar>offset\<bar>;
            e2 = word_of_int (offset div 2 ^ 16) AND TOP_OFFSET_BIT OR extra2 ts AND NOT TOP_OFFSET_BIT;
            e2 = e2 AND NOT NEGATIVE_FLAG;
            e2 = e2 OR push_bit 1 sgn AND NEGATIVE_FLAG;
            e2 = e2 OR TIMEZONE_FLAG
        in Inr (ts\<lparr>extra0 := word_of_int offset, extra1 := word_of_int (offset div 2 ^ 8), extra2 := e2\<rparr>)
      else Inl Panic)"

definition subsecond_digits :: "'dt timestamp_tz \<Rightarrow> 8 word" where
  "subsecond_digits ts = drop_bit 2 (extra2 ts AND SUBSECOND_DIGITS_BITS)"

definition set_subsecond_digits :: "8 word \<Rightarrow> 'dt timestamp_tz \<Rightarrow> 'dt timestamp_tz" where
  "set_subsecond_digits n ts =
     ts\<lparr>extra2 := (push_bit 2 n AND SUBSECOND_DIGITS_BITS) OR (extra2 ts AND NOT SUBSECOND_DIGITS_BITS)\<rparr>"

subsection \<open>Conversions\<close>

text \<open>\<open>DateTime<FixedOffset>\<close> is a date and time in UTC with an offset; \<open>Date<FixedOffset>\<close> a local date with an offset.\<close>

definition ts_to_chrono :: "'dt timestamp_tz \<Rightarrow> 'dt \<times> int" where
  "ts_to_chrono ts = (ts_datetime ts, get_offset ts)"

definition ts_new :: "'dt \<Rightarrow> 'dt timestamp_tz" where
  "ts_new dt = \<lparr>extra0 = 0, extra1 = 0, extra2 = 0, ts_datetime = dt\<rparr>"

definition ts_from_date_time :: "'dt \<times> int \<Rightarrow> df_error + 'dt timestamp_tz" where
  "ts_from_date_time dt = set_offset (snd dt) (ts_new (fst dt))"

definition ts_from_date :: "('date, 'dt) calendar \<Rightarrow> 'date \<times> int \<Rightarrow> df_error + 'dt timestamp_tz" where
  "ts_from_date cal d =
     (case and_hms cal (fst d) 0 0 0 of
        None \<Rightarrow> Inl Panic
      | Some dt \<Rightarrow> try_bind (set_offset (snd d) (ts_new (naive_utc cal dt (snd d)))) (\<lambda>ts. Inr (set_date_only ts)))"

definition ts_from_naive_date :: "('date, 'dt) calendar \<Rightarrow> 'date \<Rightarrow> df_error + 'dt timestamp_tz" where
  "ts_from_naive_date cal d =
     (case and_hms cal d 0 0 0 of None \<Rightarrow> Inl Panic | Some dt \<Rightarrow> Inr (set_date_only (ts_new dt)))"

definition ts_from_naive_date_time :: "'dt \<Rightarrow> 'dt timestamp_tz" where
  "ts_from_naive_date_time dt = ts_new dt"

definition ts_local :: "('date, 'dt) calendar \<Rightarrow> 'dt timestamp_tz \<Rightarrow> 'dt" where
  "ts_local cal ts = (case ts_to_chrono ts of (dt, offset) \<Rightarrow> naive_local cal dt offset)"

definition date_as_int :: "('date, 'dt) calendar \<Rightarrow> 'dt timestamp_tz \<Rightarrow> int" where
  "date_as_int cal ts =
     (case date_ymd cal (dt_date cal (ts_local cal ts)) of
        (year, month, day) \<Rightarrow> year * 10000 + month * 100 + day)"

definition datetime_as_int :: "('date, 'dt) calendar \<Rightarrow> 'dt timestamp_tz \<Rightarrow> int" where
  "datetime_as_int cal ts =
     (if has_date_only ts then date_as_int cal ts
      else
        let naive = ts_local cal ts in
        case date_ymd cal (dt_date cal naive) of (year, month, day) \<Rightarrow>
          case time_hms_nano cal naive of (hh, mm, ss, _) \<Rightarrow>
            year * 10000000000 + month * 100000000 + day * 1000000 + hh * 10000 + mm * 100 + ss)"

subsection \<open>The extra bytes hold what is put into them\<close>

lemma flag_bits:
  fixes w :: "8 word"
  shows "w AND 2 \<noteq> 0 \<longleftrightarrow> bit w 1" "w AND 64 \<noteq> 0 \<longleftrightarrow> bit w 6" "w AND 32 \<noteq> 0 \<longleftrightarrow> bit w 5"
  using bit_iff_and_push_bit_not_eq_0 [of w 1] bit_iff_and_push_bit_not_eq_0 [of w 6] bit_iff_and_push_bit_not_eq_0 [of w 5]
  by simp_all


lemma one_bit: "bit (push_bit m 1 :: 8 word) n \<longleftrightarrow> n = m \<and> m < 8"
  by (auto simp: bit_simps)

lemma masks:
  shows "bit (1 :: 8 word) n \<longleftrightarrow> n = 0" "bit (2 :: 8 word) n \<longleftrightarrow> n = 1" "bit (64 :: 8 word) n \<longleftrightarrow> n = 6"
    "bit (32 :: 8 word) n \<longleftrightarrow> n = 5" "bit (28 :: 8 word) n \<longleftrightarrow> n \<in> {2, 3, 4}"
proof -
  have eqs: "(2 :: 8 word) = push_bit 1 1" "(64 :: 8 word) = push_bit 6 1" "(32 :: 8 word) = push_bit 5 1"
    "(28 :: 8 word) = push_bit 2 1 OR push_bit 3 1 OR push_bit 4 1" by simp_all
  show "bit (1 :: 8 word) n \<longleftrightarrow> n = 0" by (simp add: bit_1_iff)
  show "bit (2 :: 8 word) n \<longleftrightarrow> n = 1" "bit (64 :: 8 word) n \<longleftrightarrow> n = 6" "bit (32 :: 8 word) n \<longleftrightarrow> n = 5"
    "bit (28 :: 8 word) n \<longleftrightarrow> n \<in> {2, 3, 4}"
    unfolding eqs bit_or_iff one_bit by auto
qed

lemmas extra_defs = TIMEZONE_FLAG_def DATE_FLAG_def SUBSECOND_DIGITS_BITS_def NEGATIVE_FLAG_def TOP_OFFSET_BIT_def

lemma top_bit: "uint (w AND 1 :: 8 word) = of_bool (bit w 0)"
  by (simp add: and_one_eq mod_2_eq_odd bit_0)

definition offset_byte :: "int \<Rightarrow> 8 word \<Rightarrow> 8 word" where
  "offset_byte offset e2 =
     ((word_of_int (\<bar>offset\<bar> div 2 ^ 16) AND 1 OR e2 AND NOT 1) AND NOT 2 OR
       push_bit 1 (if offset < 0 then 1 else 0) AND 2) OR 64"

lemma offset_byte_bits:
  "bit (offset_byte offset e2) n \<longleftrightarrow>
     n < 8 \<and> (if n = 0 then odd (\<bar>offset\<bar> div 2 ^ 16) else if n = 1 then offset < 0 else n = 6 \<or> bit e2 n)"
  unfolding offset_byte_def bit_or_iff bit_and_iff bit_not_iff masks
  by (cases "n < 8") (auto simp: bit_simps bit_0 dest: bit_imp_le_length)


lemma offset_bytes:
  fixes x :: int
  assumes "0 \<le> x" "x < 2 ^ 17"
  shows "uint (word_of_int x :: 8 word) + uint (word_of_int (x div 2 ^ 8) :: 8 word) * 2 ^ 8 +
    of_bool (odd (x div 2 ^ 16)) * 2 ^ 16 = x"
proof -
  define y where "y = x div 2 ^ 8"
  have z: "x div 2 ^ 16 = y div 2 ^ 8" unfolding y_def by (rule div_step) simp_all
  have "0 \<le> x div 2 ^ 16" "x div 2 ^ 16 < 2" using assms by (simp_all add: zdiv_mono1 pos_imp_zdiv_nonneg_iff)
  then have "x div 2 ^ 16 = 0 \<or> x div 2 ^ 16 = 1" by linarith
  then have top: "of_bool (odd (x div 2 ^ 16)) = y div 2 ^ 8" unfolding z by auto
  have "x mod 2 ^ 8 + y mod 2 ^ 8 * 2 ^ 8 + (y div 2 ^ 8) * 2 ^ 16 = x"
    if "x = y * 2 ^ 8 + x mod 2 ^ 8" "y = y div 2 ^ 8 * 2 ^ 8 + y mod 2 ^ 8"
  proof -
    have "a + b * 2 ^ 8 + c * 2 ^ 16 = u" if "u = v * 2 ^ 8 + a" "v = c * 2 ^ 8 + b" for a b c u v :: int
      using that by simp
    from this [OF that] show ?thesis .
  qed
  then have "x mod 2 ^ 8 + y mod 2 ^ 8 * 2 ^ 8 + (y div 2 ^ 8) * 2 ^ 16 = x"
    unfolding y_def by (simp only: div_mult_mod_eq)
  moreover have "uint (word_of_int k :: 8 word) = k mod 2 ^ 8" for k by (simp add: uint_word_of_int_eq take_bit_eq_mod)
  ultimately show ?thesis unfolding top y_def [symmetric] by (simp only:)
qed

lemma set_offset_byte:
  assumes "- 86400 < offset" "offset < 86400"
  shows "set_offset offset ts = Inr (ts\<lparr>extra0 := word_of_int \<bar>offset\<bar>, extra1 := word_of_int (\<bar>offset\<bar> div 2 ^ 8),
    extra2 := offset_byte offset (extra2 ts)\<rparr>)"
  using assms by (simp add: set_offset_def extra_defs offset_byte_def Let_def)

lemma digits_cong:
  assumes "\<And>n. n \<in> {2, 3, 4} \<Longrightarrow> bit (extra2 a) n = bit (extra2 b) n"
  shows "subsecond_digits a = subsecond_digits b"
proof -
  have "extra2 a AND 28 = extra2 b AND 28"
    by (rule bit_word_eqI, unfold bit_and_iff masks) (use assms in auto)
  then show ?thesis by (simp add: subsecond_digits_def extra_defs)
qed

lemma get_offset_bits:
  "get_offset ts = (if bit (extra2 ts) 1 then - 1 else 1) *
     (uint (extra0 ts) + uint (extra1 ts) * 2 ^ 8 + of_bool (bit (extra2 ts) 0) * 2 ^ 16)"
  using top_bit [of "extra2 ts"] flag_bits(1) [of "extra2 ts"]
  by (simp add: get_offset_def has_negative_offset_def extra_defs Let_def)

definition digits_byte :: "8 word \<Rightarrow> 8 word \<Rightarrow> 8 word" where
  "digits_byte n e2 = (push_bit 2 n AND 28) OR (e2 AND NOT 28)"

lemma digits_byte_bits:
  "bit (digits_byte m e2) n \<longleftrightarrow> n < 8 \<and> (if n \<in> {2, 3, 4} then bit m (n - 2) else bit e2 n)"
  unfolding digits_byte_def bit_or_iff bit_and_iff bit_not_iff masks
  by (cases "n < 8") (auto simp: bit_simps dest: bit_imp_le_length)

lemma date_bit: "bit (e2 OR 32 :: 8 word) n \<longleftrightarrow> bit e2 n \<or> n = 5"
  unfolding bit_or_iff masks ..

lemma digits_byte_digits:
  assumes "m < 8"
  shows "drop_bit 2 (digits_byte m e2 AND 28) = m"
proof (rule bit_word_eqI)
  fix n
  have "bit m k \<Longrightarrow> k < 3" for k
  proof -
    have "uint m < 2 ^ 3" using assms by (simp add: word_less_def)
    then have "take_bit 3 (uint m) = uint m" by (simp add: take_bit_int_eq_self)
    then have "bit (uint m) k \<Longrightarrow> k < 3" by (metis bit_take_bit_iff)
    then show "bit m k \<Longrightarrow> k < 3" using bit_imp_le_length [of m k] by (auto simp: bit_uint_iff)
  qed
  from this [of n] show "bit (drop_bit 2 (digits_byte m e2 AND 28)) n = bit m n"
    unfolding bit_drop_bit_eq o_apply bit_and_iff digits_byte_bits masks by (cases "n < 3") (auto simp: less_Suc_eq numeral_3_eq_3)
qed

text \<open>
  C39. The three extra bytes of a timestamp hold what is put into them. Every offset of less than a day is read back with
  its sign and marks the timestamp as having a time zone, every number of subsecond digits below eight is read back, and
  setting one of the offset, the digits and the date flag leaves the others and the date and time as they are.
\<close>

theorem timestamp_extra_roundtrip:
  assumes "- 86400 < offset" "offset < 86400" "n < 8"
  shows "(\<exists>ts'. set_offset offset ts = Inr ts' \<and> get_offset ts' = offset \<and> has_timezone ts' \<and>
      subsecond_digits ts' = subsecond_digits ts \<and> has_date_only ts' = has_date_only ts \<and> ts_datetime ts' = ts_datetime ts) \<and>
    (let ts' = set_subsecond_digits n ts in
      subsecond_digits ts' = n \<and> get_offset ts' = get_offset ts \<and> has_timezone ts' = has_timezone ts \<and>
      has_date_only ts' = has_date_only ts \<and> ts_datetime ts' = ts_datetime ts) \<and>
    (let ts' = set_date_only ts in
      has_date_only ts' \<and> subsecond_digits ts' = subsecond_digits ts \<and> get_offset ts' = get_offset ts \<and>
      has_timezone ts' = has_timezone ts \<and> ts_datetime ts' = ts_datetime ts)"
proof (intro conjI)
  note flags = has_timezone_def has_date_only_def extra_defs flag_bits
  let ?ts = "ts\<lparr>extra0 := word_of_int \<bar>offset\<bar>, extra1 := word_of_int (\<bar>offset\<bar> div 2 ^ 8),
    extra2 := offset_byte offset (extra2 ts)\<rparr>"
  have "get_offset ?ts = offset"
    using offset_bytes [of "\<bar>offset\<bar>"] assms by (simp add: get_offset_bits offset_byte_bits)
  moreover have "subsecond_digits ?ts = subsecond_digits ts" by (rule digits_cong) (auto simp: offset_byte_bits)
  ultimately show "\<exists>ts'. set_offset offset ts = Inr ts' \<and> get_offset ts' = offset \<and> has_timezone ts' \<and>
      subsecond_digits ts' = subsecond_digits ts \<and> has_date_only ts' = has_date_only ts \<and> ts_datetime ts' = ts_datetime ts"
    using set_offset_byte [OF assms(1,2), of ts] by (auto simp: flags offset_byte_bits)
  have digits: "set_subsecond_digits n ts = ts\<lparr>extra2 := digits_byte n (extra2 ts)\<rparr>"
    by (simp add: set_subsecond_digits_def digits_byte_def extra_defs)
  show "let ts' = set_subsecond_digits n ts in
      subsecond_digits ts' = n \<and> get_offset ts' = get_offset ts \<and> has_timezone ts' = has_timezone ts \<and>
      has_date_only ts' = has_date_only ts \<and> ts_datetime ts' = ts_datetime ts"
    using digits_byte_digits [OF assms(3), of "extra2 ts"]
    by (simp add: digits flags get_offset_bits digits_byte_bits subsecond_digits_def)
  have "subsecond_digits (set_date_only ts) = subsecond_digits ts"
    by (rule digits_cong) (auto simp: set_date_only_def extra_defs date_bit)
  then show "let ts' = set_date_only ts in
      has_date_only ts' \<and> subsecond_digits ts' = subsecond_digits ts \<and> get_offset ts' = get_offset ts \<and>
      has_timezone ts' = has_timezone ts \<and> ts_datetime ts' = ts_datetime ts"
    by (simp add: set_date_only_def flags get_offset_bits date_bit)
qed

theorem timestamp_extra_roundtrip_witness:
  "set_offset (- 5400) (set_date_only (ts_new ())) = Inr \<lparr>extra0 = 0x18, extra1 = 0x15, extra2 = 0b01100010, ts_datetime = ()\<rparr> \<and>
   (\<exists>ts'. set_offset (- 5400) (set_date_only (ts_new ())) = Inr ts' \<and> get_offset ts' = - 5400)"
proof
  show "set_offset (- 5400) (set_date_only (ts_new ())) = Inr \<lparr>extra0 = 0x18, extra1 = 0x15, extra2 = 0b01100010, ts_datetime = ()\<rparr>"
    by (simp add: set_offset_def set_date_only_def ts_new_def extra_defs)
  show "\<exists>ts'. set_offset (- 5400) (set_date_only (ts_new ())) = Inr ts' \<and> get_offset ts' = - 5400"
    using timestamp_extra_roundtrip [of "- 5400" 0 "set_date_only (ts_new ())"] by auto
qed

end
