(* ===== verification/Coercion.thy ===== *)
theory Coercion
  imports Timestamps
begin

section \<open>Coercion of values to types\<close>

text \<open>
  \<open>coerce_to\<close> and \<open>infer_dataflow_type\<close> of \<open>src/readyset-data/src/lib.rs\<close> with \<open>integer.rs\<close>, \<open>enum.rs\<close> and the
  coercion of \<open>timestamp.rs\<close> in the same directory. A string is a list of bytes in UTF-8; the two representations of texts,
  \<open>Text\<close> and \<open>TinyText\<close>, are one constructor. The arms of \<open>coerce_to\<close> for texts, floating point numbers, decimals and
  arrays are not modelled: they are the parameter \<open>elsewhere\<close>. The values that are not numbers fill the type parameter
  of \<open>df_value\<close>.
\<close>

datatype ('dt, 'a) other_value =
    OText string collation
  | OTimestamp "'dt timestamp_tz"
  | OTime mysql_time
  | OByteArray string
  | OBitVector "bool list"
  | OArray 'a
  | OPassThrough string

type_synonym ('f, 'd, 'n, 'dt, 'a) sql_value = "('f, 'd, 'n, ('dt, 'a) other_value) df_value"

subsection \<open>Strings\<close>

definition is_char_boundary :: "string \<Rightarrow> nat \<Rightarrow> bool" where
  "is_char_boundary s i =
     (i = 0 \<or> i = length s \<or> (i < length s \<and> \<not> (128 \<le> (of_char (s ! i) :: nat) \<and> (of_char (s ! i) :: nat) < 192)))"

definition str_prefix :: "nat \<Rightarrow> string \<Rightarrow> df_error + string" where
  "str_prefix l s = (if is_char_boundary s l then Inr (take l s) else Inl Panic)"

definition str_truncate :: "nat \<Rightarrow> string \<Rightarrow> df_error + string" where
  "str_truncate l s = (if l \<le> length s then str_prefix l s else Inr s)"

definition show_int :: "int \<Rightarrow> string" where
  "show_int z = (if z < 0 then ''-'' @ digits (nat (- z)) else digits (nat z))"

definition padded :: "nat \<Rightarrow> string \<Rightarrow> string" where
  "padded l s = s @ replicate (l - length s) (CHR '' '')"

definition df_from_str :: "string \<Rightarrow> ('f, 'd, 'n, 'dt, 'a) sql_value" where
  "df_from_str s = DfOther (OText s Utf8)"

definition df_from_bool :: "bool \<Rightarrow> ('f, 'd, 'n, 'dt, 'a) sql_value" where
  "df_from_bool b = from_u64 (if b then 1 else 0)"

subsection \<open>Integers\<close>

definition as_i32 :: "int \<Rightarrow> int" where
  "as_i32 z = sint (word_of_int z :: 32 word)"

definition try_signed :: "nat \<Rightarrow> int \<Rightarrow> df_error + ('f, 'd, 'n, 'dt, 'a) sql_value" where
  "try_signed w z = (if - (2 ^ (w - 1)) \<le> z \<and> z < 2 ^ (w - 1) then Inr (from_i64 z) else Inl ConversionError)"

definition try_unsigned :: "nat \<Rightarrow> int \<Rightarrow> df_error + ('f, 'd, 'n, 'dt, 'a) sql_value" where
  "try_unsigned w z = (if 0 \<le> z \<and> z < 2 ^ w then Inr (from_u64 z) else Inl ConversionError)"

definition two_digit_year :: "int \<Rightarrow> int" where
  "two_digit_year y = (if 0 \<le> y \<and> y \<le> 69 then y + 2000 else if 70 \<le> y \<and> y \<le> 99 then y + 1900 else y)"

definition apply_enum_limits :: "int \<Rightarrow> string list \<Rightarrow> int" where
  "apply_enum_limits idx elements = (if idx > int (length elements) then 0 else idx)"

definition timestamp_value :: "df_error + 'dt timestamp_tz \<Rightarrow> df_error + ('f, 'd, 'n, 'dt, 'a) sql_value" where
  "timestamp_value r = try_bind r (\<lambda>ts. Inr (DfOther (OTimestamp ts)))"

definition time_value :: "mysql_time returning \<Rightarrow> ('f, 'd, 'n, 'dt, 'a) sql_value returning" where
  "time_value t = map_option (\<lambda>r. try_bind r (\<lambda>t. Inr (DfOther (OTime t)))) t"

definition coerce_to_date :: "('date, 'dt) calendar \<Rightarrow> int \<Rightarrow> df_error + ('f, 'd, 'n, 'dt, 'a) sql_value" where
  "coerce_to_date cal val =
     (if 0 \<le> val \<and> val < 2 ^ 64
      then
        let year = two_digit_year (val div 10000); month = val div 100 mod 100; day = val mod 100 in
        (case from_ymd_opt cal (as_i32 year) month day of
           None \<Rightarrow> Inl ConversionError
         | Some d \<Rightarrow> timestamp_value (ts_from_naive_date cal d))
      else Inl ConversionError)"

definition coerce_to_timestamp :: "('date, 'dt) calendar \<Rightarrow> int \<Rightarrow> df_error + ('f, 'd, 'n, 'dt, 'a) sql_value" where
  "coerce_to_timestamp cal val =
     (if 0 \<le> val \<and> val < 2 ^ 64
      then
        let year = two_digit_year (val div 10000000000);
            month = val div 100000000 mod 100; day = val div 1000000 mod 100;
            hh = val div 10000 mod 100; mm = val div 100 mod 100; ss = val mod 100
        in
        (case Option.bind (from_ymd_opt cal (as_i32 year) month day) (\<lambda>d. and_hms_micro_opt cal d hh mm ss 0) of
           None \<Rightarrow> Inl ConversionError
         | Some dt \<Rightarrow> timestamp_value (Inr (ts_from_naive_date_time dt)))
      else Inl ConversionError)"

definition coerce_to_time :: "'c chrono \<Rightarrow> int \<Rightarrow> ('f, 'd, 'n, 'dt, 'a) sql_value returning" where
  "coerce_to_time c val =
     (if 0 \<le> val \<and> val < 2 ^ 64
      then
        let hh = val div 10000; mm = val div 100 mod 100; ss = val mod 100
        in time_value (from_hmsus c True (hh mod 2 ^ 16) (mm mod 2 ^ 8) (ss mod 2 ^ 8) 0)
      else Some (Inl ConversionError))"

definition coerce_integer ::
    "'c chrono \<Rightarrow> ('date, 'dt) calendar \<Rightarrow> ('f, 'd, 'n) numerics \<Rightarrow> int \<Rightarrow> df_type \<Rightarrow> ('f, 'd, 'n, 'dt, 'a) sql_value returning" where
  "coerce_integer c cal num val to_ty =
     (case to_ty of
        TBool \<Rightarrow> Some (Inr (df_from_bool (0 \<noteq> val)))
      | TTinyInt \<Rightarrow> Some (try_signed 8 val)
      | TUnsignedTinyInt \<Rightarrow> Some (try_unsigned 8 val)
      | TSmallInt \<Rightarrow> Some (try_signed 16 val)
      | TUnsignedSmallInt \<Rightarrow> Some (try_unsigned 16 val)
      | TInt \<Rightarrow> Some (try_signed 32 val)
      | TUnsignedInt \<Rightarrow> Some (try_unsigned 32 val)
      | TBigInt \<Rightarrow> Some (try_signed 64 val)
      | TUnsignedBigInt \<Rightarrow> Some (try_unsigned 64 val)
      | TFloat \<Rightarrow> Some (Inr (DfFloat (f32_of_int num val)))
      | TDouble \<Rightarrow> Some (Inr (DfDouble (f64_of_int num val)))
      | TText collation \<Rightarrow> Some (Inr (DfOther (OText (show_int val) collation)))
      | TVarChar l _ \<Rightarrow> Some (try_bind (str_truncate l (show_int val)) (\<lambda>s. Inr (df_from_str s)))
      | TChar l _ _ \<Rightarrow> Some (try_bind (str_truncate l (show_int val)) (\<lambda>s. Inr (df_from_str (padded l s))))
      | TBlob \<Rightarrow> Some (Inr (DfOther (OByteArray (show_int val))))
      | TVarBinary l \<Rightarrow> Some (try_bind (str_truncate l (show_int val)) (\<lambda>s. Inr (DfOther (OByteArray s))))
      | TBinary l \<Rightarrow> Some (try_bind (str_truncate l (show_int val)) (\<lambda>s. Inr (DfOther (OByteArray (padded l s)))))
      | TJson \<Rightarrow> Some (Inr (df_from_str (''\"'' @ show_int val @ ''\"'')))
      | TJsonb \<Rightarrow> Some (Inr (df_from_str (''\"'' @ show_int val @ ''\"'')))
      | TDate \<Rightarrow> Some (coerce_to_date cal val)
      | TTimestamp _ \<Rightarrow> Some (coerce_to_timestamp cal val)
      | TTimestampTz _ \<Rightarrow> Some (coerce_to_timestamp cal val)
      | TDateTime _ \<Rightarrow> Some (coerce_to_timestamp cal val)
      | TTime _ \<Rightarrow> coerce_to_time c val
      | TNumeric _ _ \<Rightarrow> Some (Inr (DfNumeric (dec_of_int num val)))
      | TEnum variants _ \<Rightarrow>
          let idx = (if 0 \<le> val \<and> val < 2 ^ 64 then val else 0)
          in Some (Inr (from_u64 (apply_enum_limits idx variants)))
      | _ \<Rightarrow> Some (Inl ConversionError))"

definition coerce_enum ::
    "'c chrono \<Rightarrow> ('date, 'dt) calendar \<Rightarrow> ('f, 'd, 'n) numerics \<Rightarrow> int \<Rightarrow> string list \<Rightarrow> df_type \<Rightarrow>
     ('f, 'd, 'n, 'dt, 'a) sql_value returning" where
  "coerce_enum c cal num enum_value enum_elements to_ty =
     (if is_any_text to_ty
      then
        let idx = nat enum_value in
        if idx = 0 then Some (Inr (df_from_str ''''))
        else if idx - 1 < length enum_elements
        then
          let s = enum_elements ! (idx - 1) in
          Some (case to_ty of
            TChar l _ _ \<Rightarrow>
              if l > length s then Inr (df_from_str (padded l s))
              else if l < length s then try_bind (str_prefix l s) (\<lambda>s. Inr (df_from_str s))
              else Inr (df_from_str s)
          | TVarChar l _ \<Rightarrow>
              if l < length s then try_bind (str_prefix l s) (\<lambda>s. Inr (df_from_str s)) else Inr (df_from_str s)
          | _ \<Rightarrow> Inr (df_from_str s))
        else Some (Inr (df_from_str ''''))
      else coerce_integer c cal num enum_value to_ty)"

subsection \<open>Timestamps\<close>

text \<open>\<open>show_ts\<close> is the printed form of a timestamp, which \<open>chrono\<close> and the formatting of floating point numbers make.\<close>

definition coerce_timestamp ::
    "'c chrono \<Rightarrow> ('date, 'dt) calendar \<Rightarrow> ('f, 'd, 'n) numerics \<Rightarrow> ('dt timestamp_tz \<Rightarrow> string) \<Rightarrow> 'dt timestamp_tz \<Rightarrow> df_type \<Rightarrow>
     ('f, 'd, 'n, 'dt, 'a) sql_value returning" where
  "coerce_timestamp c cal num show_ts self to_ty =
     (case to_ty of
        TTimestamp n \<Rightarrow>
          Some (timestamp_value (Inr (set_subsecond_digits (of_nat n) (ts_from_naive_date_time (ts_local cal self)))))
      | TTimestampTz n \<Rightarrow> Some (timestamp_value (try_bind (set_offset 0 self) (\<lambda>ts. Inr (set_subsecond_digits (of_nat n) ts))))
      | TDateTime n \<Rightarrow> Some (timestamp_value (Inr (set_subsecond_digits (of_nat n) self)))
      | TDate \<Rightarrow> Some (timestamp_value (ts_from_date cal (dt_date cal (ts_local cal self), get_offset self)))
      | TTime _ \<Rightarrow> (case time_hms_nano cal (ts_local cal self) of (h, m, s, ns) \<Rightarrow> time_value (from_naive_time c h m s ns))
      | TBigInt \<Rightarrow> Some (Inr (from_i64 (datetime_as_int cal self)))
      | TUnsignedBigInt \<Rightarrow> Some (Inr (from_u64 (datetime_as_int cal self)))
      | TInt \<Rightarrow> Some (if has_date_only self then Inr (from_i64 (date_as_int cal self)) else Inl ConversionError)
      | TUnsignedInt \<Rightarrow> Some (if has_date_only self then Inr (from_u64 (date_as_int cal self)) else Inl ConversionError)
      | TDouble \<Rightarrow> Some (Inr (DfDouble (f64_of_int num (datetime_as_int cal self))))
      | TFloat \<Rightarrow> Some (Inr (DfFloat (f32_of_int num (datetime_as_int cal self))))
      | TNumeric _ _ \<Rightarrow> Some (Inr (DfNumeric (dec_of_int num (datetime_as_int cal self))))
      | TBool \<Rightarrow>
          Some (case Option.bind (from_ymd_opt cal 0 0 0) (\<lambda>d. and_hms cal d 0 0 0) of
                  None \<Rightarrow> Inl Panic
                | Some zero \<Rightarrow> Inr (df_from_bool (ts_local cal self \<noteq> zero)))
      | TText collation \<Rightarrow> Some (Inr (DfOther (OText (show_ts self) collation)))
      | TChar l _ _ \<Rightarrow> Some (try_bind (str_truncate l (show_ts self)) (\<lambda>s. Inr (df_from_str s)))
      | TVarChar l _ \<Rightarrow> Some (try_bind (str_truncate l (show_ts self)) (\<lambda>s. Inr (df_from_str s)))
      | TBlob \<Rightarrow> Some (Inr (DfOther (OByteArray (show_ts self))))
      | TBinary l \<Rightarrow> Some (try_bind (str_truncate l (show_ts self)) (\<lambda>s. Inr (DfOther (OByteArray s))))
      | TVarBinary l \<Rightarrow> Some (try_bind (str_truncate l (show_ts self)) (\<lambda>s. Inr (DfOther (OByteArray s))))
      | TJson \<Rightarrow> Some (Inr (df_from_str (''\"'' @ show_ts (set_subsecond_digits 6 self) @ ''\"'')))
      | _ \<Rightarrow> Some (Inl ConversionError))"

subsection \<open>All values\<close>

fun infer_dataflow_type :: "('a \<Rightarrow> df_type) \<Rightarrow> ('f, 'd, 'n, 'dt, 'a) sql_value \<Rightarrow> df_type" where
  "infer_dataflow_type array_type v =
     (case v of
        DfNone \<Rightarrow> TUnknown
      | DfMax \<Rightarrow> TUnknown
      | DfInt _ \<Rightarrow> TBigInt
      | DfUnsigned _ \<Rightarrow> TUnsignedBigInt
      | DfFloat _ \<Rightarrow> TFloat
      | DfDouble _ \<Rightarrow> TDouble
      | DfNumeric _ \<Rightarrow> DEFAULT_NUMERIC
      | DfOther o' \<Rightarrow>
          (case o' of
             OText _ collation \<Rightarrow> TText collation
           | OTimestamp ts \<Rightarrow>
               let n = unat (subsecond_digits ts) in if has_timezone ts then TTimestampTz n else TTimestamp n
           | OTime _ \<Rightarrow> TTime 0
           | OByteArray _ \<Rightarrow> TBlob
           | OBitVector _ \<Rightarrow> TVarBit None
           | OArray a \<Rightarrow> TArray (array_type a)
           | OPassThrough _ \<Rightarrow> TUnknown))"

definition handle_enum_or_coerce_int ::
    "'c chrono \<Rightarrow> ('date, 'dt) calendar \<Rightarrow> ('f, 'd, 'n) numerics \<Rightarrow> int \<Rightarrow> df_type \<Rightarrow> df_type \<Rightarrow>
     ('f, 'd, 'n, 'dt, 'a) sql_value returning" where
  "handle_enum_or_coerce_int c cal num v to_ty from_ty =
     (case from_ty of
        TEnum variants _ \<Rightarrow> coerce_enum c cal num (if 0 \<le> v \<and> v < 2 ^ 64 then v else 0) variants to_ty
      | _ \<Rightarrow> coerce_integer c cal num v to_ty)"

definition df_coerce_to ::
    "'c chrono \<Rightarrow> ('date, 'dt) calendar \<Rightarrow> ('f, 'd, 'n) numerics \<Rightarrow> ('dt timestamp_tz \<Rightarrow> string) \<Rightarrow> ('a \<Rightarrow> df_type) \<Rightarrow>
     (('f, 'd, 'n, 'dt, 'a) sql_value \<Rightarrow> df_type \<Rightarrow> df_type \<Rightarrow> ('f, 'd, 'n, 'dt, 'a) sql_value returning) \<Rightarrow>
     ('f, 'd, 'n, 'dt, 'a) sql_value \<Rightarrow> df_type \<Rightarrow> df_type \<Rightarrow> ('f, 'd, 'n, 'dt, 'a) sql_value returning" where
  "df_coerce_to c cal num show_ts array_type elsewhere self to_ty from_ty =
     (if is_unknown to_ty \<and> is_unknown from_ty then Some (Inr self)
      else
        case self of
          DfNone \<Rightarrow> Some (Inr DfNone)
        | DfOther (OArray _) \<Rightarrow> elsewhere self to_ty from_ty
        | _ \<Rightarrow>
          if try_into_known (infer_dataflow_type array_type self) = Some to_ty then Some (Inr self)
          else
            (case self of
               DfOther (OTimestamp tz) \<Rightarrow> coerce_timestamp c cal num show_ts tz to_ty
             | DfInt v \<Rightarrow> handle_enum_or_coerce_int c cal num (sint v) to_ty from_ty
             | DfUnsigned v \<Rightarrow> handle_enum_or_coerce_int c cal num (uint v) to_ty from_ty
             | DfOther (OTime ts) \<Rightarrow>
                 Some (case to_ty of
                         TText collation \<Rightarrow> Inr (DfOther (OText (mt_display c ts) collation))
                       | _ \<Rightarrow> Inl ConversionError)
             | DfOther (OBitVector bits) \<Rightarrow>
                 Some (case to_ty of
                         TVarBit None \<Rightarrow> Inr self
                       | TVarBit (Some max_size) \<Rightarrow> if length bits > max_size then Inl ConversionError else Inr self
                       | _ \<Rightarrow> Inl ConversionError)
             | DfOther (OByteArray _) \<Rightarrow> Some (Inl ConversionError)
             | DfMax \<Rightarrow> Some (Inl ConversionError)
             | DfOther (OPassThrough _) \<Rightarrow> Some (Inl ConversionError)
             | _ \<Rightarrow> elsewhere self to_ty from_ty))"

text \<open>\<open>maybe_coerce_for_table_op\<close>\<close>

definition maybe_coerce_for_table_op ::
    "(('f, 'd, 'n, 'dt, 'a) sql_value \<Rightarrow> df_type \<Rightarrow> df_type \<Rightarrow> ('f, 'd, 'n, 'dt, 'a) sql_value returning) \<Rightarrow>
     ('f, 'd, 'n, 'dt, 'a) sql_value \<Rightarrow> df_type \<Rightarrow> ('f, 'd, 'n, 'dt, 'a) sql_value returning" where
  "maybe_coerce_for_table_op coerce_to self col_ty =
     (if is_enum col_ty
      then map_option (\<lambda>r. case r of Inr v \<Rightarrow> Inr v | Inl Panic \<Rightarrow> Inl Panic | Inl _ \<Rightarrow> Inr (DfInt 0)) (coerce_to self col_ty TUnknown)
      else if is_array col_ty \<and> is_enum (innermost_array_type col_ty) then coerce_to self col_ty TUnknown
      else Some (Inr self))"

subsection \<open>Values of a type\<close>

definition signed_fits :: "nat \<Rightarrow> int \<Rightarrow> bool" where
  "signed_fits w z \<longleftrightarrow> - (2 ^ (w - 1)) \<le> z \<and> z < 2 ^ (w - 1)"

definition unsigned_fits :: "nat \<Rightarrow> int \<Rightarrow> bool" where
  "unsigned_fits w z \<longleftrightarrow> 0 \<le> z \<and> z < 2 ^ w"

fun int_fits :: "df_type \<Rightarrow> int \<Rightarrow> bool" where
  "int_fits TTinyInt = signed_fits 8"
| "int_fits TSmallInt = signed_fits 16"
| "int_fits TInt = signed_fits 32"
| "int_fits TBigInt = signed_fits 64"
| "int_fits TUnsignedTinyInt = unsigned_fits 8"
| "int_fits TUnsignedSmallInt = unsigned_fits 16"
| "int_fits TUnsignedInt = unsigned_fits 32"
| "int_fits TUnsignedBigInt = unsigned_fits 64"
| "int_fits _ = (\<lambda>_. False)"

definition is_unsigned_int :: "df_type \<Rightarrow> bool" where
  "is_unsigned_int ty \<longleftrightarrow> ty \<in> {TUnsignedTinyInt, TUnsignedSmallInt, TUnsignedInt, TUnsignedBigInt}"

definition has_type :: "('f, 'd, 'n, 'dt, 'a) sql_value \<Rightarrow> df_type \<Rightarrow> bool" where
  "has_type v ty \<longleftrightarrow>
     (case v of
        DfInt w \<Rightarrow> is_any_int ty \<and> \<not> is_unsigned_int ty \<and> int_fits ty (sint w)
      | DfUnsigned w \<Rightarrow>
          is_unsigned_int ty \<and> int_fits ty (uint w) \<or> ty = TBool \<and> w \<in> {0, 1} \<or>
          (case ty of TEnum variants _ \<Rightarrow> unat w \<le> length variants | _ \<Rightarrow> False)
      | DfFloat _ \<Rightarrow> ty = TFloat
      | DfDouble _ \<Rightarrow> ty = TDouble
      | DfNumeric _ \<Rightarrow> (case ty of TNumeric _ _ \<Rightarrow> True | _ \<Rightarrow> False)
      | DfOther (OText s collation) \<Rightarrow>
          (case ty of
             TText collation' \<Rightarrow> collation = collation'
           | TVarChar l _ \<Rightarrow> length s \<le> l
           | TChar l _ _ \<Rightarrow> length s = l
           | _ \<Rightarrow> is_any_json ty)
      | DfOther (OByteArray s) \<Rightarrow>
          (case ty of TBlob \<Rightarrow> True | TVarBinary l \<Rightarrow> length s \<le> l | TBinary l \<Rightarrow> length s = l | _ \<Rightarrow> False)
      | DfOther (OTimestamp ts) \<Rightarrow>
          (case ty of TDate \<Rightarrow> has_date_only ts | TTimestamp _ \<Rightarrow> True | TTimestampTz _ \<Rightarrow> True | TDateTime _ \<Rightarrow> True | _ \<Rightarrow> False)
      | DfOther (OTime t) \<Rightarrow> (case ty of TTime _ \<Rightarrow> time_ok t | _ \<Rightarrow> False)
      | _ \<Rightarrow> False)"

subsection \<open>Integers are coerced to values of the type\<close>

lemma digits_ascii: "ch \<in> set (digits n) \<Longrightarrow> of_char ch < (128 :: nat)"
proof (induction n rule: digits.induct)
  case (1 n)
  show ?case
  proof (cases "n < 10")
    case True
    with "1.prems" show ?thesis by (simp add: digits.simps [of n])
  next
    case False
    with "1.prems" have "ch \<in> set (digits (n div 10)) \<or> ch = char_of (48 + n mod 10)" by (auto simp: digits.simps [of n])
    then show ?thesis using "1.IH" [OF False] by (auto simp: mod_less_eq_dividend)
  qed
qed

lemma show_int_ascii: "ch \<in> set (show_int z) \<Longrightarrow> of_char ch < (128 :: nat)"
  by (auto simp: show_int_def dest: digits_ascii split: if_splits)

lemma truncate_ascii:
  assumes "\<And>ch. ch \<in> set s \<Longrightarrow> of_char ch < (128 :: nat)"
  shows "str_truncate l s = Inr (take l s)"
proof (cases "l < length s")
  case True
  then have "s ! l \<in> set s" by simp
  with assms [OF this] True show ?thesis by (simp add: str_truncate_def str_prefix_def is_char_boundary_def)
qed (auto simp: str_truncate_def str_prefix_def is_char_boundary_def)

lemma length_padded: "length (padded l (take l s)) = l"
  by (simp add: padded_def)

lemma from_i64_int: "signed_fits 64 z \<Longrightarrow> from_i64 z = DfInt (word_of_int z) \<and> sint (word_of_int z :: 64 word) = z"
  by (simp add: from_i64_def signed_fits_def i64_roundtrip i64_range_def)

lemma from_u64_int: "unsigned_fits 64 z \<Longrightarrow> from_u64 z = DfUnsigned (word_of_int z) \<and> uint (word_of_int z :: 64 word) = z"
  by (simp add: from_u64_def unsigned_fits_def u64_roundtrip u64_range_def)

lemma signed_fits_mono: "\<lbrakk>signed_fits w z; w \<le> 64\<rbrakk> \<Longrightarrow> signed_fits 64 z"
proof -
  assume "signed_fits w z" "w \<le> 64"
  moreover have "(2 :: int) ^ (w - 1) \<le> 2 ^ 63" using \<open>w \<le> 64\<close> by (intro power_increasing) auto
  ultimately show ?thesis by (simp add: signed_fits_def)
qed

lemma unsigned_fits_mono: "\<lbrakk>unsigned_fits w z; w \<le> 64\<rbrakk> \<Longrightarrow> unsigned_fits 64 z"
proof -
  assume "unsigned_fits w z" "w \<le> 64"
  moreover have "(2 :: int) ^ w \<le> 2 ^ 64" using \<open>w \<le> 64\<close> by (intro power_increasing) auto
  ultimately show ?thesis by (simp add: unsigned_fits_def)
qed

lemma try_signed_int:
  assumes "w \<le> 64"
  shows "try_signed w z = (if signed_fits w z then Inr (DfInt (word_of_int z)) else Inl ConversionError)"
    "signed_fits w z \<Longrightarrow> sint (word_of_int z :: 64 word) = z"
  using from_i64_int [of z] signed_fits_mono [OF _ assms, of z] by (auto simp: try_signed_def signed_fits_def from_i64_def)

lemma try_unsigned_int:
  assumes "w \<le> 64"
  shows "try_unsigned w z = (if unsigned_fits w z then Inr (DfUnsigned (word_of_int z)) else Inl ConversionError)"
    "unsigned_fits w z \<Longrightarrow> uint (word_of_int z :: 64 word) = z"
  using from_u64_int [of z] unsigned_fits_mono [OF _ assms, of z] by (auto simp: try_unsigned_def unsigned_fits_def from_u64_def)


text \<open>What a coercion of the integer \<open>val\<close> must give: no panic, a value of the type, and the same integer or an error.\<close>

definition well_coerced :: "int \<Rightarrow> df_type \<Rightarrow> df_error + ('f, 'd, 'n, 'dt, 'a) sql_value \<Rightarrow> bool" where
  "well_coerced val ty r \<longleftrightarrow>
     (case r of Inr v \<Rightarrow> has_type v ty \<and> (is_any_int ty \<longrightarrow> int_fits ty val \<and> as_int v = Some val)
      | Inl e \<Rightarrow> e \<noteq> Panic \<and> (is_any_int ty \<longrightarrow> \<not> int_fits ty val))"

lemma coerced_int:
  "w \<le> 64 \<Longrightarrow> \<lbrakk>is_any_int ty; \<not> is_unsigned_int ty; int_fits ty = signed_fits w\<rbrakk> \<Longrightarrow> well_coerced val ty (try_signed w val)"
  "w \<le> 64 \<Longrightarrow> \<lbrakk>is_any_int ty; is_unsigned_int ty; int_fits ty = unsigned_fits w\<rbrakk> \<Longrightarrow> well_coerced val ty (try_unsigned w val)"
  by (auto simp: well_coerced_def has_type_def try_signed_int try_unsigned_int)

lemma coerced_date:
  assumes "\<forall>d. and_hms cal d 0 0 0 \<noteq> None"
  shows "well_coerced val TDate (coerce_to_date cal val)"
proof -
  have ts: "\<exists>ts. ts_from_naive_date cal d = Inr ts \<and> has_date_only ts" for d
  proof -
    from assms obtain dt where "and_hms cal d 0 0 0 = Some dt" by blast
    then show ?thesis
      by (auto simp: ts_from_naive_date_def set_date_only_def has_date_only_def flag_bits extra_defs date_bit)
  qed
  have "well_coerced val TDate (timestamp_value (ts_from_naive_date cal d))" for d
    using ts [of d] by (auto simp: well_coerced_def has_type_def timestamp_value_def is_any_int_def)
  then show ?thesis
    by (auto simp: coerce_to_date_def Let_def well_coerced_def [of _ _ "Inl _"] is_any_int_def split: option.splits)
qed

lemma coerced_timestamp:
  "\<lbrakk>\<not> is_any_int ty; \<And>ts. has_type (DfOther (OTimestamp ts) :: ('f, 'd, 'n, 'dt, 'a) sql_value) ty\<rbrakk> \<Longrightarrow>
     well_coerced val ty (coerce_to_timestamp cal val :: df_error + ('f, 'd, 'n, 'dt, 'a) sql_value)"
  by (auto simp: well_coerced_def coerce_to_timestamp_def timestamp_value_def Let_def split: option.splits)

lemma coerced_time:
  assumes "chrono_durations c ns"
  obtains r where "coerce_to_time c val = Some r" "well_coerced val (TTime n) r"
proof (cases "0 \<le> val \<and> val < 2 ^ 64")
  case True
  obtain t where "from_hmsus c True (val div 10000 mod 2 ^ 16) (val div 100 mod 100 mod 2 ^ 8) (val mod 100 mod 2 ^ 8) 0 =
      Some (Inr t)" "time_ok t"
    using chrono_durations.from_hmsus_clamped [OF assms, of "val div 10000 mod 2 ^ 16" "val div 100 mod 100 mod 2 ^ 8"
        "val mod 100 mod 2 ^ 8" 0 True] clamped_ok by (simp only: pos_mod_sign pos_mod_bound zero_less_power zero_less_numeral order.refl)
  with True that [of "Inr (DfOther (OTime t))"] show ?thesis
    by (simp only: coerce_to_time_def time_value_def Let_def if_True) (simp add: well_coerced_def has_type_def is_any_int_def)
next
  case False
  with that [of "Inl ConversionError"] show ?thesis
    by (simp only: coerce_to_time_def if_False) (simp add: well_coerced_def is_any_int_def)
qed

lemma enum_index:
  assumes "0 \<le> i" "i < 18446744073709551616"
  shows "unat (word_of_int (apply_enum_limits i variants) :: 64 word) \<le> length variants"
proof -
  define idx where "idx = apply_enum_limits i variants"
  have "0 \<le> idx" "idx < 2 ^ 64" "idx \<le> int (length variants)" using assms by (auto simp: idx_def apply_enum_limits_def)
  then have "unat (word_of_int idx :: 64 word) \<le> length variants"
    using u64_roundtrip [of idx] by (simp add: u64_range_def unat_eq_nat_uint)
  then show ?thesis by (simp add: idx_def)
qed

lemma truncate_int: "str_truncate l (show_int val) = Inr (take l (show_int val))"
  by (simp add: truncate_ascii show_int_ascii)

lemma coerced_ints:
  "well_coerced val TTinyInt (try_signed 8 val)" "well_coerced val TSmallInt (try_signed 16 val)"
  "well_coerced val TInt (try_signed 32 val)" "well_coerced val TBigInt (try_signed 64 val)"
  "well_coerced val TUnsignedTinyInt (try_unsigned 8 val)" "well_coerced val TUnsignedSmallInt (try_unsigned 16 val)"
  "well_coerced val TUnsignedInt (try_unsigned 32 val)" "well_coerced val TUnsignedBigInt (try_unsigned 64 val)"
  by (rule coerced_int; simp add: is_any_int_def is_unsigned_int_def)+

lemma coerced_timestamps:
  "well_coerced val (TTimestamp n) (coerce_to_timestamp cal val)" "well_coerced val (TTimestampTz n) (coerce_to_timestamp cal val)"
  "well_coerced val (TDateTime n) (coerce_to_timestamp cal val)"
  by (rule coerced_timestamp; simp add: is_any_int_def has_type_def)+

lemma coerced_value:
  "\<not> is_any_int ty \<Longrightarrow> well_coerced val ty (Inr v) \<longleftrightarrow> has_type v ty"
  "\<not> is_any_int ty \<Longrightarrow> well_coerced val ty (Inl e) \<longleftrightarrow> e \<noteq> Panic"
  by (simp_all add: well_coerced_def)

lemma coerce_integer_typed:
  assumes "chrono_durations c ns" "\<forall>d. and_hms cal d 0 0 0 \<noteq> None"
  obtains r :: "df_error + ('f, 'd, 'n, 'dt, 'a) sql_value"
  where "coerce_integer c cal num val to_ty = Some r" "well_coerced val to_ty r"
proof (cases "\<exists>n. to_ty = TTime n")
  case True
  then obtain n where n: "to_ty = TTime n" ..
  obtain r :: "df_error + ('f, 'd, 'n, 'dt, 'a) sql_value" where "coerce_to_time c val = Some r" "well_coerced val (TTime n) r"
    by (rule coerced_time [OF assms(1)])
  with n show ?thesis by (intro that [of r]) (simp_all add: coerce_integer_def)
next
  case False
  note coerced = coerced_ints coerced_timestamps coerced_date [OF assms(2)] enum_index coerced_value truncate_int is_any_int_def
  obtain r :: "df_error + ('f, 'd, 'n, 'dt, 'a) sql_value" where r: "coerce_integer c cal num val to_ty = Some r"
    using False by (cases to_ty) (simp_all add: coerce_integer_def)
  moreover have "well_coerced val to_ty r"
    using r False
    by (cases to_ty)
      (auto simp: coerce_integer_def coerced has_type_def df_from_str_def df_from_bool_def from_u64_def is_any_json_def length_padded)
  ultimately show ?thesis by (rule that)
qed


text \<open>A calendar for the examples: a month has 31 days, and a date with a time is a tuple.\<close>

definition plain_calendar :: "(int \<times> int \<times> int, (int \<times> int \<times> int) \<times> int \<times> int \<times> int) calendar" where
  "plain_calendar =
     \<lparr>from_ymd_opt = (\<lambda>y m d. if 1 \<le> m \<and> m \<le> 12 \<and> 1 \<le> d \<and> d \<le> 31 then Some (y, m, d) else None),
      and_hms = (\<lambda>d h m s. if h < 24 \<and> m < 60 \<and> s < 60 then Some (d, h, m, s) else None),
      and_hms_micro_opt = (\<lambda>d h m s us. if h < 24 \<and> m < 60 \<and> s < 60 then Some (d, h, m, s) else None),
      naive_local = (\<lambda>dt _. dt), naive_utc = (\<lambda>dt _. dt), dt_date = fst, date_ymd = (\<lambda>d. d),
      time_hms_nano = (\<lambda>(_, h, m, s). (h, m, s, 0))\<rparr>"





end
