(* ===== verification/Spec2Isabelle.thy ===== *)
theory Spec2Isabelle
  imports PartialMapProps TournamentProps Ranges Array2 Offsets TopKProps FilterProject UnionProps GroupedInstances JoinProps Coercion
begin

text \<open>
  \<^bold>\<open>A verification library for the dataflow database under \<open>src/\<close>\<close>

  The program caches the results of SQL queries. A query becomes a graph of dataflow operators. Changes of the base tables
  arrive as batches of signed records (rows that are inserted or deleted), each operator turns a batch from a parent into
  a batch for its children, and operators with state keep their output materialised, fully or only for the keys that were
  asked for. A lookup that meets a hole is a miss: it starts an upquery to the parents, whose answer is replayed through the
  operators. The library models the data structures behind partial materialisation, the operators, and the values and types
  they compute with, and proves that they do what they are for. Where they do not, it proves the deviation.

  \<^bold>\<open>Conventions\<close>

  \<^item> A fallible function returns a sum: \<open>Inl\<close> is an error or a panic, \<open>Inr\<close> a value; \<open>try_bind\<close> is the \<open>?\<close> operator. The
    errors of the dataflow are the datatype \<open>df_error\<close>, in which \<open>Panic\<close> stands for every panic.
  \<^item> A method on \<open>&mut self\<close> takes the state, a record, and returns the new one.
  \<^item> A \<open>BTreeMap\<close> or \<open>BTreeSet\<close> is an ascending list, a \<open>HashMap\<close> an association list in the unknown order of its iteration.
    Both satisfy the locale \<open>finite_map_ops\<close>.
  \<^item> Loops are structural recursions or have a termination proof. Only \<open>MySqlTime::new\<close>, whose source calls itself through
    \<open>max_value\<close>, is a partial function, and it is proved to return. There is no fuel.
  \<^item> Code that is not under \<open>src/\<close> is a parameter: hash functions, floating point numbers and decimals (\<open>numerics\<close>),
    durations and calendars of \<open>chrono\<close>, the parser of times, the order in which an unstable sort or a heap leaves equal
    elements. What the proofs need of it is a hypothesis, stated as a locale where several lemmas share it.

  \<^bold>\<open>Ranges and partial maps\<close>

  \<^item> \<open>Prelude\<close>: orderings, bounds, ordered sets and results of the standard library, with the fact collections.
  \<^item> \<open>IntervalTree\<close>, \<open>IntervalTreeProps\<close>, \<open>IntervalIterators\<close>: \<open>merging-interval-tree/src/lib.rs\<close>. An abstract cover is a set
    of cuts of the order; insertion, removal and the queries are exact on it, and so are the iterators over the tree and over the
    difference with a range. The iterator over overlaps may report one point too many at an included upper end, and yields
    nothing for a range without an upper end unless a stored interval has none either.
  \<^item> \<open>IntervalSet\<close>: the contract of the tree as a locale, interpreted on it. \<open>PartialMap\<close> and \<open>PartialMapProps\<close>, for
    \<open>partial-map/src/lib.rs\<close>, rest on the locale only: a sequence of operations refines a partial function with a set of
    known keys, and reads tell a missing key from an absent one.
  \<^item> \<open>Ranges\<close>: \<open>readyset-util/src/intervals.rs\<close>; covering, overlap, difference and intersection, exact but for ranges that
    touch in two excluded bounds, and the iteration of a pair of bounds. Values of the iteration are naturals up to a
    greatest value, the parameter \<open>mx\<close>, past which a step panics.
  \<^item> \<open>Tournament\<close>, \<open>TournamentProps\<close>: \<open>tournament-kway/src\<close>; for ascending contestants the tournament is their
    stable merge. The locale \<open>comparator\<close> is the contract of the comparison, shared with the sort orders below.
  \<^item> \<open>Array2\<close>: \<open>array2/src/lib.rs\<close>. \<open>Offsets\<close>: \<open>readyset-client/src/consistency.rs\<close> and \<open>replication.rs\<close>.

  \<^bold>\<open>Dataflow operators\<close> (\<open>readyset-dataflow/src\<close>)

  \<^item> \<open>SqlOperators\<close>, \<open>Keys\<close>, \<open>Processing\<close>, \<open>SortBy\<close>: keys of lookups, records, misses, replays, lookups into an ancestor, and
    the sort order of rows. \<open>StateViews\<close>: what a state promises to its readers, and batches in order.
  \<^item> \<open>FilterProject\<close>: \<open>ops/filter.rs\<close>, \<open>project.rs\<close>, \<open>identity.rs\<close>. Filtering a batch agrees with filtering the rows; lookups
    through a projection return its rows exactly when it keeps the columns in ascending order.
  \<^item> \<open>TopK\<close>, \<open>TopKProps\<close>: \<open>ops/topk.rs\<close>. The rows of a group stay its top rows when a batch inserts before it deletes
    and no two different rows of the group compare equal; three examples show wrong results otherwise.
  \<^item> \<open>Union\<close>, \<open>UnionProps\<close>: \<open>ops/union.rs\<close>. A bag union emits the greater of the two multiplicities; a full replay over
    any interleaving of the parents ends once, with all rows; two defects of partial replays.
  \<^item> \<open>Grouped\<close>, \<open>GroupedProps\<close>, \<open>GroupedInstances\<close>: \<open>ops/grouped\<close>. The locale \<open>group_aggregate\<close> is the contract between
    the operator and an aggregate; COUNT, SUM, MIN and MAX over integers with NULL satisfy it, so the operator keeps one row per group with
    the aggregate, as long as sums fit in 64 bits and, for MIN, the column is never NULL. The values of \<open>Values\<close> satisfy the
    addition laws that COUNT and SUM need. AVG and GROUP_CONCAT are modelled; of them only defects are shown.
  \<^item> \<open>Join\<close>, \<open>JoinProps\<close>: \<open>ops/join.rs\<close>. \<open>join_view\<close> is the inner or left join of two multisets of rows, with NULL keys
    matching nothing. A batch from either parent yields exactly the change of the view, if a batch from the right parent of a
    left join has the records of each key next to each other; two defects show wrong joins otherwise.

  A theorem on an operator with state says that the records it emits turn the old view into the new one, as multisets of rows.
  It assumes that the batch is in order (each deleted row is there) and that the states hold what lookups of
  the operator see at that point: the parent after the batch, the operator before it. The domain, which is not modelled,
  provides this.

  \<^bold>\<open>Values and types\<close> (\<open>readyset-data/src\<close>, \<open>mysql-time/src\<close>)

  \<^item> \<open>Values\<close>: the numbers of \<open>DfValue\<close> with 64 bit words; arithmetic is exact, NULL or an error.
  \<^item> \<open>MysqlTime\<close>: \<open>MySqlTime\<close> stays in its range, is given back from its fields when it has whole microseconds, and
    two times that are not positive are ordered the wrong way round. The
    locale \<open>chrono_durations\<close> holds the hypotheses on durations; numbers of nanoseconds are an instance.
  \<^item> \<open>Types\<close>: \<open>DfType\<close> and the translation from \<open>SqlType\<close>. \<open>Timestamps\<close>: \<open>TimestampTz\<close> with its
    packed offset, digits and flags, which are read back as they were set.
  \<^item> \<open>Coercion\<close>: \<open>coerce_to\<close> with \<open>integer.rs\<close>, \<open>enum.rs\<close> and the coercions of timestamps. Integers become values of the type
    or an error; four defects.

  \<^bold>\<open>Not modelled\<close>

  \<^item> The domain, its packets and the scheduling of replays, the controller, the server, the adapter, the replicators and the
    wire protocols are asynchronous services over channels, sockets and timers.
  \<^item> The stores of \<open>dataflow-state\<close> (shared rows in memory, RocksDB on disk), and \<open>reader-map\<close>, a concurrent map built on a
    crate outside the sources. Operators see a store through \<open>state_view\<close>.
  \<^item> The parser is made of combinators of a crate outside the sources, and the rewriting passes need its whole syntax tree.
  \<^item> The evaluation of expressions and the coercions of texts, arrays, floating point numbers and decimals rest on arithmetic,
    JSON and text libraries outside the sources. Filters and projections take the evaluator as a parameter, and \<open>df_coerce_to\<close>
    takes the missing arms.
  \<^item> The operators \<open>paginate\<close> and \<open>latest\<close>, which keep the pages and the newest row of a group: they could be treated by
    the means used for \<open>TopK\<close>, and are left for an extension of the library. The query plans and post-lookup operations are
    left out as well; they rest on a graph crate and on the order of all values.
  \<^item> The suggested indexes and the printed descriptions of all operators.
  \<^item> Memory use, metrics and logging.
\<close>

end
